(* ===== verification/Prelude.thy ===== *)
theory Prelude
  imports Complex_Main "HOL-Library.Word" "HOL-Library.AList" "HOL-Library.Monad_Syntax" "HOL-Library.Multiset"
begin

text \<open>
  Shared vocabulary of the development: the machine integers of the Go code, the model of a Go
  \<open>map\<close> with the interface its clients rely on, and generic lemmas on lists.

  A Go map is an association list with distinct keys. A lookup is \<open>gget\<close>, an assignment
  \<open>m[k] = v\<close> is \<open>gput\<close>, \<open>delete(m, k)\<close> is \<open>gdel\<close>, \<open>len(m)\<close> is \<open>gsize\<close>, and \<open>for k, v := range m\<close>
  visits the entries in list order. Go leaves that order unspecified; a statement proved for every
  well-formed list is therefore proved for every order of iteration. Deleting entries while
  ranging over the map is \<open>gkeep\<close>.
\<close>

unbundle bit_operations_syntax

type_synonym u64 = "64 word"
type_synonym u32 = "32 word"
type_synonym bytes = "8 word list"
type_synonym ('k, 'v) gomap = "('k \<times> 'v) list"

named_theorems gomap_simps "equations of the Go map operations"

section \<open>Go maps\<close>

definition gempty :: "('k, 'v) gomap" where
  "gempty = []"

definition gget :: "('k, 'v) gomap \<Rightarrow> 'k \<Rightarrow> 'v option" where
  "gget m k = map_of m k"

definition ghas :: "('k, 'v) gomap \<Rightarrow> 'k \<Rightarrow> bool" where
  "ghas m k = (gget m k \<noteq> None)"

definition gput :: "'k \<Rightarrow> 'v \<Rightarrow> ('k, 'v) gomap \<Rightarrow> ('k, 'v) gomap" where
  "gput k v m = AList.update k v m"

definition gkeep :: "('k \<Rightarrow> 'v \<Rightarrow> bool) \<Rightarrow> ('k, 'v) gomap \<Rightarrow> ('k, 'v) gomap" where
  "gkeep P m = filter (\<lambda>(k, v). P k v) m"

definition gdel :: "'k \<Rightarrow> ('k, 'v) gomap \<Rightarrow> ('k, 'v) gomap" where
  "gdel k m = gkeep (\<lambda>k' _. k' \<noteq> k) m"

definition gsize :: "('k, 'v) gomap \<Rightarrow> nat" where
  "gsize m = length m"

definition gwf :: "('k, 'v) gomap \<Rightarrow> bool" where
  "gwf m = distinct (map fst m)"

definition gmodify :: "'k \<Rightarrow> ('v \<Rightarrow> 'v) \<Rightarrow> ('k, 'v) gomap \<Rightarrow> ('k, 'v) gomap" where
  \<comment> \<open>writing a field through the pointer stored under a key\<close>
  "gmodify k f m = map (\<lambda>(k', v). (k', if k' = k then f v else v)) m"

definition gmapv :: "('k \<Rightarrow> 'v \<Rightarrow> 'w) \<Rightarrow> ('k, 'v) gomap \<Rightarrow> ('k, 'w) gomap" where
  "gmapv f m = map (\<lambda>(k, v). (k, f k v)) m"

lemma gget_empty [simp, gomap_simps]: "gget gempty k = None"
  by (simp add: gget_def gempty_def)

lemma gget_Nil [simp]: "gget [] k = None"
  by (simp add: gget_def)

lemma gget_Cons [simp]: "gget ((k', v) # m) k = (if k' = k then Some v else gget m k)"
  by (simp add: gget_def)

lemma gget_gput [simp, gomap_simps]: "gget (gput k v m) k' = (if k = k' then Some v else gget m k')"
  by (simp add: gget_def gput_def update_conv')

lemma gget_gkeep:
  "gwf m \<Longrightarrow> gget (gkeep P m) k = (case gget m k of None \<Rightarrow> None | Some v \<Rightarrow> if P k v then Some v else None)"
proof (induction m)
  case Nil
  then show ?case by (simp add: gkeep_def)
next
  case (Cons e m)
  obtain a b where e: "e = (a, b)" by (cases e)
  have "a \<notin> fst ` set m" and wf: "gwf m" using Cons.prems e by (auto simp: gwf_def)
  then have "gget m a = None" by (simp add: gget_def map_of_eq_None_iff)
  moreover have "gget (filter (\<lambda>(k, v). P k v) m) k =
      (case gget m k of None \<Rightarrow> None | Some v \<Rightarrow> if P k v then Some v else None)"
    using Cons.IH [OF wf] by (simp add: gkeep_def)
  ultimately show ?case using e by (auto simp: gkeep_def)
qed

lemma gget_gkeep_key:
  "gget (gkeep (\<lambda>k _. P k) m) k = (if P k then gget m k else None)"
  by (induction m) (auto simp: gkeep_def)

lemma gget_gdel [simp, gomap_simps]: "gget (gdel k m) k' = (if k = k' then None else gget m k')"
  unfolding gdel_def by (simp add: gget_gkeep_key)

lemma gget_gmodify [gomap_simps]:
  "gget (gmodify k f m) k' = (if k' = k then map_option f (gget m k') else gget m k')"
  by (induction m) (auto simp: gmodify_def)

lemma gget_gmapv [gomap_simps]: "gget (gmapv f m) k = map_option (f k) (gget m k)"
  by (induction m) (auto simp: gmapv_def)

lemma gwf_empty [simp]: "gwf gempty" "gwf []"
  by (simp_all add: gwf_def gempty_def)

lemma gwf_gput [simp, intro]: "gwf m \<Longrightarrow> gwf (gput k v m)"
  by (simp add: gwf_def gput_def distinct_update)

lemma gwf_gkeep [simp, intro]: "gwf m \<Longrightarrow> gwf (gkeep P m)"
proof (induction m)
  case (Cons e m)
  then show ?case by (cases e) (auto simp: gwf_def gkeep_def)
qed (simp add: gkeep_def)

lemma gwf_gdel [simp, intro]: "gwf m \<Longrightarrow> gwf (gdel k m)"
  unfolding gdel_def by (rule gwf_gkeep)

lemma map_fst_gmodify [simp]: "map fst (gmodify k f m) = map fst m"
  by (induction m) (auto simp: gmodify_def)

lemma gwf_gmodify [simp]: "gwf (gmodify k f m) = gwf m"
  by (simp add: gwf_def)

lemma map_fst_gmapv [simp]: "map fst (gmapv f m) = map fst m"
  by (induction m) (auto simp: gmapv_def)

lemma gwf_gmapv [simp]: "gwf (gmapv f m) = gwf m"
  by (simp add: gwf_def)

lemma gsize_gmapv [simp]: "gsize (gmapv f m) = gsize m"
  by (simp add: gsize_def gmapv_def)

lemma dom_gget: "dom (gget m) = fst ` set m"
  unfolding gget_def by (rule dom_map_of_conv_image_fst)

lemma gsize_card: "gwf m \<Longrightarrow> gsize m = card (dom (gget m))"
  unfolding gsize_def dom_gget gwf_def by (metis distinct_card length_map set_map)

lemma finite_dom_gget [simp]: "finite (dom (gget m))"
  by (simp add: dom_gget)

lemma gget_Some_in_set: "gget m k = Some v \<Longrightarrow> (k, v) \<in> set m"
  by (simp add: gget_def map_of_SomeD)

lemma gget_in_set_iff: "gwf m \<Longrightarrow> (k, v) \<in> set m \<longleftrightarrow> gget m k = Some v"
  by (simp add: gwf_def gget_def)

lemma ghas_gput [simp]: "ghas (gput k v m) k' = (k = k' \<or> ghas m k')"
  by (simp add: ghas_def)

subsection \<open>The interface of a map\<close>

text \<open>
  What the rest of the development relies on when it counts votes: a store is visible under its
  own key only, and the length of a well-formed map is the number of its keys.
\<close>

locale counting_map =
  fixes empty :: "'m"
    and lookup :: "'m \<Rightarrow> 'k \<Rightarrow> 'v option"
    and store :: "'k \<Rightarrow> 'v \<Rightarrow> 'm \<Rightarrow> 'm"
    and remove :: "'k \<Rightarrow> 'm \<Rightarrow> 'm"
    and size_of :: "'m \<Rightarrow> nat"
    and wf_map :: "'m \<Rightarrow> bool"
  assumes lookup_empty: "lookup empty k = None"
    and lookup_store: "wf_map m \<Longrightarrow> lookup (store k v m) k' = (if k = k' then Some v else lookup m k')"
    and lookup_remove: "wf_map m \<Longrightarrow> lookup (remove k m) k' = (if k = k' then None else lookup m k')"
    and wf_empty: "wf_map empty"
    and wf_store: "wf_map m \<Longrightarrow> wf_map (store k v m)"
    and wf_remove: "wf_map m \<Longrightarrow> wf_map (remove k m)"
    and size_lookup: "wf_map m \<Longrightarrow> size_of m = card (dom (lookup m))"
    and finite_lookup: "wf_map m \<Longrightarrow> finite (dom (lookup m))"
begin

lemma dom_store: "wf_map m \<Longrightarrow> dom (lookup (store k v m)) = insert k (dom (lookup m))"
  by (auto simp: lookup_store split: if_splits)

lemma size_store:
  "wf_map m \<Longrightarrow> size_of (store k v m) = (if lookup m k = None then Suc (size_of m) else size_of m)"
  by (auto simp: size_lookup wf_store dom_store finite_lookup card_insert_if)

lemma size_store_ge: "wf_map m \<Longrightarrow> size_of m \<le> size_of (store k v m)"
  by (simp add: size_store)

lemma size_remove_le: "wf_map m \<Longrightarrow> size_of (remove k m) \<le> size_of m"
proof -
  assume wf: "wf_map m"
  have "dom (lookup (remove k m)) \<subseteq> dom (lookup m)"
    using wf by (auto simp: lookup_remove split: if_splits)
  then show ?thesis using wf by (simp add: size_lookup wf_remove finite_lookup card_mono)
qed

lemma size_le_keys:
  "wf_map m \<Longrightarrow> (\<And>k v. lookup m k = Some v \<Longrightarrow> k \<in> K) \<Longrightarrow> finite K \<Longrightarrow> size_of m \<le> card K"
proof -
  assume wf: "wf_map m" and keys: "\<And>k v. lookup m k = Some v \<Longrightarrow> k \<in> K" and fin: "finite K"
  have "dom (lookup m) \<subseteq> K" using keys by blast
  with fin wf show ?thesis by (simp add: size_lookup card_mono)
qed

end

interpretation gm: counting_map gempty gget gput gdel gsize gwf
  by unfold_locales (auto simp: gsize_card)

section \<open>Lists\<close>

lemma length_filter_le_card:
  "distinct xs \<Longrightarrow> length (filter P xs) = card {x \<in> set xs. P x}"
  by (metis distinct_card distinct_filter set_filter)

definition take_last :: "nat \<Rightarrow> 'a list \<Rightarrow> 'a list" where
  "take_last k xs = drop (length xs - k) xs"

lemma take_last_append: "take_last k (take_last k xs @ ys) = take_last k (xs @ ys)"
  by (cases "length xs \<le> k") (auto simp: take_last_def add.commute)

lemma length_take_last [simp]: "length (take_last k xs) = min k (length xs)"
  by (simp add: take_last_def)

lemma take_pred_last: "xs \<noteq> [] \<Longrightarrow> take (length xs - 1) xs @ [xs ! (length xs - 1)] = xs"
  by (metis append_butlast_last_id butlast_conv_take last_conv_nth)

lemma nat_ceiling_half: "nat \<lceil>real m / 2\<rceil> = (m + 1) div 2"
proof -
  have "\<lceil>real m / 2\<rceil> = int ((m + 1) div 2)"
    by (rule ceiling_unique) (cases "even m"; auto elim!: evenE oddE)+
  then show ?thesis by simp
qed

end
