(* ===== verification/Status.thy ===== *)
theory Status
  imports Prelude
begin

text \<open>
  The status manager (\<open>status_mgr.go\<close>): two 32-bit words of flags, one written by the event loop
  and one by atomic operations, both indexed by the same constants. The compare-and-swap loops of
  the atomic operations are single steps here: an uncontended swap succeeds at once.
\<close>

datatype statusType =
    Normal | InConfChange | InViewChange | InRecovery | StateTransferring | Pending | Stopped
  | Inconsistent | InSyncState | NeedSyncState | SkipInProgress | byzantine | InEpochSyncing
  | waitCheckpointBatchExecute | waitCheckpointFinished

fun statusPos :: "statusType \<Rightarrow> nat" where
  \<comment> \<open>\<open>iota + 1\<close>\<close>
  "statusPos Normal = 1"
| "statusPos InConfChange = 2"
| "statusPos InViewChange = 3"
| "statusPos InRecovery = 4"
| "statusPos StateTransferring = 5"
| "statusPos Pending = 6"
| "statusPos Stopped = 7"
| "statusPos Inconsistent = 8"
| "statusPos InSyncState = 9"
| "statusPos NeedSyncState = 10"
| "statusPos SkipInProgress = 11"
| "statusPos byzantine = 12"
| "statusPos InEpochSyncing = 13"
| "statusPos waitCheckpointBatchExecute = 14"
| "statusPos waitCheckpointFinished = 15"

record statusManager =
  st_status :: u32
  st_atomicStatus :: u32

definition newStatusMgr :: statusManager where
  "newStatusMgr = \<lparr>st_status = 0, st_atomicStatus = 0\<rparr>"

definition resetStatus :: "statusManager \<Rightarrow> statusManager" where
  "resetStatus st = st\<lparr>st_status := 0, st_atomicStatus := 0\<rparr>"

section \<open>Single flags\<close>

definition atomicSetBit :: "statusType \<Rightarrow> statusManager \<Rightarrow> statusManager" where
  "atomicSetBit p st = st\<lparr>st_atomicStatus := st_atomicStatus st OR push_bit (statusPos p) 1\<rparr>"

definition atomicClearBit :: "statusType \<Rightarrow> statusManager \<Rightarrow> statusManager" where
  "atomicClearBit p st = st\<lparr>st_atomicStatus := st_atomicStatus st AND NOT (push_bit (statusPos p) 1)\<rparr>"

definition atomicHasBit :: "statusManager \<Rightarrow> statusType \<Rightarrow> bool" where
  "atomicHasBit st p = (0 < st_atomicStatus st AND push_bit (statusPos p) 1)"

definition setBit :: "statusType \<Rightarrow> statusManager \<Rightarrow> statusManager" where
  "setBit p st = st\<lparr>st_status := st_status st OR push_bit (statusPos p) 1\<rparr>"

definition clearBit :: "statusType \<Rightarrow> statusManager \<Rightarrow> statusManager" where
  "clearBit p st = st\<lparr>st_status := st_status st AND NOT (push_bit (statusPos p) 1)\<rparr>"

definition hasBit :: "statusManager \<Rightarrow> statusType \<Rightarrow> bool" where
  "hasBit st p = (0 < st_status st AND push_bit (statusPos p) 1)"

lemma statusPos_inj [simp]: "statusPos p = statusPos q \<longleftrightarrow> p = q"
  by (cases p; cases q) simp_all

lemma statusPos_bound: "statusPos p < LENGTH(32)"
  by (cases p) simp_all

lemma and_push_bit_iff:
  fixes w :: "'a::len word"
  assumes "n < LENGTH('a)"
  shows "0 < w AND push_bit n 1 \<longleftrightarrow> bit w n"
proof -
  have "0 < w AND push_bit n 1 \<longleftrightarrow> w AND push_bit n 1 \<noteq> 0"
    by (simp add: word_gt_0)
  also have "\<dots> \<longleftrightarrow> (\<exists>m. bit (w AND push_bit n 1) m)"
    by (metis bit_0_eq bot_apply bot_bool_def bit_eqI)
  also have "\<dots> \<longleftrightarrow> bit w n"
    using assms by (auto simp: bit_and_iff bit_exp_iff possible_bit_word)
  finally show ?thesis .
qed

lemma hasBit_bit: "hasBit st p = bit (st_status st) (statusPos p)"
  unfolding hasBit_def using and_push_bit_iff [OF statusPos_bound] by auto

lemma atomicHasBit_bit: "atomicHasBit st p = bit (st_atomicStatus st) (statusPos p)"
  unfolding atomicHasBit_def using and_push_bit_iff [OF statusPos_bound] by auto

lemma bit_or_push [simplified]:
  fixes w :: u32
  shows "bit (w OR push_bit (statusPos p) 1) (statusPos q) = (p = q \<or> bit w (statusPos q))"
  using statusPos_bound [of q] by (auto simp: bit_or_iff bit_exp_iff possible_bit_word)

lemma bit_and_not_push [simplified]:
  fixes w :: u32
  shows "bit (w AND NOT (push_bit (statusPos p) 1)) (statusPos q) = (p \<noteq> q \<and> bit w (statusPos q))"
  using statusPos_bound [of q]
  by (auto simp: bit_and_iff bit_not_iff bit_exp_iff possible_bit_word)

subsection \<open>The interface of a flag word\<close>

locale flag_word =
  fixes set_flag :: "'f \<Rightarrow> 's \<Rightarrow> 's"
    and clear_flag :: "'f \<Rightarrow> 's \<Rightarrow> 's"
    and has_flag :: "'s \<Rightarrow> 'f \<Rightarrow> bool"
  assumes has_set: "has_flag (set_flag p s) q = (p = q \<or> has_flag s q)"
    and has_clear: "has_flag (clear_flag p s) q = (p \<noteq> q \<and> has_flag s q)"
begin

lemma has_set_all: "has_flag (fold set_flag ps s) q = (q \<in> set ps \<or> has_flag s q)"
  by (induction ps arbitrary: s) (auto simp: has_set)

lemma has_clear_all: "has_flag (fold clear_flag ps s) q = (q \<notin> set ps \<and> has_flag s q)"
  by (induction ps arbitrary: s) (auto simp: has_clear)

lemma clear_set_other: "p \<noteq> q \<Longrightarrow> has_flag (clear_flag p (set_flag q s)) q"
  by (simp add: has_set has_clear)

end

interpretation nflag: flag_word setBit clearBit hasBit
  by unfold_locales (simp_all add: hasBit_bit setBit_def clearBit_def bit_or_push bit_and_not_push)

interpretation aflag: flag_word atomicSetBit atomicClearBit atomicHasBit
  by unfold_locales
    (simp_all add: atomicHasBit_bit atomicSetBit_def atomicClearBit_def bit_or_push bit_and_not_push)

lemma status_frame [simp]:
  "atomicHasBit (setBit p st) q = atomicHasBit st q"
  "atomicHasBit (clearBit p st) q = atomicHasBit st q"
  "hasBit (atomicSetBit p st) q = hasBit st q"
  "hasBit (atomicClearBit p st) q = hasBit st q"
  by (simp_all add: hasBit_bit atomicHasBit_bit setBit_def clearBit_def atomicSetBit_def atomicClearBit_def)

lemmas flag_simps [simp] = nflag.has_set nflag.has_clear aflag.has_set aflag.has_clear

section \<open>Several flags\<close>

definition atomicOn :: "statusType list \<Rightarrow> statusManager \<Rightarrow> statusManager" where
  "atomicOn ps st = fold atomicSetBit ps st"

definition atomicOff :: "statusType list \<Rightarrow> statusManager \<Rightarrow> statusManager" where
  "atomicOff ps st = fold atomicClearBit ps st"

definition atomicIn :: "statusManager \<Rightarrow> statusType \<Rightarrow> bool" where
  "atomicIn st p = atomicHasBit st p"

definition atomicInOne :: "statusType list \<Rightarrow> statusManager \<Rightarrow> bool" where
  "atomicInOne ps st = fold (\<lambda>p rs. rs \<or> atomicIn st p) ps False"

definition statusOn :: "statusType list \<Rightarrow> statusManager \<Rightarrow> statusManager" where
  "statusOn ps st = fold setBit ps st"

definition statusOff :: "statusType list \<Rightarrow> statusManager \<Rightarrow> statusManager" where
  "statusOff ps st = fold clearBit ps st"

definition statusIn :: "statusManager \<Rightarrow> statusType \<Rightarrow> bool" where
  "statusIn st p = hasBit st p"

definition setNormal :: "statusManager \<Rightarrow> statusManager" where
  "setNormal st = statusOn [Normal] st"

definition maybeSetNormal :: "statusManager \<Rightarrow> statusManager" where
  "maybeSetNormal st =
     (if \<not> atomicInOne [InViewChange, Pending, SkipInProgress] st then setNormal st else st)"

definition isNormal :: "statusManager \<Rightarrow> bool" where
  "isNormal st = statusIn st Normal"

definition initStatus :: "statusManager \<Rightarrow> statusManager" where
  "initStatus st = atomicOn [Pending] (resetStatus st)"

lemma atomicInOne_iff: "atomicInOne ps st = (\<exists>p \<in> set ps. atomicIn st p)"
proof -
  have "fold (\<lambda>p rs. rs \<or> atomicIn st p) ps b = (b \<or> (\<exists>p \<in> set ps. atomicIn st p))" for b
    by (induction ps arbitrary: b) auto
  then show ?thesis by (simp add: atomicInOne_def)
qed

lemma statusIn_on [simp]:
  "statusIn (statusOn ps st) q = (q \<in> set ps \<or> statusIn st q)"
  "statusIn (statusOff ps st) q = (q \<notin> set ps \<and> statusIn st q)"
  by (simp_all add: statusIn_def statusOn_def statusOff_def nflag.has_set_all nflag.has_clear_all)

lemma atomicIn_on [simp]:
  "atomicIn (atomicOn ps st) q = (q \<in> set ps \<or> atomicIn st q)"
  "atomicIn (atomicOff ps st) q = (q \<notin> set ps \<and> atomicIn st q)"
  by (simp_all add: atomicIn_def atomicOn_def atomicOff_def aflag.has_set_all aflag.has_clear_all)

lemma atomicIn_frame [simp]:
  "atomicIn (statusOn ps st) q = atomicIn st q"
  "atomicIn (statusOff ps st) q = atomicIn st q"
  by (induction ps arbitrary: st) (simp_all add: atomicIn_def statusOn_def statusOff_def)

lemma statusIn_frame [simp]:
  "statusIn (atomicOn ps st) q = statusIn st q"
  "statusIn (atomicOff ps st) q = statusIn st q"
  by (induction ps arbitrary: st) (simp_all add: statusIn_def atomicOn_def atomicOff_def)

lemma atomicIn_setNormal [simp]: "atomicIn (setNormal st) q = atomicIn st q"
  by (simp add: setNormal_def)

lemma atomicIn_maybeSetNormal [simp]: "atomicIn (maybeSetNormal st) q = atomicIn st q"
  by (simp add: maybeSetNormal_def)

lemma statusIn_maybeSetNormal:
  "statusIn (maybeSetNormal st) q =
     (statusIn st q \<or> (q = Normal \<and> \<not> atomicIn st InViewChange \<and> \<not> atomicIn st Pending
        \<and> \<not> atomicIn st SkipInProgress))"
  by (auto simp: maybeSetNormal_def setNormal_def atomicInOne_iff)

lemma flags_reset [simp]: "\<not> statusIn (resetStatus st) q" "\<not> atomicIn (resetStatus st) q"
  by (simp_all add: statusIn_def atomicIn_def hasBit_def atomicHasBit_def resetStatus_def)

lemma statusIn_init [simp]: "\<not> statusIn (initStatus st) q"
  by (simp add: initStatus_def)

lemma atomicIn_init: "atomicIn (initStatus st) q = (q = Pending)"
  by (simp add: initStatus_def)

lemma status_flags_independent:
  "statusIn (statusOn ps st) q = (q \<in> set ps \<or> statusIn st q)
   \<and> statusIn (statusOff ps st) q = (q \<notin> set ps \<and> statusIn st q)
   \<and> atomicIn (atomicOn ps st) q = (q \<in> set ps \<or> atomicIn st q)
   \<and> atomicIn (atomicOff ps st) q = (q \<notin> set ps \<and> atomicIn st q)
   \<and> atomicIn (statusOn ps st) q = atomicIn st q \<and> atomicIn (statusOff ps st) q = atomicIn st q
   \<and> statusIn (atomicOn ps st) q = statusIn st q \<and> statusIn (atomicOff ps st) q = statusIn st q"
  by simp


end
