(* ===== verification/ChainConfig.thy ===== *)
theory ChainConfig
  imports Prelude
begin

text \<open>
  The chain configuration (\<open>chain_config.go\<close>): the validator set of the epoch and what is derived
  from it, the weighted random choice of the primary, and the ring that remembers which nodes
  produced the most recent checkpoint blocks. A Go panic (a division by zero, an index out of
  range, a dereferenced nil) is the result \<open>None\<close>. SHA-256 and the callbacks \<open>getBlockFunc\<close> and
  \<open>getNodeIDByP2PID\<close> are parameters.
\<close>

section \<open>Data\<close>

record consensusParams =
  cp_proposerElectionType :: string
  cp_checkpointPeriod :: u64
  cp_highWatermarkCheckpointPeriod :: u64
  cp_notActiveWeight :: int
  cp_abnormalNodeExcludeView :: u64
  cp_againProposePercentage :: u64
  cp_enableTimedGenEmptyBlock :: bool
  cp_continuousNullRequestTolerance :: u64
  cp_reBroadcastTolerance :: u64

record epochInfo =
  ei_epoch :: u64
  ei_startBlock :: u64
  ei_epochPeriod :: u64
  ei_params :: consensusParams

definition ProposerElectionTypeWRF :: string where
  "ProposerElectionTypeWRF = ''wrf''"

definition ProposerElectionTypeAbnormalRotation :: string where
  "ProposerElectionTypeAbnormalRotation = ''abnormal-rotation''"

record validatorInfo =
  vi_id :: u64
  vi_power :: int
  vi_reduced :: bool
  vi_reduceView :: u64

record nodeInfo =
  ni_id :: u64
  ni_p2p :: string

record blockMeta =
  bm_processor :: u64
  bm_num :: u64
  bm_hash :: string

record tracker =
  tr_processors :: "blockMeta option list"
  tr_recent :: u64
  tr_next :: u64
  tr_idSet :: "u64 set"
  tr_start :: u64
  tr_end :: u64

record chainConfig =
  cc_epochInfo :: epochInfo
  cc_N :: nat
  cc_F :: nat
  cc_L :: u64
  cc_selfID :: u64
  cc_nodeInfoMap :: "(u64, nodeInfo) gomap"
  cc_validatorSet :: "(u64, int) gomap"
  cc_dynInfo :: "(u64, validatorInfo) gomap"
  cc_H :: u64
  cc_lastStableInfo :: "(u64, validatorInfo) gomap"
  cc_lastStableView :: u64
  cc_view :: u64
  cc_lastCkptHash :: string
  cc_lastCkptHeight :: u64
  cc_primaryID :: u64
  cc_tracker :: tracker
  cc_selfP2P :: string

section \<open>Weighted random choice\<close>

function binarySearch_loop :: "u64 list \<Rightarrow> u64 \<Rightarrow> int \<Rightarrow> int \<Rightarrow> int" where
  "binarySearch_loop nums target left right =
     (if left \<le> right then
        let mid = left + (right - left) div 2 in
        if nums ! nat mid = target then mid
        else if nums ! nat mid < target then binarySearch_loop nums target (mid + 1) right
        else binarySearch_loop nums target left (mid - 1)
      else left)"
  by pat_completeness auto
termination
  by (relation "measure (\<lambda>(nums, target, left, right). nat (right - left + 1))") auto

declare binarySearch_loop.simps [simp del]

definition binarySearch :: "u64 list \<Rightarrow> u64 \<Rightarrow> int" where
  "binarySearch nums target = binarySearch_loop nums target 0 (int (length nums) - 1)"

fun cumulativePowers :: "u64 \<Rightarrow> (u64 \<times> int) list \<Rightarrow> u64 list" where
  "cumulativePowers acc [] = []"
| "cumulativePowers acc ((_, p) # ns) =
     (let acc' = acc + word_of_int p in acc' # cumulativePowers acc' ns)"

definition be64 :: "u64 \<Rightarrow> bytes" where
  \<comment> \<open>\<open>binary.BigEndian\<close>\<close>
  "be64 w = map (\<lambda>i. ucast (drop_bit (8 * i) w)) [7, 6, 5, 4, 3, 2, 1, 0]"

definition bigint_of_bytes :: "bytes \<Rightarrow> int" where
  \<comment> \<open>\<open>big.Int.SetBytes\<close>\<close>
  "bigint_of_bytes bs = foldl (\<lambda>a b. 256 * a + uint b) 0 bs"

definition string_bytes :: "string \<Rightarrow> bytes" where
  "string_bytes s = map of_char s"

definition wrfSelectNodeByVotingPower ::
  "(bytes \<Rightarrow> bytes) \<Rightarrow> bytes \<Rightarrow> (u64, int) gomap \<Rightarrow> u64 option" where
  "wrfSelectNodeByVotingPower sha256 seed nodeID2VotingPower =
     (let seedHash = sha256 seed;
          nodeSet = sort_key fst nodeID2VotingPower;
          cumulative = cumulativePowers 0 nodeSet;
          total = (if cumulative = [] then 0 else last cumulative);
          modulus = \<bar>sint total\<bar>
      in if modulus = 0 then None
         else let selected = word_of_int (bigint_of_bytes seedHash mod modulus) :: u64;
                  idx = binarySearch cumulative selected
              in if nat idx < length nodeSet then Some (fst (nodeSet ! nat idx)) else None)"

definition isProposerElectionTypeWRF :: "chainConfig \<Rightarrow> bool" where
  "isProposerElectionTypeWRF c =
     (cp_proposerElectionType (ei_params (cc_epochInfo c)) = ProposerElectionTypeWRF)"

definition wrfCalPrimaryIDByView ::
  "(bytes \<Rightarrow> bytes) \<Rightarrow> chainConfig \<Rightarrow> u64 \<Rightarrow> (u64, validatorInfo) gomap \<Rightarrow> u64 option" where
  "wrfCalPrimaryIDByView sha256 c v info =
     (let seed = string_bytes (cc_lastCkptHash c) @ be64 (ei_epoch (cc_epochInfo c)) @ be64 v;
          powers = gmapv (\<lambda>_ i. vi_power i) (gkeep (\<lambda>nodeID _. nodeID \<notin> tr_idSet (cc_tracker c)) info)
      in wrfSelectNodeByVotingPower sha256 seed powers)"

definition calPrimaryIDByView ::
  "(bytes \<Rightarrow> bytes) \<Rightarrow> chainConfig \<Rightarrow> u64 \<Rightarrow> (u64, validatorInfo) gomap \<Rightarrow> u64 option" where
  "calPrimaryIDByView sha256 c v info =
     (let ty = cp_proposerElectionType (ei_params (cc_epochInfo c)) in
      if ty = ProposerElectionTypeWRF then wrfCalPrimaryIDByView sha256 c v info
      else if ty = ProposerElectionTypeAbnormalRotation then
        (if of_nat (cc_N c) = (0 :: u64) then None else Some (v mod of_nat (cc_N c) + 1))
      else wrfCalPrimaryIDByView sha256 c v info)"

definition updatePrimaryID :: "(bytes \<Rightarrow> bytes) \<Rightarrow> chainConfig \<Rightarrow> chainConfig option" where
  "updatePrimaryID sha256 c =
     map_option (\<lambda>p. c\<lparr>cc_primaryID := p\<rparr>) (calPrimaryIDByView sha256 c (cc_view c) (cc_dynInfo c))"

section \<open>Recent block producers\<close>

definition NewBlockProcessorTracker :: tracker where
  "NewBlockProcessorTracker =
     \<lparr>tr_processors = [], tr_recent = 0, tr_next = 0, tr_idSet = {}, tr_start = 0, tr_end = 0\<rparr>"

definition AddBlock :: "blockMeta \<Rightarrow> tracker \<Rightarrow> tracker option" where
  "AddBlock b t =
     (if unat (tr_next t) < length (tr_processors t) \<and> tr_recent t \<noteq> 0 then
        let procs = (tr_processors t)[unat (tr_next t) := Some b];
            ids = set (map bm_processor (List.map_filter id procs));
            nxt = (tr_next t + 1) mod tr_recent t;
            t1 = t\<lparr>tr_processors := procs, tr_idSet := ids, tr_next := nxt\<rparr>
        in Some (if tr_start t = 0 \<and> tr_end t = 0
                 then t1\<lparr>tr_start := bm_num b, tr_end := bm_num b\<rparr>
                 else let e = tr_end t + 1 in
                      if e - tr_start t = tr_recent t
                      then t1\<lparr>tr_end := e, tr_start := tr_start t + 1\<rparr>
                      else t1\<lparr>tr_end := e\<rparr>)
      else None)"

fun addBlocks :: "blockMeta list \<Rightarrow> tracker \<Rightarrow> tracker option" where
  "addBlocks [] t = Some t"
| "addBlocks (b # bs) t = (case AddBlock b t of None \<Rightarrow> None | Some t' \<Rightarrow> addBlocks bs t')"

definition word_range :: "u64 \<Rightarrow> u64 \<Rightarrow> u64 list" where
  \<comment> \<open>\<open>for i := a; i <= b; i++\<close>, for \<open>b\<close> below the largest \<open>uint64\<close>\<close>
  "word_range a b = (if a \<le> b then map of_nat [unat a ..< Suc (unat b)] else [])"

fun fetchBlocks :: "(u64 \<Rightarrow> blockMeta option) \<Rightarrow> (u64, blockMeta) gomap \<Rightarrow> u64 list \<Rightarrow> blockMeta list option" where
  "fetchBlocks getBlock old [] = Some []"
| "fetchBlocks getBlock old (i # ks) =
     (case (case gget old i of Some m \<Rightarrow> Some m | None \<Rightarrow> getBlock i) of
        None \<Rightarrow> None
      | Some m \<Rightarrow> map_option ((#) m) (fetchBlocks getBlock old ks))"

definition trackerResetRecentBlockNum ::
  "(u64 \<Rightarrow> blockMeta option) \<Rightarrow> u64 \<Rightarrow> u64 \<Rightarrow> u64 \<Rightarrow> tracker \<Rightarrow> tracker option" where
  "trackerResetRecentBlockNum getBlock epochStart lastHeight recent t =
     (let old = fold (\<lambda>b m. gput (bm_num b) b m) (List.map_filter id (tr_processors t)) gempty;
          t0 = \<lparr>tr_processors = replicate (unat recent) None, tr_recent = recent, tr_next = 0,
                tr_idSet = {}, tr_start = 0, tr_end = 0\<rparr>;
          endB = lastHeight;
          startB = (if endB > epochStart + recent - 1 then endB - recent + 1 else epochStart)
      in if startB \<le> endB
         then (case fetchBlocks getBlock old (word_range startB endB) of
                 None \<Rightarrow> None | Some bs \<Rightarrow> addBlocks bs t0)
         else Some t0)"

section \<open>Configuration of an epoch\<close>

definition CheckValidator :: "chainConfig \<Rightarrow> u64 \<Rightarrow> bool" where
  "CheckValidator c nodeID = ghas (cc_dynInfo c) nodeID"

definition isValidator :: "chainConfig \<Rightarrow> bool" where
  "isValidator c = CheckValidator c (cc_selfID c)"

definition getNodeInfo ::
  "(u64 \<Rightarrow> nodeInfo option) \<Rightarrow> chainConfig \<Rightarrow> u64 \<Rightarrow> nodeInfo option \<times> chainConfig" where
  "getNodeInfo fn c nodeID =
     (case gget (cc_nodeInfoMap c) nodeID of
        Some i \<Rightarrow> (Some i, c)
      | None \<Rightarrow> (case fn nodeID of
          None \<Rightarrow> (None, c)
        | Some i \<Rightarrow> (Some i, c\<lparr>cc_nodeInfoMap := gput nodeID i (cc_nodeInfoMap c)\<rparr>)))"

definition freshInfo :: "u64 \<Rightarrow> int \<Rightarrow> validatorInfo" where
  "freshInfo nodeID p = \<lparr>vi_id = nodeID, vi_power = p, vi_reduced = False, vi_reduceView = 0\<rparr>"

definition updateDerivedData ::
  "(string \<Rightarrow> u64 option) \<Rightarrow> (u64, int) gomap \<Rightarrow> chainConfig \<Rightarrow> string + chainConfig" where
  "updateDerivedData nodeIDByP2P newSet c =
     (if gsize newSet < 4 then Inl ''at least 4 validators''
      else
        let c1 = (case nodeIDByP2P (cc_selfP2P c) of
                    Some i \<Rightarrow> c\<lparr>cc_selfID := i\<rparr> | None \<Rightarrow> c);
            dyn = gmapv freshInfo newSet;
            stable = gmapv (\<lambda>nodeID i. freshInfo nodeID (vi_power i)) dyn;
            n = gsize dyn;
            ps = ei_params (cc_epochInfo c)
        in Inr (c1\<lparr>cc_validatorSet := newSet, cc_dynInfo := dyn, cc_lastStableInfo := stable,
                   cc_N := n, cc_F := (n - 1) div 3,
                   cc_L := cp_checkpointPeriod ps * cp_highWatermarkCheckpointPeriod ps\<rparr>))"

definition ccResetRecentBlockNum ::
  "(u64 \<Rightarrow> blockMeta option) \<Rightarrow> u64 \<Rightarrow> chainConfig \<Rightarrow> chainConfig option" where
  "ccResetRecentBlockNum getBlock lastHeight c =
     (let vn = of_nat (gsize (cc_dynInfo c)) :: u64;
          r0 = vn * cp_againProposePercentage (ei_params (cc_epochInfo c)) div 100;
          r = (if r0 = 0 then 1 else if r0 = vn then vn - 1 else r0)
      in map_option (\<lambda>t. c\<lparr>cc_tracker := t\<rparr>)
           (trackerResetRecentBlockNum getBlock (ei_startBlock (cc_epochInfo c)) lastHeight r (cc_tracker c)))"

section \<open>Quorum sizes\<close>

text \<open>These live in \<open>helper.go\<close> and depend on the configuration only.\<close>

definition commonCaseQuorum :: "chainConfig \<Rightarrow> nat" where
  \<comment> \<open>\<open>int(math.Ceil(float64(N+F+1) / 2))\<close>\<close>
  "commonCaseQuorum c = (cc_N c + cc_F c + 1 + 1) div 2"

definition allCorrectReplicasQuorum :: "chainConfig \<Rightarrow> nat" where
  "allCorrectReplicasQuorum c = cc_N c - cc_F c"

definition oneCorrectQuorum :: "chainConfig \<Rightarrow> nat" where
  "oneCorrectQuorum c = cc_F c + 1"

section \<open>The weighted choice is right\<close>

lemma binarySearch_loop_spec:
  assumes "sorted nums" "0 \<le> left" "left \<le> right + 1" "right < int (length nums)"
    and "\<And>j. int j < left \<Longrightarrow> nums ! j < target"
    and "\<And>j. right < int j \<Longrightarrow> j < length nums \<Longrightarrow> target < nums ! j"
  shows "\<exists>i. binarySearch_loop nums target left right = int i \<and>
     (i < length nums \<and> nums ! i = target \<or>
      i \<le> length nums \<and> (\<forall>j<i. nums ! j < target) \<and>
        (\<forall>j. i \<le> j \<and> j < length nums \<longrightarrow> target < nums ! j))"
  using assms
proof (induction nums target left right rule: binarySearch_loop.induct)
  case (1 nums target left right)
  define mid where "mid = left + (right - left) div 2"
  show ?case
  proof (cases "left \<le> right")
    case False
    then have "left = right + 1" using "1.prems" by simp
    then show ?thesis using False "1.prems"
      by (subst binarySearch_loop.simps) (auto intro!: exI [of _ "nat left"])
  next
    case True
    then have m: "left \<le> mid" "mid \<le> right" by (auto simp: mid_def)
    have lo: "nums ! j \<le> nums ! nat mid" if "int j \<le> mid" for j
      using that m "1.prems"(1,2,4) by (intro sorted_nth_mono) auto
    have hi: "nums ! nat mid \<le> nums ! j" if "mid \<le> int j" "j < length nums" for j
      using that "1.prems"(1) by (intro sorted_nth_mono) auto
    consider "nums ! nat mid = target" | "nums ! nat mid < target" | "target < nums ! nat mid"
      by fastforce
    then show ?thesis
    proof cases
      case 1
      then have "binarySearch_loop nums target left right = mid"
        using True by (subst binarySearch_loop.simps) (simp add: mid_def Let_def)
      then show ?thesis using 1 m "1.prems"(2,4) by (intro exI [of _ "nat mid"]) auto
    next
      case 2
      have eq: "binarySearch_loop nums target left right = binarySearch_loop nums target (mid + 1) right"
        using True 2 by (subst binarySearch_loop.simps) (auto simp: mid_def Let_def)
      have below: "nums ! j < target" if "int j < mid + 1" for j
        using that 2 lo [of j] by auto
      have ne: "nums ! nat mid \<noteq> target" using 2 by simp
      show ?thesis unfolding eq
        using "1.IH"(1) [OF True mid_def ne 2] below "1.prems" m by simp
    next
      case 3
      have eq: "binarySearch_loop nums target left right = binarySearch_loop nums target left (mid - 1)"
        using True 3 by (subst binarySearch_loop.simps) (auto simp: mid_def Let_def)
      have above: "target < nums ! j" if "mid - 1 < int j" "j < length nums" for j
        using that 3 hi [of j] by auto
      have ne: "nums ! nat mid \<noteq> target" "\<not> nums ! nat mid < target" using 3 by auto
      show ?thesis unfolding eq
        using "1.IH"(2) [OF True mid_def ne] above "1.prems" m by simp
    qed
  qed
qed

lemma binarySearch_spec:
  assumes "sorted nums"
  shows "\<exists>i. binarySearch nums target = int i \<and>
     (i < length nums \<and> nums ! i = target \<or>
      i \<le> length nums \<and> (\<forall>j<i. nums ! j < target) \<and>
        (\<forall>j. i \<le> j \<and> j < length nums \<longrightarrow> target < nums ! j))"
  unfolding binarySearch_def using assms by (intro binarySearch_loop_spec) auto

lemma length_cumulativePowers [simp]: "length (cumulativePowers acc ns) = length ns"
  by (induction acc ns rule: cumulativePowers.induct) (auto simp: Let_def)

lemma cumulativePowers_nth:
  "i < length ns \<Longrightarrow>
   cumulativePowers acc ns ! i = acc + word_of_int (sum_list (map snd (take (Suc i) ns)))"
proof (induction acc ns arbitrary: i rule: cumulativePowers.induct)
  case (2 acc a p ns)
  then show ?case by (cases i) (auto simp: Let_def ac_simps)
qed simp

definition powers_ok :: "(u64 \<times> int) list \<Rightarrow> bool" where
  \<comment> \<open>voting powers are not negative and their sum is a positive \<open>int64\<close>\<close>
  "powers_ok m = ((\<forall>e\<in>set m. 0 \<le> snd e) \<and> 0 < sum_list (map snd m) \<and> sum_list (map snd m) < 2 ^ 63)"

lemma sum_list_snd_nonneg: "(\<forall>e\<in>set m. 0 \<le> snd e) \<Longrightarrow> 0 \<le> sum_list (map snd (m :: ('a \<times> int) list))"
  by (induction m) auto

lemma partial_power_mono:
  assumes "\<forall>e\<in>set m. 0 \<le> snd e" "i \<le> j"
  shows "sum_list (map snd (take i m)) \<le> sum_list (map snd (take j (m :: ('a \<times> int) list)))"
proof -
  have "take j m = take i m @ take (j - i) (drop i m)"
    using assms(2) by (metis le_add_diff_inverse take_add)
  moreover have "0 \<le> sum_list (map snd (take (j - i) (drop i m)))"
    using assms(1) by (intro sum_list_snd_nonneg) (auto dest: in_set_takeD in_set_dropD)
  ultimately show ?thesis by simp
qed

lemma partial_power_bounds:
  assumes "powers_ok m"
  shows "0 \<le> sum_list (map snd (take i m))" "sum_list (map snd (take i m)) < 2 ^ 63"
proof -
  have nn: "\<forall>e\<in>set m. 0 \<le> snd e" using assms by (simp add: powers_ok_def)
  show "0 \<le> sum_list (map snd (take i m))"
    using partial_power_mono [OF nn, of 0 i] by simp
  have "sum_list (map snd (take i m)) \<le> sum_list (map snd (take (max i (length m)) m))"
    by (rule partial_power_mono [OF nn]) simp
  then show "sum_list (map snd (take i m)) < 2 ^ 63"
    using assms by (simp add: powers_ok_def)
qed

lemma uint_cumulativePowers:
  assumes "powers_ok m" "i < length m"
  shows "uint (cumulativePowers 0 m ! i) = sum_list (map snd (take (Suc i) m))"
  using partial_power_bounds [OF assms(1), of "Suc i"] assms(2)
  by (simp add: cumulativePowers_nth word_of_int_inverse [OF refl] unsigned_of_int take_bit_int_eq_self)

lemma sorted_cumulativePowers:
  assumes "powers_ok m"
  shows "sorted (cumulativePowers 0 m)"
  unfolding sorted_iff_nth_mono
proof (intro allI impI)
  fix i j assume "i \<le> j" "j < length (cumulativePowers 0 m)"
  then have "uint (cumulativePowers 0 m ! i) \<le> uint (cumulativePowers 0 m ! j)"
    using assms partial_power_mono [of m "Suc i" "Suc j"]
    by (simp add: uint_cumulativePowers powers_ok_def del: take_Suc)
  then show "cumulativePowers 0 m ! i \<le> cumulativePowers 0 m ! j" by (simp add: word_le_def)
qed

lemma powers_ok_sort [simp]: "powers_ok (sort_key fst m) = powers_ok m"
proof -
  have "sum_list (map snd (sort_key fst m)) = sum_list (map snd m)"
    by (simp flip: sum_mset_sum_list add: mset_map)
  then show ?thesis by (simp add: powers_ok_def)
qed

text \<open>What the draw does once the target is known: the index it finds is in range, and the target
  lies between the cumulative powers before and at that index.\<close>

lemma last_cumulativePowers:
  assumes "powers_ok m"
  shows "cumulativePowers 0 m \<noteq> []" "uint (last (cumulativePowers 0 m)) = sum_list (map snd m)"
    "sint (last (cumulativePowers 0 m)) = sum_list (map snd m)"
proof -
  show ne: "cumulativePowers 0 m \<noteq> []" using assms by (cases m) (auto simp: powers_ok_def Let_def)
  then have "0 < length m" by (metis length_cumulativePowers length_greater_0_conv)
  then show u: "uint (last (cumulativePowers 0 m)) = sum_list (map snd m)"
    using uint_cumulativePowers [OF assms, of "length m - 1"] by (simp add: last_conv_nth [OF ne])
  have "uint (last (cumulativePowers 0 m)) < 2 ^ 63"
    using assms u by (simp add: powers_ok_def)
  then show "sint (last (cumulativePowers 0 m)) = sum_list (map snd m)"
    unfolding u [symmetric] sint_uint by (intro signed_take_bit_int_eq_self) (auto intro: order_trans [of _ 0])
qed

definition wrfTarget :: "(bytes \<Rightarrow> bytes) \<Rightarrow> bytes \<Rightarrow> (u64, int) gomap \<Rightarrow> int" where
  "wrfTarget sha256 seed m = bigint_of_bytes (sha256 seed) mod sum_list (map snd m)"

lemma wrfSelect_index:
  assumes ok: "powers_ok m"
  defines "ns \<equiv> sort_key fst m"
  shows "\<exists>i<length m. wrfSelectNodeByVotingPower sha256 seed m = Some (fst (ns ! i)) \<and>
     (sum_list (map snd (take (Suc i) ns)) = wrfTarget sha256 seed m \<or>
      (\<forall>j<i. sum_list (map snd (take (Suc j) ns)) < wrfTarget sha256 seed m) \<and>
      (\<forall>j. i \<le> j \<and> j < length m \<longrightarrow> wrfTarget sha256 seed m < sum_list (map snd (take (Suc j) ns))))"
proof -
  define t where "t = wrfTarget sha256 seed m"
  define cum where "cum = cumulativePowers 0 ns"
  have okn: "powers_ok ns" using ok by (simp add: ns_def)
  have tot: "sum_list (map snd ns) = sum_list (map snd m)"
    unfolding ns_def by (simp flip: sum_mset_sum_list add: mset_map)
  have pos: "0 < sum_list (map snd m)" "sum_list (map snd m) < 2 ^ 63"
    using ok by (auto simp: powers_ok_def)
  have t: "0 \<le> t" "t < sum_list (map snd m)" using pos by (auto simp: t_def wrfTarget_def)
  have ut: "uint (word_of_int t :: u64) = t"
    using t pos by (simp add: unsigned_of_int take_bit_int_eq_self)
  have len: "length ns = length m" by (simp add: ns_def)
  have cumi: "uint (cum ! i) = sum_list (map snd (take (Suc i) ns))" if "i < length m" for i
    unfolding cum_def using uint_cumulativePowers [OF okn, of i] that len by simp
  have ne: "cum \<noteq> []" and lst: "uint (last cum) = sum_list (map snd m)"
    and slst: "sint (last cum) = sum_list (map snd m)"
    using last_cumulativePowers [OF okn] tot by (auto simp: cum_def)
  have lenc: "length cum = length m" by (simp add: cum_def len)
  obtain i where i: "binarySearch cum (word_of_int t) = int i"
    and alt: "i < length cum \<and> cum ! i = word_of_int t \<or>
      i \<le> length cum \<and> (\<forall>j<i. cum ! j < word_of_int t) \<and>
        (\<forall>j. i \<le> j \<and> j < length cum \<longrightarrow> word_of_int t < cum ! j)"
    using binarySearch_spec [OF sorted_cumulativePowers [OF okn], of "word_of_int t"]
    unfolding cum_def by blast
  have il: "i < length m"
  proof (rule ccontr)
    assume "\<not> i < length m"
    then have "length m - 1 < i" "i = length m" using ne lenc alt by (cases cum; auto)+
    then have "last cum < word_of_int t"
      using alt ne lenc by (simp add: last_conv_nth)
    then show False using t lst ut by (simp add: word_less_def)
  qed
  have sel: "wrfSelectNodeByVotingPower sha256 seed m = Some (fst (ns ! i))"
    using pos slst ne i il len
    by (simp add: wrfSelectNodeByVotingPower_def Let_def t_def wrfTarget_def flip: ns_def cum_def)
  have cmp: "(cum ! j = word_of_int t) = (sum_list (map snd (take (Suc j) ns)) = t)"
    "(cum ! j < word_of_int t) = (sum_list (map snd (take (Suc j) ns)) < t)"
    "(word_of_int t < cum ! j) = (t < sum_list (map snd (take (Suc j) ns)))" if "j < length m" for j
    using cumi [OF that] ut by (auto simp: word_less_def word_uint_eq_iff)
  show ?thesis
    using alt il lenc sel by (intro exI [of _ i]) (auto simp: cmp simp flip: t_def)
qed

text \<open>With non-negative powers whose positive sum fits an \<open>int64\<close>, the draw never panics and
  elects a member of the candidate map.\<close>

lemma wrfSelect_total:
  assumes "powers_ok m"
  shows "\<exists>k. wrfSelectNodeByVotingPower sha256 seed m = Some k \<and> ghas m k"
proof -
  obtain i where i: "i < length m"
    and sel: "wrfSelectNodeByVotingPower sha256 seed m = Some (fst (sort_key fst m ! i))"
    using wrfSelect_index [OF assms, of sha256 seed] by blast
  have "sort_key fst m ! i \<in> set m" using i by (metis length_sort nth_mem set_sort)
  then have "fst (sort_key fst m ! i) \<in> dom (gget m)" by (simp add: dom_gget)
  with sel show ?thesis by (auto simp: ghas_def)
qed

text \<open>C37. The draw is off by one at the boundaries: it compares the target with the cumulative
  power \<^emph>\<open>including\<close> a node and returns an exact match. A last node with voting power one is therefore
  never elected, whatever the hash of the seed is.\<close>

theorem wrfSelect_skips_last_unit_power:
  assumes ok: "powers_ok m" and wf: "gwf m" and two: "2 \<le> gsize m"
    and k: "gget m k = Some 1" and mx: "\<And>k'. ghas m k' \<Longrightarrow> k' \<le> k"
  shows "wrfSelectNodeByVotingPower sha256 seed m \<noteq> Some k"
proof
  assume el: "wrfSelectNodeByVotingPower sha256 seed m = Some k"
  define ns where "ns = sort_key fst m"
  define n where "n = length m"
  have len: "length ns = n" by (simp add: ns_def n_def)
  have dist: "distinct (map fst ns)" and srt: "sorted (map fst ns)"
    using wf by (simp_all add: ns_def gwf_def distinct_map)
  define T where "T = wrfTarget sha256 seed m"
  obtain i where i: "i < n" and fi: "fst (ns ! i) = k"
    and alt: "sum_list (map snd (take (Suc i) ns)) = T \<or> (\<forall>j<i. sum_list (map snd (take (Suc j) ns)) < T)"
    using wrfSelect_index [OF ok, of sha256 seed] el by (auto simp: ns_def n_def T_def)
  have last: "i = n - 1"
  proof (rule ccontr)
    assume "i \<noteq> n - 1"
    then have lt: "i < n - 1" using i by simp
    have "map fst ns ! i \<le> map fst ns ! (n - 1)"
      using lt srt len by (intro sorted_nth_mono) auto
    moreover have "map fst ns ! i \<noteq> map fst ns ! (n - 1)"
      using lt dist len by (simp add: nth_eq_iff_index_eq del: nth_map)
    moreover have "fst (ns ! (n - 1)) \<in> dom (gget m)"
      using lt len by (metis dom_gget diff_less i image_eqI less_imp_le_nat less_numeral_extra(1) nth_mem
          ns_def order_le_less_trans set_sort zero_le)
    ultimately show False using mx [of "fst (ns ! (n - 1))"] fi lt len by (auto simp: ghas_def)
  qed
  have "ns ! i \<in> set m" using i len by (metis ns_def nth_mem set_sort)
  then have "gget m k = Some (snd (ns ! i))"
    using wf fi by (metis gget_in_set_iff prod.collapse)
  then have one: "snd (ns ! i) = 1" using k by simp
  have n2: "2 \<le> n" using two by (simp add: gsize_def n_def)
  have tot: "sum_list (map snd ns) = sum_list (map snd m)"
    unfolding ns_def by (simp flip: sum_mset_sum_list add: mset_map)
  have "take (Suc i) ns = ns" using last n2 len by simp
  moreover have T: "T < sum_list (map snd m)" "0 \<le> T"
    using ok by (auto simp: T_def wrfTarget_def powers_ok_def)
  ultimately have below: "sum_list (map snd (take (Suc (i - 1)) ns)) < T"
    using alt tot last n2 by auto
  have "ns \<noteq> []" using n2 len by auto
  moreover have "Suc (i - 1) = length ns - 1" "i = length ns - 1" using last n2 len by auto
  ultimately have split: "take (Suc (i - 1)) ns @ [ns ! i] = ns" by (metis take_pred_last)
  have "sum_list (map snd ns) = sum_list (map snd (take (Suc (i - 1)) ns)) + snd (ns ! i)"
    by (subst split [symmetric]) (simp del: take_Suc)
  then show False using T tot one below by simp
qed

theorem wrfSelect_skips_last_unit_power_witness:
  "wrfSelectNodeByVotingPower id [3] [(1, 1), (2, 1), (3, 1), (4, 1)] \<noteq> Some 4"
proof (rule wrfSelect_skips_last_unit_power)
  show "k' \<le> 4" if "ghas [(1, 1), (2, 1), (3, 1), (4, 1 :: int)] k'" for k' :: u64
    using that by (auto simp: ghas_def split: if_splits)
qed (simp_all add: powers_ok_def gwf_def gsize_def)

section \<open>The ring of recent blocks is a sliding window\<close>

locale recent_window =
  fixes add :: "'b \<Rightarrow> 't \<Rightarrow> 't option"
    and win :: "'t \<Rightarrow> 'b list"
    and cap :: "'t \<Rightarrow> nat"
    and ok :: "'t \<Rightarrow> bool"
  assumes add_window:
    "ok t \<Longrightarrow> \<exists>t'. add b t = Some t' \<and> ok t' \<and> cap t' = cap t \<and> win t' = take_last (cap t) (win t @ [b])"
begin

lemma add_all:
  "ok t \<Longrightarrow> bs \<noteq> [] \<or> length (win t) \<le> cap t \<Longrightarrow>
   \<exists>t'. fold (\<lambda>b r. Option.bind r (add b)) bs (Some t) = Some t' \<and> ok t' \<and> cap t' = cap t \<and>
        win t' = take_last (cap t) (win t @ bs)"
proof (induction bs arbitrary: t)
  case Nil
  then show ?case by (simp add: take_last_def)
next
  case (Cons b bs)
  obtain t1 where t1: "add b t = Some t1" "ok t1" "cap t1 = cap t"
    "win t1 = take_last (cap t) (win t @ [b])"
    using add_window [OF Cons.prems(1)] by blast
  then have "length (win t1) \<le> cap t1" by simp
  from Cons.IH [OF t1(2)] this obtain t' where
    "fold (\<lambda>b r. Option.bind r (add b)) bs (Some t1) = Some t'" "ok t'" "cap t' = cap t1"
    "win t' = take_last (cap t1) (win t1 @ bs)" by blast
  then show ?case using t1 by (simp add: take_last_append)
qed

end

definition trackerWindow :: "tracker \<Rightarrow> blockMeta list" where
  "trackerWindow t = List.map_filter id (rotate (unat (tr_next t)) (tr_processors t))"

definition trackerOk :: "tracker \<Rightarrow> bool" where
  "trackerOk t =
     (tr_recent t \<noteq> 0 \<and> length (tr_processors t) = unat (tr_recent t) \<and> tr_next t < tr_recent t \<and>
      tr_idSet t = set (map bm_processor (trackerWindow t)) \<and>
      (\<exists>m ws. rotate (unat (tr_next t)) (tr_processors t) = replicate m None @ map Some ws))"

lemma map_filter_id_Somes [simp]:
  "List.map_filter id (replicate m None) = []" "List.map_filter id (map Some ws) = ws"
  by (induction m) (auto simp: map_filter_def comp_def)

lemma map_filter_append [simp]: "List.map_filter f (xs @ ys) = List.map_filter f xs @ List.map_filter f ys"
  by (simp add: map_filter_def)

lemma rotate_overwrite:
  assumes "n < length xs"
  shows "rotate (Suc n) (xs[n := y]) = tl (rotate n xs) @ [y]"
proof -
  have r: "rotate n (xs[n := y]) = y # drop (Suc n) xs @ take n xs"
    using assms by (simp add: rotate_drop_take drop_update_swap Cons_nth_drop_Suc [symmetric])
  have "tl (rotate n xs) = drop (Suc n) xs @ take n xs"
    using assms by (simp add: rotate_drop_take Cons_nth_drop_Suc [symmetric])
  then show ?thesis by (simp add: r)
qed

lemma rotate_next:
  fixes n r :: u64
  assumes "n < r" "length xs = unat r"
  shows "rotate (unat ((n + 1) mod r)) xs = rotate (Suc (unat n)) xs"
proof -
  have "unat (n + 1) = Suc (unat n)"
    using assms(1) by (metis add.commute add_eq_0_iff2 unatSuc word_order.extremum_strict)
  then have "unat ((n + 1) mod r) = Suc (unat n) mod unat r" by (simp add: unat_mod_distrib)
  then show ?thesis using assms(2) by (metis rotate_conv_mod)
qed


lemma AddBlock_window:
  assumes ok: "trackerOk t"
  shows "\<exists>t'. AddBlock b t = Some t' \<and> trackerOk t' \<and> unat (tr_recent t') = unat (tr_recent t) \<and>
           trackerWindow t' = take_last (unat (tr_recent t)) (trackerWindow t @ [b])"
proof -
  define n where "n = unat (tr_next t)"
  define k where "k = unat (tr_recent t)"
  define p where "p = tr_processors t"
  obtain m ws where shape: "rotate n p = replicate m None @ map Some ws"
    using ok by (auto simp: trackerOk_def n_def p_def)
  have len: "length p = k" "n < k" "tr_recent t \<noteq> 0" "tr_next t < tr_recent t"
    using ok by (auto simp: trackerOk_def n_def k_def p_def word_less_nat_alt)
  have mw: "m + length ws = k" using arg_cong [OF shape, of length] len by simp
  obtain t' where t': "AddBlock b t = Some t'" "tr_processors t' = p[n := Some b]"
    "tr_next t' = (tr_next t + 1) mod tr_recent t" "tr_recent t' = tr_recent t"
    "tr_idSet t' = set (map bm_processor (List.map_filter id (p[n := Some b])))"
    using len unfolding n_def p_def k_def by (auto simp: AddBlock_def Let_def)
  have rot: "rotate (unat (tr_next t')) (tr_processors t') = tl (replicate m None @ map Some ws) @ [Some b]"
    using len t' rotate_next [OF len(4), of "p[n := Some b]"] rotate_overwrite [of n p "Some b"] shape
    by (simp add: n_def k_def)
  have win: "trackerWindow t = ws" using shape by (simp add: trackerWindow_def n_def p_def)
  have wink: "trackerWindow t' = take_last k (ws @ [b])" and
    shape': "\<exists>m' ws'. tl (replicate m None @ map Some ws) @ [Some b] = replicate m' None @ map Some ws'"
  proof -
    show "trackerWindow t' = take_last k (ws @ [b])"
    proof (cases m)
      case 0
      then show ?thesis using rot mw len
        by (cases ws) (auto simp: trackerWindow_def take_last_def map_filter_simps)
    next
      case (Suc m')
      then show ?thesis using rot mw by (simp add: trackerWindow_def take_last_def map_filter_simps)
    qed
    show "\<exists>m' ws'. tl (replicate m None @ map Some ws) @ [Some b] = replicate m' None @ map Some ws'"
    proof (cases m)
      case 0
      then show ?thesis by (intro exI [of _ 0] exI [of _ "tl ws @ [b]"]) (simp add: map_tl)
    next
      case (Suc m')
      then show ?thesis by (intro exI [of _ m'] exI [of _ "ws @ [b]"]) simp
    qed
  qed
  have "set (List.map_filter id (rotate j xs)) = set (List.map_filter id xs)" for j and xs :: "blockMeta option list"
    by (simp add: map_filter_def)
  then have "tr_idSet t' = set (map bm_processor (trackerWindow t'))"
    using t' by (simp add: trackerWindow_def)
  moreover have "tr_next t' < tr_recent t'"
    using len t' by (simp add: word_mod_less_divisor word_neq_0_conv)
  ultimately have "trackerOk t'"
    using t' len rot shape' by (simp add: trackerOk_def k_def)
  then show ?thesis using t' win wink by (auto simp: k_def)
qed

interpretation tw: recent_window AddBlock trackerWindow "\<lambda>t. unat (tr_recent t)" trackerOk
  by unfold_locales (rule AddBlock_window)

lemma addBlocks_fold: "addBlocks bs t = fold (\<lambda>b r. Option.bind r (AddBlock b)) bs (Some t)"
proof (induction bs arbitrary: t)
  case (Cons b bs)
  have "fold (\<lambda>b r. Option.bind r (AddBlock b)) bs None = None" by (induction bs) auto
  then show ?case using Cons by (simp split: option.splits)
qed simp

lemma fetchBlocks_Some:
  assumes "\<And>i. i \<in> set ks \<Longrightarrow> getBlock i = Some (f i)" "\<And>i b. gget old i = Some b \<Longrightarrow> b = f i"
  shows "fetchBlocks getBlock old ks = Some (map f ks)"
  using assms by (induction ks) (auto split: option.splits)

definition trackerFrom :: "u64 \<Rightarrow> u64 \<Rightarrow> u64 \<Rightarrow> u64" where
  \<comment> \<open>the first block of the window after a reset\<close>
  "trackerFrom epochStart lastHeight recent =
     (if lastHeight > epochStart + recent - 1 then lastHeight - recent + 1 else epochStart)"

lemma map_filter_id_Cons [simp]:
  "List.map_filter id (None # xs) = List.map_filter id xs"
  "List.map_filter id (Some x # xs) = x # List.map_filter id xs"
  "List.map_filter id [] = []"
  by (simp_all add: map_filter_def)

lemma fold_gput_agree:
  "(\<forall>b\<in>set bs. P (bm_num b) b) \<Longrightarrow> (\<forall>i b. gget m i = Some b \<longrightarrow> P i b) \<Longrightarrow>
   \<forall>i b. gget (fold (\<lambda>b m. gput (bm_num b) b m) bs m) i = Some b \<longrightarrow> P i b"
proof (induction bs arbitrary: m)
  case (Cons c bs)
  have "\<forall>i b. gget (gput (bm_num c) c m) i = Some b \<longrightarrow> P i b" using Cons.prems by auto
  from Cons.IH [OF _ this] Cons.prems(1) show ?case unfolding fold_Cons comp_apply by auto
qed simp

lemma set_map_filter_id: "set (List.map_filter id ps) = {b. Some b \<in> set ps}"
  by (induction ps) (auto simp: map_filter_def)

lemma oldBlocks_agree:
  assumes "\<And>b. Some b \<in> set ps \<Longrightarrow> P (bm_num b) b" "\<forall>i b. gget m i = Some b \<longrightarrow> P i b"
  shows "\<forall>i b. gget (fold (\<lambda>b m. gput (bm_num b) b m) (List.map_filter id ps) m) i = Some b \<longrightarrow> P i b"
  by (rule fold_gput_agree) (use assms in \<open>auto simp: set_map_filter_id\<close>)

lemma trackerReset_window_aux:
  assumes "recent \<noteq> 0"
    and "\<And>i. getBlock i = Some (f i)"
    and "\<And>b. Some b \<in> set (tr_processors t) \<Longrightarrow> f (bm_num b) = b"
  shows "\<exists>t'. trackerResetRecentBlockNum getBlock epochStart h recent t = Some t' \<and> trackerOk t' \<and>
     trackerWindow t' = take_last (unat recent) (map f (word_range (trackerFrom epochStart h recent) h))"
proof -
  define old where "old = fold (\<lambda>b m. gput (bm_num b) b m) (List.map_filter id (tr_processors t)) gempty"
  define t0 where "t0 = \<lparr>tr_processors = replicate (unat recent) None, tr_recent = recent, tr_next = 0,
      tr_idSet = {}, tr_start = 0, tr_end = 0\<rparr>"
  define ks where "ks = word_range (trackerFrom epochStart h recent) h"
  have old: "\<forall>i b. gget old i = Some b \<longrightarrow> f i = b"
    unfolding old_def by (rule oldBlocks_agree) (use assms(3) in \<open>blast, simp\<close>)
  have fetch: "fetchBlocks getBlock old ks = Some (map f ks)"
    by (rule fetchBlocks_Some) (use assms(2) old in \<open>blast+\<close>)
  have win0: "trackerWindow t0 = []" by (simp add: trackerWindow_def t0_def)
  have ok0: "trackerOk t0"
    using assms(1) win0 unfolding trackerOk_def
    by (auto simp: t0_def word_neq_0_conv intro: exI [of _ "unat recent"] exI [of _ "[]"])
  obtain t' where t': "addBlocks (map f ks) t0 = Some t'" "trackerOk t'"
    "trackerWindow t' = take_last (unat (tr_recent t0)) (map f ks)"
    using tw.add_all [OF ok0, of "map f ks"] win0 by (auto simp: addBlocks_fold)
  have "trackerResetRecentBlockNum getBlock epochStart h recent t = Some t'"
  proof (cases "trackerFrom epochStart h recent \<le> h")
    case True
    then show ?thesis using fetch t'(1)
      unfolding trackerResetRecentBlockNum_def Let_def old_def [symmetric] t0_def [symmetric]
        trackerFrom_def [symmetric] ks_def by simp
  next
    case False
    then have "ks = []" by (simp add: ks_def word_range_def)
    then show ?thesis using False t'(1)
      unfolding trackerResetRecentBlockNum_def Let_def old_def [symmetric] t0_def [symmetric]
        trackerFrom_def [symmetric] by simp
  qed
  then show ?thesis using t' by (auto simp: t0_def ks_def)
qed

lemma set_word_range: "set (word_range a b) = {a..b}"
proof (cases "a \<le> b")
  case True
  have "i \<in> of_nat ` {unat a..<Suc (unat b)}" if "a \<le> i" "i \<le> b" for i
    using that by (intro image_eqI [of _ _ "unat i"]) (auto simp: word_le_nat_alt)
  moreover have "a \<le> of_nat j \<and> of_nat j \<le> b" if "unat a \<le> j" "j \<le> unat b" for j
    using that unsigned_less [of b, where ?'a = nat] by (simp add: word_le_nat_alt unat_of_nat take_bit_nat_eq_self)
  ultimately show ?thesis using True by (force simp: word_range_def)
qed (simp add: word_range_def)

lemma word_range_window:
  fixes epochStart h recent :: u64
  assumes "recent \<noteq> 0" "uint epochStart + uint recent \<le> 2 ^ 64"
  shows "length (word_range (trackerFrom epochStart h recent) h) \<le> unat recent"
    and "\<And>i. i \<in> set (word_range (trackerFrom epochStart h recent) h) \<Longrightarrow> epochStart \<le> i \<and> i \<le> h"
proof -
  define a where "a = trackerFrom epochStart h recent"
  have r: "0 < uint recent" using assms(1) by (simp add: word_neq_0_conv word_less_def)
  have "uint (epochStart + recent - 1) = uint epochStart + uint recent - 1"
    using assms(2) uint_lt2p [of recent]
    by (simp add: uint_word_ariths mod_simps)
      (rule mod_pos_pos_trivial, use r uint_ge_0 [of epochStart] in linarith, simp)
  then have bounds: "uint h < uint a + uint recent" "uint epochStart \<le> uint a" if "a \<le> h"
  proof -
    assume eq: "uint (epochStart + recent - 1) = uint epochStart + uint recent - 1"
    have "uint h < uint a + uint recent \<and> uint epochStart \<le> uint a"
    proof (cases "epochStart + recent - 1 < h")
      case True
      then have lt: "uint epochStart + uint recent - 1 < uint h" using eq by (simp add: word_less_def)
      then have "uint (h - recent + 1) = uint h - uint recent + 1"
        by (simp add: uint_word_ariths mod_simps)
          (rule mod_pos_pos_trivial, use r uint_lt2p [of h] uint_ge_0 [of epochStart] lt in linarith,
            use r uint_lt2p [of h] in simp)
      then show ?thesis using True lt by (simp add: a_def trackerFrom_def)
    next
      case False
      then show ?thesis using eq r by (simp add: a_def trackerFrom_def word_less_def)
    qed
    then show "uint h < uint a + uint recent" "uint epochStart \<le> uint a" by auto
  qed
  show "length (word_range (trackerFrom epochStart h recent) h) \<le> unat recent"
  proof (cases "a \<le> h")
    case True
    then have "int (unat h) < int (unat a + unat recent)" using bounds(1) by simp
    then show ?thesis unfolding a_def [symmetric] word_range_def
      by (simp del: of_nat_add add: Suc_le_eq less_diff_conv2 word_le_nat_alt [THEN iffD1, OF True] True; linarith)
  qed (simp add: word_range_def a_def)
  show "\<And>i. i \<in> set (word_range (trackerFrom epochStart h recent) h) \<Longrightarrow> epochStart \<le> i \<and> i \<le> h"
    using bounds(2) unfolding a_def [symmetric] set_word_range by (auto simp: word_le_def)
qed

text \<open>After \<open>ResetRecentBlockNum\<close> the ring holds exactly the last blocks up to the checkpoint
  height, oldest first, at most \<open>recentBlockNum\<close> of them and none before the start of the epoch, and
  the set of excluded nodes is the set of their producers.\<close>

lemma trackerReset_window:
  assumes "recent \<noteq> 0" "uint epochStart + uint recent \<le> 2 ^ 64"
    and "\<And>i. getBlock i = Some (f i)"
    and "\<And>b. Some b \<in> set (tr_processors t) \<Longrightarrow> f (bm_num b) = b"
  shows "\<exists>t'. trackerResetRecentBlockNum getBlock epochStart h recent t = Some t' \<and>
     trackerWindow t' = map f (word_range (trackerFrom epochStart h recent) h) \<and>
     tr_idSet t' = (\<lambda>i. bm_processor (f i)) ` set (word_range (trackerFrom epochStart h recent) h) \<and>
     length (trackerWindow t') \<le> unat recent \<and>
     (\<forall>i\<in>set (word_range (trackerFrom epochStart h recent) h). epochStart \<le> i \<and> i \<le> h)"
  (is "\<exists>t'. _ \<and> _ = map f ?ks \<and> _")
proof -
  obtain t' where t': "trackerResetRecentBlockNum getBlock epochStart h recent t = Some t'" "trackerOk t'"
    "trackerWindow t' = take_last (unat recent) (map f ?ks)"
    using trackerReset_window_aux [where f = f and t = t] assms(1,3,4) by blast
  then have "trackerWindow t' = map f ?ks"
    using word_range_window(1) [OF assms(1,2), of h] by (simp add: take_last_def)
  then show ?thesis using t' word_range_window(1) [OF assms(1,2), of h] word_range_window(2) [OF assms(1,2)]
    by (auto simp: trackerOk_def)
qed

definition sampleMeta :: "u64 \<Rightarrow> blockMeta" where
  "sampleMeta i = \<lparr>bm_processor = i mod 4 + 1, bm_num = i, bm_hash = ''h''\<rparr>"

section \<open>Quorums\<close>

locale quorum_counts =
  fixes conf_ok :: "'c \<Rightarrow> bool"
    and size_n :: "'c \<Rightarrow> nat"
    and faults :: "'c \<Rightarrow> nat"
    and quorum :: "'c \<Rightarrow> nat"
  assumes enough: "conf_ok c \<Longrightarrow> 3 * faults c + 1 \<le> size_n c"
    and quorum_large: "conf_ok c \<Longrightarrow> size_n c + faults c + 1 \<le> 2 * quorum c"
    and quorum_reachable: "conf_ok c \<Longrightarrow> quorum c \<le> size_n c - faults c"
begin

lemma weak_le_quorum: "conf_ok c \<Longrightarrow> faults c + 1 \<le> quorum c"
  using enough [of c] quorum_large [of c] by linarith

lemma overlap:
  assumes "conf_ok c" "finite V" "card V = size_n c" "A \<subseteq> V" "B \<subseteq> V" "quorum c \<le> card A" "quorum c \<le> card B"
  shows "faults c + 1 \<le> card (A \<inter> B)"
proof -
  have fin: "finite A" "finite B" using assms finite_subset by blast+
  have "card A + card B = card (A \<union> B) + card (A \<inter> B)" by (rule card_Un_Int [OF fin])
  moreover have "card (A \<union> B) \<le> size_n c" using assms by (metis Un_least card_mono)
  ultimately show ?thesis using assms quorum_large [OF assms(1)] by linarith
qed

lemma common_correct:
  assumes "conf_ok c" "finite V" "card V = size_n c" "A \<subseteq> V" "B \<subseteq> V" "quorum c \<le> card A" "quorum c \<le> card B"
    and "card Byz \<le> faults c" "finite Byz"
  shows "\<exists>v. v \<in> A \<and> v \<in> B \<and> v \<notin> Byz"
proof (rule ccontr)
  assume "\<not> ?thesis"
  then have "A \<inter> B \<subseteq> Byz" by blast
  then have "card (A \<inter> B) \<le> faults c" using assms(8,9) by (meson card_mono le_trans)
  then show False using overlap [OF assms(1-7)] by simp
qed

lemma quorum_of_correct:
  assumes "conf_ok c" "finite V" "card V = size_n c" "card (Byz \<inter> V) \<le> faults c"
  shows "quorum c \<le> card (V - Byz)"
proof -
  have "card (V - Byz) = card V - card (Byz \<inter> V)"
    using assms(2) by (simp add: card_Diff_subset_Int Int_commute)
  then show ?thesis using quorum_reachable [OF assms(1)] assms by linarith
qed

end

definition derivedOk :: "chainConfig \<Rightarrow> bool" where
  \<comment> \<open>what \<open>updateDerivedData\<close> establishes\<close>
  "derivedOk c = (4 \<le> cc_N c \<and> cc_F c = (cc_N c - 1) div 3 \<and> gwf (cc_dynInfo c) \<and> gsize (cc_dynInfo c) = cc_N c)"

interpretation ccq: quorum_counts derivedOk cc_N cc_F commonCaseQuorum
  by unfold_locales (auto simp: derivedOk_def commonCaseQuorum_def)

text \<open>C31. \<open>commonCaseQuorum\<close> is the rounded-up half of \<open>N + F + 1\<close> that the code computes with floating
  point numbers; any two such quorums of validators share a validator outside any set of at most
  \<open>F\<close> faulty ones.\<close>

theorem commonCaseQuorum_intersect:
  assumes "derivedOk c" "A \<subseteq> dom (gget (cc_dynInfo c))" "B \<subseteq> dom (gget (cc_dynInfo c))"
    and "commonCaseQuorum c \<le> card A" "commonCaseQuorum c \<le> card B"
    and "finite Byz" "card Byz \<le> cc_F c"
  shows "commonCaseQuorum c = nat \<lceil>real (cc_N c + cc_F c + 1) / 2\<rceil> \<and> (\<exists>v. v \<in> A \<and> v \<in> B \<and> v \<notin> Byz)"
proof
  show "commonCaseQuorum c = nat \<lceil>real (cc_N c + cc_F c + 1) / 2\<rceil>"
    by (simp only: commonCaseQuorum_def nat_ceiling_half)
  have "card (dom (gget (cc_dynInfo c))) = cc_N c"
    using assms(1) by (simp add: derivedOk_def flip: gsize_card)
  then show "\<exists>v. v \<in> A \<and> v \<in> B \<and> v \<notin> Byz"
    using ccq.common_correct [OF assms(1) _ _ assms(2-5) assms(7,6)] by simp
qed

text \<open>\<open>updateDerivedData\<close> refuses fewer than four validators without touching the configuration,
  and otherwise establishes \<open>N \<ge> 3F + 1\<close>, the high watermark distance, full and unreduced voting
  powers, and a quorum that the correct validators alone can reach.\<close>

lemma updateDerivedData_correct:
  assumes "gwf newSet"
  shows "case updateDerivedData nodeIDByP2P newSet c of
     Inl e \<Rightarrow> gsize newSet < 4
   | Inr c' \<Rightarrow> 4 \<le> gsize newSet \<and> derivedOk c' \<and> cc_N c' = gsize newSet \<and> 3 * cc_F c' + 1 \<le> cc_N c' \<and>
       oneCorrectQuorum c' \<le> commonCaseQuorum c' \<and> commonCaseQuorum c' \<le> allCorrectReplicasQuorum c' \<and>
       (\<forall>i. map_option vi_power (gget (cc_dynInfo c') i) = gget newSet i) \<and>
       cc_lastStableInfo c' = cc_dynInfo c' \<and> (\<forall>i v. gget (cc_dynInfo c') i = Some v \<longrightarrow> \<not> vi_reduced v)"
proof (cases "gsize newSet < 4")
  case True
  then show ?thesis by (simp add: updateDerivedData_def)
next
  case False
  obtain c' where c': "updateDerivedData nodeIDByP2P newSet c = Inr c'" "cc_dynInfo c' = gmapv freshInfo newSet"
    "cc_N c' = gsize newSet" "cc_F c' = (gsize newSet - 1) div 3"
    "cc_lastStableInfo c' = gmapv (\<lambda>k i. freshInfo k (vi_power i)) (gmapv freshInfo newSet)"
    using False by (auto simp: updateDerivedData_def Let_def split: option.splits)
  have same: "gmapv (\<lambda>k i. freshInfo k (vi_power i)) (gmapv freshInfo newSet) = gmapv freshInfo newSet"
    by (auto simp: gmapv_def freshInfo_def)
  have ok: "derivedOk c'" using False assms c' by (simp add: derivedOk_def)
  have q: "oneCorrectQuorum c' \<le> commonCaseQuorum c'" "commonCaseQuorum c' \<le> allCorrectReplicasQuorum c'"
    using ccq.weak_le_quorum [OF ok] ccq.quorum_reachable [OF ok]
    by (simp_all add: oneCorrectQuorum_def allCorrectReplicasQuorum_def)
  have "map_option vi_power (gget (cc_dynInfo c') i) = gget newSet i" for i
    by (simp add: c' gget_gmapv freshInfo_def option.map_comp comp_def option.map_ident)
  moreover have "\<not> vi_reduced v" if "gget (cc_dynInfo c') i = Some v" for i v
    using that by (auto simp: c' gget_gmapv freshInfo_def)
  ultimately show ?thesis
    using False ok c' same q ccq.enough [OF ok] by simp
qed

text \<open>The configurations used by the witnesses: four validators of equal power.\<close>

definition sampleParams :: consensusParams where
  "sampleParams = \<lparr>cp_proposerElectionType = ProposerElectionTypeWRF, cp_checkpointPeriod = 1,
     cp_highWatermarkCheckpointPeriod = 10, cp_notActiveWeight = 1, cp_abnormalNodeExcludeView = 10,
     cp_againProposePercentage = 30, cp_enableTimedGenEmptyBlock = True,
     cp_continuousNullRequestTolerance = 3, cp_reBroadcastTolerance = 2\<rparr>"

definition sampleEpoch :: epochInfo where
  "sampleEpoch = \<lparr>ei_epoch = 1, ei_startBlock = 1, ei_epochPeriod = 100, ei_params = sampleParams\<rparr>"

definition sampleConfig0 :: chainConfig where
  "sampleConfig0 = \<lparr>cc_epochInfo = sampleEpoch, cc_N = 0, cc_F = 0, cc_L = 0, cc_selfID = 0,
     cc_nodeInfoMap = [], cc_validatorSet = [], cc_dynInfo = [], cc_H = 0, cc_lastStableInfo = [],
     cc_lastStableView = 0, cc_view = 0, cc_lastCkptHash = ''h'', cc_lastCkptHeight = 0, cc_primaryID = 1,
     cc_tracker = NewBlockProcessorTracker, cc_selfP2P = ''p1''\<rparr>"

definition sampleConfig :: chainConfig where
  "sampleConfig = (case updateDerivedData (\<lambda>p. if p = ''p1'' then Some 1 else None)
     [(1, 1000), (2, 1000), (3, 1000), (4, 1000)] sampleConfig0 of Inr c \<Rightarrow> c | Inl _ \<Rightarrow> sampleConfig0)"

lemma sampleConfig_simps:
  "cc_N sampleConfig = 4" "cc_F sampleConfig = 1" "cc_selfID sampleConfig = 1" "cc_L sampleConfig = 10"
  "cc_dynInfo sampleConfig =
     [(1, freshInfo 1 1000), (2, freshInfo 2 1000), (3, freshInfo 3 1000), (4, freshInfo 4 1000)]"
  "commonCaseQuorum sampleConfig = 3" "derivedOk sampleConfig"
  by (simp_all add: sampleConfig_def updateDerivedData_def gsize_def gmapv_def sampleConfig0_def sampleEpoch_def
      sampleParams_def commonCaseQuorum_def derivedOk_def gwf_def)

theorem commonCaseQuorum_intersect_witness:
  "commonCaseQuorum sampleConfig = nat \<lceil>real (4 + 1 + 1) / 2\<rceil> \<and> (\<exists>v::u64. v \<in> {1, 2, 3} \<and> v \<in> {2, 3, 4} \<and> v \<notin> {2})"
proof -
  have "dom (gget (cc_dynInfo sampleConfig)) = {1, 2, 3, 4}"
    by (simp add: sampleConfig_simps dom_gget)
  then show ?thesis
    using commonCaseQuorum_intersect [OF sampleConfig_simps(7), of "{1, 2, 3}" "{2, 3, 4}" "{2}"]
    by (simp add: sampleConfig_simps)
qed

end
