(* ===== verification/Timer.thy ===== *)
theory Timer
  imports Prelude "HOL-Library.Signed_Division"
begin

text \<open>
  The timer manager (\<open>timer_mgr.go\<close>, the timer names and default timeouts of \<open>components.go\<close>). A
  titled timer keeps its default timeout and the running timers of that name, keyed by the clock
  value at their creation; the key is what the Go code prints with \<open>strconv.FormatInt\<close>. Durations
  are nanoseconds as unbounded integers; the one place where the code goes through \<open>uint64\<close> (the
  high-watermark timeout) is written with a machine word. Reading a field of a timer that was never
  created is a nil dereference, the result \<open>None\<close>. The event a timer delivers is a type parameter.
\<close>

section \<open>Names and defaults\<close>

definition requestTimer :: string where "requestTimer = ''requestTimer''"
definition batchTimer :: string where "batchTimer = ''batchTimer''"
definition vcResendTimer :: string where "vcResendTimer = ''vcResendTimer''"
definition newViewTimer :: string where "newViewTimer = ''newViewTimer''"
definition nullRequestTimer :: string where "nullRequestTimer = ''nullRequestTimer''"
definition syncStateRspTimer :: string where "syncStateRspTimer = ''syncStateRspTimer''"
definition syncStateRestartTimer :: string where "syncStateRestartTimer = ''syncStateRestartTimer''"
definition cleanViewChangeTimer :: string where "cleanViewChangeTimer = ''cleanViewChangeTimer''"
definition checkPoolTimer :: string where "checkPoolTimer = ''checkPoolTimer''"
definition fetchCheckpointTimer :: string where "fetchCheckpointTimer = ''fetchCheckpointTimer''"
definition highWatermarkTimer :: string where "highWatermarkTimer = ''highWatermarkTimer''"
definition fetchViewTimer :: string where "fetchViewTimer = ''fetchViewTimer''"
definition noTxBatchTimer :: string where "noTxBatchTimer = ''noTxBatchTimer''"

lemmas timer_names = requestTimer_def batchTimer_def vcResendTimer_def newViewTimer_def
  nullRequestTimer_def syncStateRspTimer_def syncStateRestartTimer_def cleanViewChangeTimer_def
  checkPoolTimer_def fetchCheckpointTimer_def highWatermarkTimer_def fetchViewTimer_def noTxBatchTimer_def

lemma timer_names_distinct:
  "distinct [requestTimer, batchTimer, vcResendTimer, newViewTimer, nullRequestTimer, syncStateRspTimer,
     syncStateRestartTimer, cleanViewChangeTimer, checkPoolTimer, fetchCheckpointTimer, highWatermarkTimer,
     fetchViewTimer, noTxBatchTimer]"
  by (simp add: timer_names)

lemma timer_names_distinct_rev:
  "distinct [noTxBatchTimer, fetchViewTimer, highWatermarkTimer, fetchCheckpointTimer, checkPoolTimer,
     cleanViewChangeTimer, syncStateRestartTimer, syncStateRspTimer, nullRequestTimer, newViewTimer,
     vcResendTimer, batchTimer, requestTimer]"
  by (simp add: timer_names)

lemmas timer_neq [simp] = timer_names_distinct [simplified] timer_names_distinct_rev [simplified]

definition second :: int where "second = 1000000000"

definition defaultTimeouts :: "(string \<times> int) list" where
  "defaultTimeouts =
     [(requestTimer, 6 * second), (batchTimer, second div 2), (noTxBatchTimer, 2 * second),
      (vcResendTimer, 10 * second), (newViewTimer, 8 * second), (nullRequestTimer, 9 * second),
      (syncStateRspTimer, second), (syncStateRestartTimer, 10 * second),
      (cleanViewChangeTimer, 60 * second), (checkPoolTimer, 180 * second),
      (fetchCheckpointTimer, 5 * second), (fetchViewTimer, second)]"

section \<open>State\<close>

record 'e running =
  rt_timeout :: int
  rt_event :: 'e

record 'e titleTimer =
  tt_name :: string
  tt_timeout :: int
  tt_active :: "(int, 'e running) gomap"

type_synonym 'e timerManager = "(string, 'e titleTimer) gomap"

section \<open>Operations\<close>

definition tt_count :: "'e titleTimer \<Rightarrow> nat" where
  "tt_count t = gsize (tt_active t)"

definition newTimer :: "string \<Rightarrow> int \<Rightarrow> 'e timerManager \<Rightarrow> 'e timerManager" where
  "newTimer name d tm =
     (let d' = (if d = 0 then (case map_of defaultTimeouts name of Some x \<Rightarrow> x | None \<Rightarrow> 0) else d)
      in gput name \<lparr>tt_name = name, tt_timeout = d', tt_active = gempty\<rparr> tm)"

definition containsTimer :: "string \<Rightarrow> 'e timerManager \<Rightarrow> bool" where
  "containsTimer name tm = ghas tm name"

definition stopTimer :: "string \<Rightarrow> 'e timerManager \<Rightarrow> 'e timerManager" where
  "stopTimer name tm = gmodify name (\<lambda>t. t\<lparr>tt_active := gempty\<rparr>) tm"

definition stopOneTimer :: "string \<Rightarrow> int \<Rightarrow> 'e timerManager \<Rightarrow> 'e timerManager" where
  "stopOneTimer name key tm = gmodify name (\<lambda>t. t\<lparr>tt_active := gdel key (tt_active t)\<rparr>) tm"

definition stopAllTimers :: "'e timerManager \<Rightarrow> 'e timerManager" where
  \<comment> \<open>\<open>timerManager.Stop\<close>\<close>
  "stopAllTimers tm = fold stopTimer (map fst tm) tm"

definition createTimer :: "int \<Rightarrow> string \<Rightarrow> int \<Rightarrow> 'e \<Rightarrow> 'e timerManager \<Rightarrow> 'e timerManager option" where
  "createTimer now name timeout ev tm =
     (if containsTimer name tm
      then Some (gmodify name
             (\<lambda>t. t\<lparr>tt_active := gput now \<lparr>rt_timeout = timeout, rt_event = ev\<rparr> (tt_active t)\<rparr>) tm)
      else None)"

definition startTimerWithNewTT ::
  "int \<Rightarrow> string \<Rightarrow> int \<Rightarrow> 'e \<Rightarrow> 'e timerManager \<Rightarrow> 'e timerManager option" where
  "startTimerWithNewTT now name timeout ev tm = createTimer now name timeout ev (stopTimer name tm)"

definition startTimer :: "int \<Rightarrow> string \<Rightarrow> 'e \<Rightarrow> 'e timerManager \<Rightarrow> 'e timerManager option" where
  "startTimer now name ev tm =
     (case gget tm name of
        None \<Rightarrow> None
      | Some t \<Rightarrow> startTimerWithNewTT now name (tt_timeout t) ev tm)"

definition softStartTimerWithNewTT ::
  "int \<Rightarrow> string \<Rightarrow> int \<Rightarrow> 'e \<Rightarrow> 'e timerManager \<Rightarrow> (bool \<times> 'e timerManager) option" where
  "softStartTimerWithNewTT now name timeout ev tm =
     (case gget tm name of
        None \<Rightarrow> None
      | Some t \<Rightarrow> if tt_count t \<noteq> 0 then Some (True, tm)
                  else map_option (Pair False) (createTimer now name timeout ev tm))"

definition getTimeoutValue :: "string \<Rightarrow> 'e timerManager \<Rightarrow> int" where
  "getTimeoutValue name tm = (case gget tm name of None \<Rightarrow> 0 | Some t \<Rightarrow> tt_timeout t)"

definition setTimeoutValue :: "string \<Rightarrow> int \<Rightarrow> 'e timerManager \<Rightarrow> 'e timerManager" where
  "setTimeoutValue name d tm = gmodify name (\<lambda>t. t\<lparr>tt_timeout := d\<rparr>) tm"

definition expireTimer :: "string \<Rightarrow> int \<Rightarrow> 'e timerManager \<Rightarrow> 'e option" where
  \<comment> \<open>the closure \<open>send\<close> of \<open>createTimer\<close>: the event is delivered only if the key is still active\<close>
  "expireTimer name key tm =
     (case gget tm name of None \<Rightarrow> None | Some t \<Rightarrow> map_option rt_event (gget (tt_active t) key))"

section \<open>Making the configured timeouts legal\<close>

definition makeNullRequestTimeoutLegal :: "'e timerManager \<Rightarrow> 'e timerManager" where
  "makeNullRequestTimeoutLegal tm =
     (let nullRequestTimeout = getTimeoutValue nullRequestTimer tm;
          requestTimeout = getTimeoutValue requestTimer tm
      in if requestTimeout \<ge> nullRequestTimeout \<and> nullRequestTimeout \<noteq> 0
         then setTimeoutValue nullRequestTimer (3 * requestTimeout sdiv 2) tm else tm)"

definition makeRequestTimeoutLegal :: "'e timerManager \<Rightarrow> 'e timerManager" where
  "makeRequestTimeoutLegal tm =
     (let requestTimeout = getTimeoutValue requestTimer tm;
          batchTimeout = getTimeoutValue batchTimer tm
      in if batchTimeout \<ge> requestTimeout
         then setTimeoutValue requestTimer (3 * batchTimeout sdiv 2) tm else tm)"

definition makeCleanVcTimeoutLegal :: "'e timerManager \<Rightarrow> 'e timerManager" where
  "makeCleanVcTimeoutLegal tm =
     (let nvTimeout = getTimeoutValue newViewTimer tm in
      if getTimeoutValue cleanViewChangeTimer tm < 6 * nvTimeout
      then setTimeoutValue cleanViewChangeTimer (6 * nvTimeout) tm else tm)"

definition makeSyncStateTimeoutLegal :: "'e timerManager \<Rightarrow> 'e timerManager" where
  "makeSyncStateTimeoutLegal tm =
     (let rspTimeout = getTimeoutValue syncStateRspTimer tm in
      if getTimeoutValue syncStateRestartTimer tm < 10 * rspTimeout
      then setTimeoutValue syncStateRestartTimer (10 * rspTimeout) tm else tm)"

record timerConfig =
  tc_vcResend :: int
  tc_nullRequest :: int
  tc_newView :: int
  tc_syncState :: int
  tc_syncStateRestart :: int
  tc_batch :: int
  tc_noTxBatch :: int
  tc_request :: int
  tc_cleanVC :: int
  tc_checkPool :: int
  tc_fetchCheckpoint :: int
  tc_fetchView :: int

definition configuredTimers :: "timerConfig \<Rightarrow> 'e timerManager \<Rightarrow> 'e timerManager" where
  "configuredTimers c tm = fold (\<lambda>(n, d). newTimer n d)
     [(vcResendTimer, tc_vcResend c), (nullRequestTimer, tc_nullRequest c), (newViewTimer, tc_newView c),
      (syncStateRspTimer, tc_syncState c), (syncStateRestartTimer, tc_syncStateRestart c),
      (batchTimer, tc_batch c), (noTxBatchTimer, tc_noTxBatch c), (requestTimer, tc_request c),
      (cleanViewChangeTimer, tc_cleanVC c), (checkPoolTimer, tc_checkPool c),
      (fetchCheckpointTimer, tc_fetchCheckpoint c), (fetchViewTimer, tc_fetchView c)] tm"

definition initTimers :: "timerConfig \<Rightarrow> u64 \<Rightarrow> 'e timerManager \<Rightarrow> 'e timerManager" where
  "initTimers c checkpointPeriod tm =
     (let tm1 = configuredTimers c tm;
          tm2 = makeSyncStateTimeoutLegal (makeCleanVcTimeoutLegal
                  (makeRequestTimeoutLegal (makeNullRequestTimeoutLegal tm1)));
          k = (if checkpointPeriod \<le> 0 then 10 else checkpointPeriod);
          hwT = sint (2 * k * (word_of_int (getTimeoutValue requestTimer tm2) :: u64))
      in newTimer highWatermarkTimer hwT tm2)"

section \<open>Running timers\<close>

text \<open>The interface the handlers rely on: how many timers of a name run, and that acting on one name
  leaves the others alone.\<close>

locale timer_control =
  fixes created :: "'n \<Rightarrow> 'm \<Rightarrow> bool"
    and active :: "'n \<Rightarrow> 'm \<Rightarrow> nat"
    and start :: "'n \<Rightarrow> 'm \<Rightarrow> 'm option"
    and soft :: "'n \<Rightarrow> 'm \<Rightarrow> 'm option"
    and stop :: "'n \<Rightarrow> 'm \<Rightarrow> 'm"
  assumes start_created: "created n m \<Longrightarrow> \<exists>m'. start n m = Some m' \<and> active n m' = 1"
    and soft_created: "created n m \<Longrightarrow> \<exists>m'. soft n m = Some m' \<and> active n m' = max 1 (active n m)"
    and stop_active: "active n (stop n m) = 0"
    and start_other: "start n m = Some m' \<Longrightarrow> n' \<noteq> n \<Longrightarrow> active n' m' = active n' m"
    and soft_other: "soft n m = Some m' \<Longrightarrow> n' \<noteq> n \<Longrightarrow> active n' m' = active n' m"
    and stop_other: "n' \<noteq> n \<Longrightarrow> active n' (stop n m) = active n' m"
    and stop_created: "created n' (stop n m) = created n' m"
begin

lemma stop_all: "active n (fold stop ns m) = (if n \<in> set ns then 0 else active n m)"
proof (induction ns arbitrary: m)
  case (Cons a ns)
  then show ?case by (cases "n = a") (auto simp: stop_active stop_other)
qed simp

lemma start_after_stop: "created n m \<Longrightarrow> \<exists>m'. start n (stop n m) = Some m' \<and> active n m' = 1"
  using start_created [of n "stop n m"] by (simp add: stop_created)

end

definition activeCount :: "string \<Rightarrow> 'e timerManager \<Rightarrow> nat" where
  "activeCount name tm = (case gget tm name of None \<Rightarrow> 0 | Some t \<Rightarrow> tt_count t)"

interpretation tctl: timer_control containsTimer activeCount
  "\<lambda>n. startTimerWithNewTT now n d ev" "\<lambda>n tm. map_option snd (softStartTimerWithNewTT now n d ev tm)"
  stopTimer
  for now d ev
proof unfold_locales
  fix n :: string and m :: "'a timerManager"
  assume c: "containsTimer n m"
  then obtain t where t: "gget m n = Some t" by (auto simp: containsTimer_def ghas_def)
  show "\<exists>m'. startTimerWithNewTT now n d ev m = Some m' \<and> activeCount n m' = 1"
    using t by (auto simp: startTimerWithNewTT_def createTimer_def containsTimer_def ghas_def stopTimer_def
        gget_gmodify activeCount_def tt_count_def gsize_def gput_def gempty_def)
  show "\<exists>m'. map_option snd (softStartTimerWithNewTT now n d ev m) = Some m' \<and>
      activeCount n m' = max 1 (activeCount n m)"
    using t by (cases "tt_active t") (auto simp: softStartTimerWithNewTT_def createTimer_def containsTimer_def
        ghas_def gget_gmodify activeCount_def tt_count_def gsize_def gput_def)
qed (auto simp: startTimerWithNewTT_def softStartTimerWithNewTT_def createTimer_def containsTimer_def ghas_def
    stopTimer_def gget_gmodify activeCount_def tt_count_def gsize_def gempty_def
    split: option.splits if_splits)

section \<open>Correctness\<close>

lemma gget_newTimer:
  "gget (newTimer name d tm) n =
     (if name = n then Some \<lparr>tt_name = name,
        tt_timeout = (if d = 0 then (case map_of defaultTimeouts name of Some x \<Rightarrow> x | None \<Rightarrow> 0) else d),
        tt_active = gempty\<rparr>
      else gget tm n)"
  by (simp add: newTimer_def Let_def)

lemma getTimeoutValue_set:
  "getTimeoutValue n (setTimeoutValue m d tm) = (if n = m \<and> ghas tm m then d else getTimeoutValue n tm)"
  by (auto simp: getTimeoutValue_def setTimeoutValue_def gget_gmodify ghas_def split: option.splits)

lemma ghas_setTimeoutValue [simp]: "ghas (setTimeoutValue m d tm) n = ghas tm n"
  by (auto simp: setTimeoutValue_def ghas_def gget_gmodify)

definition effective :: "string \<Rightarrow> int \<Rightarrow> int" where
  \<comment> \<open>the configured timeout, or the default for a zero\<close>
  "effective name d = (if d = 0 then the (map_of defaultTimeouts name) else d)"

lemma configuredTimers_values:
  "getTimeoutValue vcResendTimer (configuredTimers c tm) = effective vcResendTimer (tc_vcResend c)"
  "getTimeoutValue nullRequestTimer (configuredTimers c tm) = effective nullRequestTimer (tc_nullRequest c)"
  "getTimeoutValue newViewTimer (configuredTimers c tm) = effective newViewTimer (tc_newView c)"
  "getTimeoutValue syncStateRspTimer (configuredTimers c tm) = effective syncStateRspTimer (tc_syncState c)"
  "getTimeoutValue syncStateRestartTimer (configuredTimers c tm) =
     effective syncStateRestartTimer (tc_syncStateRestart c)"
  "getTimeoutValue batchTimer (configuredTimers c tm) = effective batchTimer (tc_batch c)"
  "getTimeoutValue requestTimer (configuredTimers c tm) = effective requestTimer (tc_request c)"
  "getTimeoutValue cleanViewChangeTimer (configuredTimers c tm) = effective cleanViewChangeTimer (tc_cleanVC c)"
  by (simp_all add: configuredTimers_def getTimeoutValue_def gget_newTimer effective_def defaultTimeouts_def)

lemma configuredTimers_has:
  "ghas (configuredTimers c tm) nullRequestTimer" "ghas (configuredTimers c tm) requestTimer"
  "ghas (configuredTimers c tm) cleanViewChangeTimer" "ghas (configuredTimers c tm) syncStateRestartTimer"
  by (simp_all add: configuredTimers_def ghas_def gget_newTimer)

lemmas legal_defs = makeNullRequestTimeoutLegal_def makeRequestTimeoutLegal_def makeCleanVcTimeoutLegal_def
  makeSyncStateTimeoutLegal_def

lemma legal_values:
  fixes c tm
  defines "tm2 \<equiv> makeSyncStateTimeoutLegal (makeCleanVcTimeoutLegal (makeRequestTimeoutLegal
     (makeNullRequestTimeoutLegal (configuredTimers c tm))))"
    and "req \<equiv> effective requestTimer (tc_request c)" and "bat \<equiv> effective batchTimer (tc_batch c)"
    and "nul \<equiv> effective nullRequestTimer (tc_nullRequest c)"
  shows "getTimeoutValue requestTimer tm2 = (if req \<le> bat then 3 * bat sdiv 2 else req)"
    and "getTimeoutValue batchTimer tm2 = bat"
    and "getTimeoutValue nullRequestTimer tm2 = (if nul \<le> req \<and> nul \<noteq> 0 then 3 * req sdiv 2 else nul)"
    and "getTimeoutValue cleanViewChangeTimer tm2 =
           max (effective cleanViewChangeTimer (tc_cleanVC c)) (6 * effective newViewTimer (tc_newView c))"
    and "getTimeoutValue newViewTimer tm2 = effective newViewTimer (tc_newView c)"
    and "getTimeoutValue syncStateRestartTimer tm2 =
           max (effective syncStateRestartTimer (tc_syncStateRestart c))
               (10 * effective syncStateRspTimer (tc_syncState c))"
    and "getTimeoutValue syncStateRspTimer tm2 = effective syncStateRspTimer (tc_syncState c)"
  unfolding tm2_def legal_defs Let_def req_def bat_def nul_def
  by (simp_all add: getTimeoutValue_set configuredTimers_values configuredTimers_has max_def)

lemma getTimeoutValue_newTimer_other:
  "name \<noteq> n \<Longrightarrow> getTimeoutValue n (newTimer name d tm) = getTimeoutValue n tm"
  by (simp add: getTimeoutValue_def gget_newTimer)

lemma initTimers_values:
  assumes "n \<noteq> highWatermarkTimer"
  shows "getTimeoutValue n (initTimers c k tm) =
    getTimeoutValue n (makeSyncStateTimeoutLegal (makeCleanVcTimeoutLegal (makeRequestTimeoutLegal
     (makeNullRequestTimeoutLegal (configuredTimers c tm)))))"
  using assms by (simp add: initTimers_def Let_def getTimeoutValue_newTimer_other)

text \<open>After \<open>initTimers\<close> a configuration without negative durations satisfies the rules the code
  enforces: the request timeout exceeds a batch timeout of at least two nanoseconds, the
  clean-view-change timeout is at least six new-view timeouts and the sync-state restart at least ten
  response timeouts.\<close>

lemma initTimers_legal:
  assumes "2 \<le> effective batchTimer (tc_batch c)"
  shows "getTimeoutValue batchTimer (initTimers c k tm) < getTimeoutValue requestTimer (initTimers c k tm) \<and>
     6 * getTimeoutValue newViewTimer (initTimers c k tm) \<le> getTimeoutValue cleanViewChangeTimer (initTimers c k tm) \<and>
     10 * getTimeoutValue syncStateRspTimer (initTimers c k tm) \<le>
       getTimeoutValue syncStateRestartTimer (initTimers c k tm)"
proof -
  have ne: "batchTimer \<noteq> highWatermarkTimer" "requestTimer \<noteq> highWatermarkTimer"
    "newViewTimer \<noteq> highWatermarkTimer" "cleanViewChangeTimer \<noteq> highWatermarkTimer"
    "syncStateRspTimer \<noteq> highWatermarkTimer" "syncStateRestartTimer \<noteq> highWatermarkTimer"
    by simp_all
  have half: "b < 3 * b sdiv 2" if "2 \<le> b" for b :: int
    using that by (simp add: signed_divide_int_def sgn_if)
  show ?thesis
    unfolding initTimers_values [OF ne(1)] initTimers_values [OF ne(2)] initTimers_values [OF ne(3)]
      initTimers_values [OF ne(4)] initTimers_values [OF ne(5)] initTimers_values [OF ne(6)] legal_values
    using assms half by auto
qed

text \<open>The null-request timeout is made legal before the request timeout is raised above the batch
  timeout, so it can end up at most the request timeout although the code requires it to be larger.\<close>

lemma initTimers_null_not_above_request:
  assumes "0 < tc_request c" "tc_request c < tc_nullRequest c" "tc_request c \<le> tc_batch c"
    and "tc_nullRequest c \<le> 3 * tc_batch c sdiv 2"
  shows "getTimeoutValue nullRequestTimer (initTimers c k tm) \<le> getTimeoutValue requestTimer (initTimers c k tm)"
proof -
  have ne: "nullRequestTimer \<noteq> highWatermarkTimer" "requestTimer \<noteq> highWatermarkTimer"
    by simp_all
  show ?thesis
    unfolding initTimers_values [OF ne(1)] initTimers_values [OF ne(2)] legal_values
    using assms by (auto simp: effective_def)
qed

definition sampleTimers :: timerConfig where
  "sampleTimers = \<lparr>tc_vcResend = 0, tc_nullRequest = 9 * second, tc_newView = 0, tc_syncState = 0,
     tc_syncStateRestart = 0, tc_batch = 10 * second, tc_noTxBatch = 0, tc_request = 6 * second,
     tc_cleanVC = 0, tc_checkPool = 0, tc_fetchCheckpoint = 0, tc_fetchView = 0\<rparr>"

text \<open>Stopping the manager leaves no timer running, whatever was started before; a started timer
  delivers its event under its key and no longer does so once its name is stopped.\<close>

lemma timers_start_stop:
  assumes "containsTimer n tm"
  shows "activeCount m (stopAllTimers tm) = 0 \<and>
     (\<exists>tm'. startTimerWithNewTT now n d ev tm = Some tm' \<and> activeCount n tm' = 1 \<and>
        expireTimer n now tm' = Some ev \<and> (\<forall>k. expireTimer n k (stopTimer n tm') = None))"
proof
  have "activeCount m tm = 0" if "m \<notin> set (map fst tm)"
    using that by (auto simp: activeCount_def gget_def split: option.splits dest: map_of_SomeD)
      (metis fst_conv imageI map_of_SomeD)
  then show "activeCount m (stopAllTimers tm) = 0"
    unfolding stopAllTimers_def tctl.stop_all by auto
  obtain tm' where tm': "startTimerWithNewTT now n d ev tm = Some tm'" "activeCount n tm' = 1"
    using tctl.start_created [OF assms] by blast
  moreover have "expireTimer n now tm' = Some ev"
    using tm' by (auto simp: startTimerWithNewTT_def createTimer_def expireTimer_def gget_gmodify containsTimer_def
        ghas_def split: option.splits if_splits)
  moreover have "expireTimer n k (stopTimer n tm') = None" for k
    by (auto simp: expireTimer_def stopTimer_def gget_gmodify split: option.splits)
  ultimately show "\<exists>tm'. startTimerWithNewTT now n d ev tm = Some tm' \<and> activeCount n tm' = 1 \<and>
      expireTimer n now tm' = Some ev \<and> (\<forall>k. expireTimer n k (stopTimer n tm') = None)"
    by blast
qed

end
