(* ===== verification/Decimal.thy ===== *)
theory Decimal
  imports Prelude
begin

text \<open>
  The string functions the code uses to build and read keys: \<open>%d\<close> of \<open>fmt.Sprintf\<close>
  (\<open>strconv.FormatUint\<close>), \<open>strconv.Atoi\<close> and \<open>strconv.ParseUint\<close> with their range checks, and
  \<open>strings.Split\<close> with a one-character separator. Strings are lists of characters.
\<close>

definition digit :: "nat \<Rightarrow> char" where
  "digit n = char_of (48 + n)"

function dec :: "nat \<Rightarrow> string" where
  "dec n = (if n < 10 then [digit n] else dec (n div 10) @ [digit (n mod 10)])"
  by pat_completeness auto
termination by (relation "measure id") auto

declare dec.simps [simp del]

definition isDigit :: "char \<Rightarrow> bool" where
  "isDigit c = (48 \<le> (of_char c :: nat) \<and> (of_char c :: nat) \<le> 57)"

definition digitVal :: "char \<Rightarrow> nat" where
  "digitVal c = of_char c - 48"

definition undec :: "string \<Rightarrow> nat option" where
  "undec s = (if s \<noteq> [] \<and> list_all isDigit s then Some (foldl (\<lambda>a c. 10 * a + digitVal c) 0 s) else None)"

definition showU64 :: "u64 \<Rightarrow> string" where
  \<comment> \<open>\<open>%d\<close> of a \<open>uint64\<close>\<close>
  "showU64 w = dec (unat w)"

definition parseUint64 :: "string \<Rightarrow> u64 option" where
  \<comment> \<open>\<open>strconv.ParseUint(s, 10, 64)\<close>\<close>
  "parseUint64 s = (case undec s of None \<Rightarrow> None | Some n \<Rightarrow> if n < 2 ^ 64 then Some (of_nat n) else None)"

definition atoi :: "string \<Rightarrow> int option" where
  \<comment> \<open>\<open>strconv.Atoi\<close> on a 64-bit platform: an optional sign, then digits within the range of \<open>int64\<close>\<close>
  "atoi s =
     (case s of
        [] \<Rightarrow> None
      | c # cs \<Rightarrow>
          if c = CHR ''-'' then
            (case undec cs of None \<Rightarrow> None | Some n \<Rightarrow> if n \<le> 2 ^ 63 then Some (- int n) else None)
          else
            (case undec (if c = CHR ''+'' then cs else s) of
               None \<Rightarrow> None | Some n \<Rightarrow> if n < 2 ^ 63 then Some (int n) else None))"

fun splitOn :: "char \<Rightarrow> string \<Rightarrow> string list" where
  "splitOn sep [] = [[]]"
| "splitOn sep (c # cs) =
     (if c = sep then [] # splitOn sep cs
      else (case splitOn sep cs of [] \<Rightarrow> [[c]] | w # ws \<Rightarrow> (c # w) # ws))"

section \<open>Round trips\<close>

lemma digit_props:
  assumes "n < 10"
  shows "isDigit (digit n)" "digitVal (digit n) = n"
  using assms by (auto simp: digit_def isDigit_def digitVal_def)

lemma dec_digits: "dec n \<noteq> [] \<and> list_all isDigit (dec n)"
proof (induction n rule: dec.induct)
  case (1 n)
  then show ?case by (subst (1 2) dec.simps) (auto simp: digit_props)
qed

lemma dec_value: "foldl (\<lambda>a c. 10 * a + digitVal c) 0 (dec n) = n"
proof (induction n rule: dec.induct)
  case (1 n)
  then show ?case by (subst dec.simps) (auto simp: digit_props)
qed

lemma undec_dec [simp]: "undec (dec n) = Some n"
  using dec_digits [of n] by (simp add: undec_def dec_value)

lemma dec_inj: "dec a = dec b \<longleftrightarrow> a = b"
  by (metis option.inject undec_dec)

lemma showU64_inj [simp]: "showU64 a = showU64 b \<longleftrightarrow> a = b"
  by (auto simp: showU64_def dec_inj intro: unsigned_word_eqI [where ?'a = nat])

lemma unat_lt_2p64: "unat (w :: u64) < 2 ^ 64"
  using unsigned_less [of w, where ?'a = nat] by simp

lemma parseUint64_show [simp]: "parseUint64 (showU64 w) = Some w"
  using unat_lt_2p64 [of w] by (simp add: parseUint64_def showU64_def)

lemma isDigit_not_sign: "isDigit c \<Longrightarrow> c \<noteq> CHR ''-'' \<and> c \<noteq> CHR ''+'' \<and> c \<noteq> CHR ''.'' \<and> c \<noteq> CHR ''/''"
  by (auto simp: isDigit_def)

lemma dec_no_sep: "c \<in> set (dec n) \<Longrightarrow> isDigit c"
  using dec_digits [of n] by (simp add: list_all_iff)

lemma atoi_show: "atoi (showU64 w) = (if unat w < 2 ^ 63 then Some (int (unat w)) else None)"
proof -
  obtain c cs where d: "dec (unat w) = c # cs" using dec_digits by (meson list.exhaust)
  then have "isDigit c" using dec_no_sep [of c "unat w"] by simp
  then have "c \<noteq> CHR ''-''" "c \<noteq> CHR ''+''" using isDigit_not_sign by blast+
  then show ?thesis using d undec_dec [of "unat w"] by (simp add: atoi_def showU64_def)
qed

lemma splitOn_nonempty [simp]: "splitOn sep s \<noteq> []"
  by (induction s) (auto split: list.splits)

lemma splitOn_free: "sep \<notin> set a \<Longrightarrow> splitOn sep a = [a]"
  by (induction a) auto

lemma splitOn_append: "sep \<notin> set a \<Longrightarrow> splitOn sep (a @ sep # b) = a # splitOn sep b"
  by (induction a) (auto split: list.splits)

lemma splitOn_concat_inj:
  assumes "sep \<notin> set a" "sep \<notin> set a'" "a @ sep # b = a' @ sep # b'"
  shows "a = a' \<and> b = b'"
  using assms
proof (induction a arbitrary: a')
  case Nil
  then show ?case by (cases a') auto
next
  case (Cons x a)
  then show ?case by (cases a') auto
qed

lemma showU64_no_sep: "CHR ''.'' \<notin> set (showU64 w)" "CHR ''/'' \<notin> set (showU64 w)"
  using dec_no_sep isDigit_not_sign by (auto simp: showU64_def)

end
