(* ===== verification/Messages.thy ===== *)
theory Messages
  imports Decimal
begin

text \<open>
  The consensus messages (\<open>common/consensus/rbft.pb.go\<close>, \<open>pb_utils.go\<close>, \<open>types/types.go\<close>,
  \<open>components.go\<close>). A pointer field the code dereferences without asking whether it was set is an
  \<open>option\<close>; the getters of \<open>pb_utils.go\<close> follow the protobuf convention that a getter of a nil message
  gives the zero value. Repeated fields are lists (of non-nil entries), protobuf maps are Go maps.
  Checkpoints, view changes and their bases contain each other, so they are one family of datatypes.
  A transaction is its wire encoding.
\<close>

type_synonym tx = bytes
type_synonym signature = bytes

section \<open>Service data\<close>

record metaState =
  ms_height :: u64
  ms_digest :: string
  ms_batchDigest :: string

record serviceState =
  ss_meta :: metaState
  ss_epoch :: u64

record serviceSyncState =
  sy_state :: serviceState
  sy_epochChanged :: bool

record checkpointState =
  cs_meta :: metaState
  cs_isConfig :: bool

section \<open>Checkpoints and view changes\<close>

record vcPq =
  pq_n :: u64
  pq_d :: string
  pq_v :: u64

record nodeDynamicInfo =
  nd_id :: u64
  nd_power :: int
  nd_reduced :: bool
  nd_reduceView :: u64

record executeState =
  es_height :: u64
  es_digest :: string
  es_batchDigest :: string

datatype checkpoint =
  Checkpoint (ck_epoch: u64) (ck_state: "executeState option") (ck_needUpdateEpoch: bool)
    (ck_viewChange: "viewChange option")
and signedCheckpoint =
  SignedCheckpoint (sc_checkpoint: "checkpoint option") (sc_author: u64) (sc_signature: signature)
and vcBasis =
  VcBasis (vb_replicaId: u64) (vb_view: u64) (vb_h: u64) (vb_pset: "vcPq list") (vb_qset: "vcPq list")
    (vb_cset: "signedCheckpoint list") (vb_ifNotRecover: "nodeDynamicInfo list")
    (vb_ifRecover: "nodeDynamicInfo list")
and viewChange =
  ViewChange (vc_basis: "vcBasis option") (vc_signature: signature) (vc_timestamp: int) (vc_recovery: bool)

definition zeroExecuteState :: executeState where
  "zeroExecuteState = \<lparr>es_height = 0, es_digest = [], es_batchDigest = []\<rparr>"

definition ck_Height :: "checkpoint \<Rightarrow> u64" where
  "ck_Height c = es_height (case ck_state c of None \<Rightarrow> zeroExecuteState | Some e \<Rightarrow> e)"

definition ck_Digest :: "checkpoint \<Rightarrow> string" where
  "ck_Digest c = es_digest (case ck_state c of None \<Rightarrow> zeroExecuteState | Some e \<Rightarrow> e)"

definition ck_BatchDigest :: "checkpoint \<Rightarrow> string" where
  "ck_BatchDigest c = es_batchDigest (case ck_state c of None \<Rightarrow> zeroExecuteState | Some e \<Rightarrow> e)"

definition ck_NextEpoch :: "checkpoint \<Rightarrow> u64" where
  "ck_NextEpoch c = (if ck_needUpdateEpoch c then ck_epoch c + 1 else ck_epoch c)"

definition executeStateEquals :: "executeState option \<Rightarrow> executeState option \<Rightarrow> bool" where
  "executeStateEquals a b =
     (let x = (case a of None \<Rightarrow> zeroExecuteState | Some e \<Rightarrow> e);
          y = (case b of None \<Rightarrow> zeroExecuteState | Some e \<Rightarrow> e)
      in es_height x = es_height y \<and> es_digest x = es_digest y)"

definition ck_Equals :: "checkpoint \<Rightarrow> checkpoint \<Rightarrow> bool" where
  "ck_Equals m n = (ck_epoch m = ck_epoch n \<and> executeStateEquals (ck_state m) (ck_state n) \<and>
     ck_needUpdateEpoch m = ck_needUpdateEpoch n)"

definition ck_hashed :: "checkpoint \<Rightarrow> u64 \<times> executeState option \<times> bool" where
  \<comment> \<open>the fields that \<open>Checkpoint.Hash\<close> marshals: the view change is left out\<close>
  "ck_hashed c = (ck_epoch c, ck_state c, ck_needUpdateEpoch c)"

definition sc_Epoch :: "signedCheckpoint \<Rightarrow> u64" where
  "sc_Epoch s = (case sc_checkpoint s of None \<Rightarrow> 0 | Some c \<Rightarrow> ck_epoch c)"

definition sc_Height :: "signedCheckpoint \<Rightarrow> u64" where
  "sc_Height s = (case sc_checkpoint s of None \<Rightarrow> 0 | Some c \<Rightarrow> ck_Height c)"

definition sc_Digest :: "signedCheckpoint \<Rightarrow> string" where
  "sc_Digest s = (case sc_checkpoint s of None \<Rightarrow> [] | Some c \<Rightarrow> ck_Digest c)"

record validatorInfoPB =
  vp_id :: u64
  vp_p2p :: string

record quorumCheckpoint =
  qc_checkpoint :: "checkpoint option"
  qc_signatures :: "(u64, signature) gomap"
  qc_validatorSet :: "(u64, validatorInfoPB option) gomap"

record epochChange =
  ec_checkpoint :: "quorumCheckpoint option"
  ec_validators :: "(u64 \<times> string) list"
  ec_lowWatermark :: u64

record epochChangeProof =
  ep_changes :: "epochChange list"
  ep_more :: u64
  ep_author :: u64
  ep_genesis :: string

definition qc_Epoch :: "quorumCheckpoint option \<Rightarrow> u64" where
  "qc_Epoch q = (case q of None \<Rightarrow> 0 | Some c \<Rightarrow> (case qc_checkpoint c of None \<Rightarrow> 0 | Some k \<Rightarrow> ck_epoch k))"

definition qc_NextEpoch :: "quorumCheckpoint option \<Rightarrow> u64 option" where
  \<comment> \<open>\<open>m.GetCheckpoint().NextEpoch()\<close> reads \<open>NeedUpdateEpoch\<close> of a nil checkpoint\<close>
  "qc_NextEpoch q = (case q of None \<Rightarrow> None | Some c \<Rightarrow> map_option ck_NextEpoch (qc_checkpoint c))"

definition ep_IsEmpty :: "epochChangeProof \<Rightarrow> bool" where
  "ep_IsEmpty p = (ep_changes p = [])"

definition ep_StartEpoch :: "epochChangeProof \<Rightarrow> u64" where
  "ep_StartEpoch p = qc_Epoch (case ep_changes p of [] \<Rightarrow> None | e # _ \<Rightarrow> ec_checkpoint e)"

definition ep_NextEpoch :: "epochChangeProof \<Rightarrow> u64 option" where
  \<comment> \<open>\<open>m.Last()\<close> is nil for an empty proof, and its \<open>Checkpoint\<close> field is then read\<close>
  "ep_NextEpoch p = (if ep_IsEmpty p then None else qc_NextEpoch (ec_checkpoint (last (ep_changes p))))"

section \<open>Normal case messages\<close>

record hashBatch =
  hb_hashes :: "string list"
  hb_deDuplicate :: "string list"
  hb_timestamp :: int
  hb_proposer :: u64

record prePrepare =
  pp_replicaId :: u64
  pp_view :: u64
  pp_n :: u64
  pp_digest :: string
  pp_hashBatch :: "hashBatch option"

record prepare =
  pr_replicaId :: u64
  pr_view :: u64
  pr_n :: u64
  pr_digest :: string

record commit =
  cm_replicaId :: u64
  cm_view :: u64
  cm_n :: u64
  cm_digest :: string

definition msgKey :: "u64 \<Rightarrow> u64 \<Rightarrow> u64 \<Rightarrow> string \<Rightarrow> string" where
  \<comment> \<open>\<open>replica=%d/view=%d/seq=%d/digest=%s\<close>\<close>
  "msgKey r v n d = ''replica='' @ showU64 r @ ''/view='' @ showU64 v @ ''/seq='' @ showU64 n @ ''/digest='' @ d"

definition pr_ID :: "prepare \<Rightarrow> string" where
  "pr_ID p = msgKey (pr_replicaId p) (pr_view p) (pr_n p) (pr_digest p)"

definition cm_ID :: "commit \<Rightarrow> string" where
  "cm_ID c = msgKey (cm_replicaId c) (cm_view c) (cm_n c) (cm_digest c)"

definition pp_ID :: "prePrepare \<Rightarrow> string" where
  "pp_ID p = msgKey (pp_replicaId p) (pp_view p) (pp_n p) (pp_digest p)"

record requestBatch =
  rq_hashes :: "string list"
  rq_txs :: "tx list"
  rq_timestamp :: int
  rq_seqNo :: u64
  rq_local :: "bool list"
  rq_hash :: string
  rq_proposer :: u64

record newView =
  nv_replicaId :: u64
  nv_view :: u64
  nv_xset :: "vcPq list"
  nv_viewChangeSet :: "viewChange list option"
  nv_quorumCheckpoint :: "quorumCheckpoint option"
  nv_signature :: signature
  nv_fromId :: u64
  nv_autoTermUpdate :: bool
  nv_info :: "nodeDynamicInfo list"

definition initialNewView :: newView where
  "initialNewView = \<lparr>nv_replicaId = 0, nv_view = 0, nv_xset = [], nv_viewChangeSet = None,
     nv_quorumCheckpoint = None, nv_signature = [], nv_fromId = 0, nv_autoTermUpdate = False, nv_info = []\<rparr>"

record recoveryResponse =
  rr_newView :: "newView option"
  rr_initialCheckpoint :: "signedCheckpoint option"
  rr_genesis :: string

record fetchMissingRequest =
  fm_replicaId :: u64
  fm_view :: u64
  fm_n :: u64
  fm_digest :: string
  fm_hashes :: "(u64, string) gomap"

record fetchMissingResponse =
  fr_replicaId :: u64
  fr_view :: u64
  fr_n :: u64
  fr_digest :: string
  fr_hashes :: "(u64, string) gomap"
  fr_requests :: "(u64, tx) gomap"
  fr_success :: bool

record fetchPQCResponse =
  fp_replicaId :: u64
  fp_prepre :: "prePrepare list"
  fp_pre :: "prepare list"
  fp_cmt :: "commit list"

section \<open>The consensus message\<close>

datatype payload =
    NullRequest u64
  | MPrePrepare prePrepare
  | MPrepare prepare
  | MCommit commit
  | ReBroadcastRequestSet u64 "tx list"
  | MSignedCheckpoint signedCheckpoint
  | FetchCheckpoint u64 u64
  | MViewChange viewChange
  | QuorumViewChange u64 "viewChange list"
  | MNewView newView
  | FetchView u64 u64
  | MRecoveryResponse recoveryResponse
  | FetchBatchRequest u64 string
  | FetchBatchResponse u64 "requestBatch option" string
  | FetchPQCRequest u64 u64
  | MFetchPQCResponse fetchPQCResponse
  | MFetchMissingRequest fetchMissingRequest
  | MFetchMissingResponse fetchMissingResponse
  | SyncState string
  | SyncStateResponse u64 u64 "signedCheckpoint option"
  | EpochChangeRequest u64 u64 u64 string
  | MEpochChangeProof epochChangeProof

record consensusMessage =
  m_from :: u64
  m_epoch :: u64
  m_view :: u64
  m_payload :: payload

section \<open>Identifiers are faithful\<close>

lemma msgKey_inj:
  assumes "msgKey r v n d = msgKey r' v' n' d'"
  shows "r = r' \<and> v = v' \<and> n = n' \<and> d = d'"
proof -
  have "showU64 r @ CHR ''/'' # (''view='' @ showU64 v @ ''/seq='' @ showU64 n @ ''/digest='' @ d) =
      showU64 r' @ CHR ''/'' # (''view='' @ showU64 v' @ ''/seq='' @ showU64 n' @ ''/digest='' @ d')"
    using assms by (simp add: msgKey_def)
  from splitOn_concat_inj [OF showU64_no_sep(2) showU64_no_sep(2) this]
  have "r = r'" and "showU64 v @ CHR ''/'' # (''seq='' @ showU64 n @ ''/digest='' @ d) =
      showU64 v' @ CHR ''/'' # (''seq='' @ showU64 n' @ ''/digest='' @ d')" by auto
  from splitOn_concat_inj [OF showU64_no_sep(2) showU64_no_sep(2) this(2)] this(1)
  have "r = r'" "v = v'" and "showU64 n @ CHR ''/'' # (''digest='' @ d) = showU64 n' @ CHR ''/'' # (''digest='' @ d')"
    by auto
  from splitOn_concat_inj [OF showU64_no_sep(2) showU64_no_sep(2) this(3)] this(1,2)
  show ?thesis by auto
qed

end
