(* ===== verification/Replica.thy ===== *)
theory Replica
  imports Status ChainConfig Timer Messages
begin

text \<open>
  The state of one replica (\<open>rbftImpl\<close> and the managers it owns), the events it processes, the
  effects it has on the outside, and the environment it calls. One record models one Go struct; the
  nesting is the Go nesting. Fields that only feed logs, metrics and traces are left out, and so is
  the test mode (\<open>isTest\<close> is false in production).

  Handlers are functions from a state to an optional result: \<open>None\<close> is a Go panic (a nil
  dereference, an index out of range, a division by zero). What a handler sends is appended to
  \<open>rb_out\<close>. The network, the signatures, the hashes over marshalled messages, the ledger, the clock
  and the transaction pool are not part of the repository: they are the fields of an \<open>env\<close>, and
  \<open>'p\<close> is the type of the state of the pool. The clock is read once per handler.
\<close>

section \<open>Events and effects\<close>

type_synonym msgID = "u64 \<times> u64 \<times> string"
  \<comment> \<open>view, sequence number, digest\<close>

datatype localEvent =
    CoreBatchTimer | CoreNoTxBatchTimer | CoreNullRequestTimer | CoreCheckPoolTimer | CoreRebroadcastTxs
  | CoreStateUpdated serviceSyncState
  | CoreCheckpointBlockExecuted serviceState
  | CoreFindNextPrepareBatches "msgID list"
  | CoreHighWatermark u64
  | ViewChangeTimer "u64 option"
  | ViewChangeResendTimer | ViewChangeQuorum | ViewChangeDone | FetchViewExpired
  | RecoveryInit u64
  | RecoverySyncStateRspTimer | RecoverySyncStateRestartTimer
  | FetchCheckpointExpired
  | EpochSync epochChangeProof

datatype event =
    LocalEvent localEvent
  | NotifyGenBatch
  | NotifyFindNextBatch "string list"
  | ReqGetWatermark
  | ConsensusEvent consensusMessage

datatype filterEvent =
    FinishRecovery | FinishViewChange | FinishConfigChange | FinishStateUpdate
  | StableCheckpoint "signedCheckpoint list"

datatype effect =
    Broadcast consensusMessage
  | Unicast consensusMessage string
  | Execute "tx list" "bool list" u64 int u64
  | StateUpdate u64 u64 string "signedCheckpoint list" "epochChange list"
  | SendFilterEvent filterEvent
  | StopNamespace
  | PostMsg event
  | WatermarkReply u64

section \<open>The managers\<close>

record msgCert =
  mc_prePrepare :: "prePrepare option"
  mc_sentPrepare :: bool
  mc_prepare :: "(string, prepare) gomap"
  mc_sentCommit :: bool
  mc_commit :: "(string, commit) gomap"
  mc_sentExecute :: bool
  mc_isConfig :: bool

definition newCert :: msgCert where
  "newCert = \<lparr>mc_prePrepare = None, mc_sentPrepare = False, mc_prepare = gempty, mc_sentCommit = False,
     mc_commit = gempty, mc_sentExecute = False, mc_isConfig = False\<rparr>"

record wrfHighViewCacheMsg =
  wc_prePrepares :: "prePrepare list"
  wc_prepares :: "prepare list"
  wc_commits :: "commit list"

record stateUpdateTarget =
  tg_meta :: metaState
  tg_checkpointSet :: "signedCheckpoint list"
  tg_epochChanges :: "epochChange list"

record storeManager =
  sm_committedCertCache :: "(msgID, msgCert) gomap"
  sm_certStore :: "(msgID, msgCert) gomap"
  sm_committedCert :: "(msgID, string) gomap"
  sm_outstanding :: "(string, requestBatch) gomap"
  sm_batchStore :: "(string, requestBatch) gomap"
  sm_missingReqBatches :: "(string, bool) gomap"
  sm_missingInFetching :: "(string, msgID) gomap"
  sm_seqMap :: "(u64, string) gomap"
  sm_highStateTarget :: "stateUpdateTarget option"
  sm_localCheckpoints :: "(u64, signedCheckpoint) gomap"
  sm_higherCheckpoints :: "(u64, signedCheckpoint) gomap"
  sm_checkpointStore :: "(u64 \<times> u64, signedCheckpoint) gomap"
  sm_wrfHighViewMsgCache :: "(u64, wrfHighViewCacheMsg) gomap"
  sm_beforeCheckpointEventCache :: "event list"

definition newStoreMgr :: storeManager where
  "newStoreMgr = \<lparr>sm_committedCertCache = gempty, sm_certStore = gempty, sm_committedCert = gempty,
     sm_outstanding = gempty, sm_batchStore = gempty, sm_missingReqBatches = gempty,
     sm_missingInFetching = gempty, sm_seqMap = gempty, sm_highStateTarget = None,
     sm_localCheckpoints = gempty, sm_higherCheckpoints = gempty, sm_checkpointStore = gempty,
     sm_wrfHighViewMsgCache = gempty, sm_beforeCheckpointEventCache = []\<rparr>"

record batchManager =
  bm_seqNo :: u64
  bm_cacheBatch :: "requestBatch list"
  bm_batchTimerActive :: bool
  bm_noTxBatchTimerActive :: bool
  bm_lastBatchTime :: int

definition newBatchManager :: batchManager where
  "newBatchManager = \<lparr>bm_seqNo = 0, bm_cacheBatch = [], bm_batchTimerActive = False,
     bm_noTxBatchTimerActive = False, bm_lastBatchTime = 0\<rparr>"

record syncStateRsp =
  sr_replicaId :: u64
  sr_view :: u64
  sr_checkpoint :: "signedCheckpoint option"

record newViewIdx =
  ni_targetView :: u64
  ni_hash :: string
  ni_initial :: checkpointState

record newViewCert =
  nc_forwardPeers :: "u64 list"
  nc_initialCheckpoints :: "signedCheckpoint list"

record vcManager =
  vm_viewChangePeriod :: u64
  vm_viewChangeSeqNo :: u64
  vm_lastNewViewTimeout :: int
  vm_vcHandled :: bool
  vm_qlist :: "(string \<times> u64, vcPq) gomap"
  vm_plist :: "(u64, vcPq) gomap"
  vm_newViewStore :: "(u64, newView) gomap"
  vm_newViewCache :: "(newViewIdx, newViewCert) gomap"
  vm_viewChangeStore :: "(u64 \<times> u64, viewChange) gomap"
  vm_latestQuorumViewChange :: "(u64 \<times> viewChange list) option"
  vm_latestNewView :: newView
  vm_higherViewRecord :: "(u64, u64) gomap"
  vm_nullRequestCounter :: u64
  vm_lastNullRequestSeqNo :: u64

definition newVcManager :: "timerConfig \<Rightarrow> vcManager" where
  "newVcManager c = \<lparr>vm_viewChangePeriod = 0, vm_viewChangeSeqNo = 0, vm_lastNewViewTimeout = tc_newView c,
     vm_vcHandled = False, vm_qlist = gempty, vm_plist = gempty, vm_newViewStore = gempty,
     vm_newViewCache = gempty, vm_viewChangeStore = gempty, vm_latestQuorumViewChange = None,
     vm_latestNewView = initialNewView, vm_higherViewRecord = gempty, vm_nullRequestCounter = 0,
     vm_lastNullRequestSeqNo = 0\<rparr>"

record epochManager =
  em_epoch :: u64
  em_configBatchToCheck :: "metaState option"
  em_configBatchToExecute :: u64
  em_configBatchInOrder :: u64
  em_epochProofCache :: "(u64, epochChange) gomap"

definition newEpochManager :: epochManager where
  "newEpochManager = \<lparr>em_epoch = 0, em_configBatchToCheck = None, em_configBatchToExecute = 0,
     em_configBatchInOrder = 0, em_epochProofCache = gempty\<rparr>"

datatype stored =
    SPrePrepare prePrepare
  | SPset "prepare list"
  | SCset "commit list"
  | SVcPq vcPq
  | SBatch requestBatch
  | SText string
  | SNewView newView
  | SQuorumCheckpoint quorumCheckpoint
  | SBytes bytes

record config =
  cf_genesisEpochInfo :: epochInfo
  cf_genesisBlockDigest :: string
  cf_lastServiceState :: serviceState
  cf_setSize :: nat
  cf_timers :: timerConfig
  cf_committedBlockCacheNumber :: u64

section \<open>The replica\<close>

record 'p replica =
  rb_cc :: chainConfig
  rb_status :: statusManager
  rb_timer :: "localEvent timerManager"
  rb_lastExec :: u64
  rb_store :: storeManager
  rb_batch :: batchManager
  rb_recovery :: "(u64, syncStateRsp) gomap"
  rb_vc :: vcManager
  rb_epoch :: epochManager
  rb_storage :: "(string, stored) gomap"
  rb_epochStore :: "(string, stored) gomap"
  rb_pool :: 'p
  rb_currentState :: "serviceState option"
  rb_config :: config
  rb_out :: "effect list"

type_synonym 'p act = "'p replica \<Rightarrow> 'p replica option"
type_synonym 'p handler = "'p replica \<Rightarrow> (event option \<times> 'p replica) option"

section \<open>The environment\<close>

datatype poolReply =
    PoolError
  | PoolMissing "(u64, string) gomap"
  | PoolFound "tx list" "bool list"

datatype genBatchEvent = GenBatchSize | GenBatchTimeout | GenBatchNoTxTimeout | GenBatchFirst

record 'p env =
  en_now :: int
  en_sign :: "bytes \<Rightarrow> signature option"
  en_verify :: "u64 \<Rightarrow> signature \<Rightarrow> bytes \<Rightarrow> bool"
  en_hashCheckpoint :: "u64 \<times> executeState option \<times> bool \<Rightarrow> bytes"
  en_hashBasis :: "vcBasis option \<Rightarrow> bytes"
  en_hashNewView :: "u64 \<times> u64 \<times> vcPq list \<times> bool \<times> nodeDynamicInfo list \<Rightarrow> bytes"
  en_hashInfo :: "nodeDynamicInfo list \<Rightarrow> bytes"
  en_md5 :: "bytes \<Rightarrow> bytes"
  en_sha256 :: "bytes \<Rightarrow> bytes"
  en_txHash :: "tx \<Rightarrow> string"
  en_txDecodes :: "tx \<Rightarrow> bool"
  en_getBlockMeta :: "u64 \<Rightarrow> blockMeta option"
  en_getNodeInfo :: "u64 \<Rightarrow> nodeInfo option"
  en_nodeIDByP2P :: "string \<Rightarrow> u64 option"
  en_currentEpochInfo :: "epochInfo option"
  en_epochInfo :: "u64 \<Rightarrow> epochInfo option"
  en_validatorSet :: "(u64, int) gomap option"
  en_readStateSet :: "string \<Rightarrow> (string, stored) gomap \<Rightarrow> (string, stored) gomap option"
  en_poolHasPending :: "'p \<Rightarrow> bool"
  en_poolReady :: "'p \<Rightarrow> bool"
  en_poolGetRequests :: "string \<Rightarrow> int \<Rightarrow> string list \<Rightarrow> string list \<Rightarrow> 'p \<Rightarrow> poolReply \<times> 'p"
  en_poolSendMissing :: "string \<Rightarrow> (u64, string) gomap \<Rightarrow> 'p \<Rightarrow> (u64, tx) gomap option"
  en_poolReceiveMissing :: "string \<Rightarrow> (u64, tx) gomap \<Rightarrow> 'p \<Rightarrow> bool \<times> 'p"
  en_poolRemoveBatches :: "string list \<Rightarrow> 'p \<Rightarrow> 'p"
  en_poolRestore :: "'p \<Rightarrow> 'p"
  en_poolRestoreOne :: "string \<Rightarrow> 'p \<Rightarrow> 'p"
  en_poolReConstruct :: "requestBatch \<Rightarrow> 'p \<Rightarrow> string list option \<times> 'p"
  en_poolGenerate :: "genBatchEvent \<Rightarrow> 'p \<Rightarrow> requestBatch option option \<times> 'p"
  en_poolReplySignal :: "'p \<Rightarrow> 'p"
  en_poolOutOfDate :: "bool \<Rightarrow> 'p \<Rightarrow> tx list \<times> 'p"
  en_poolAddRebroadcast :: "tx list \<Rightarrow> 'p \<Rightarrow> 'p"

section \<open>Small steps shared by the handlers\<close>

definition emit :: "effect \<Rightarrow> 'p replica \<Rightarrow> 'p replica" where
  "emit e s = s\<lparr>rb_out := rb_out s @ [e]\<rparr>"

definition selfID :: "'p replica \<Rightarrow> u64" where
  "selfID s = cc_selfID (rb_cc s)"

definition mkMsg :: "payload \<Rightarrow> 'p replica \<Rightarrow> consensusMessage" where
  \<comment> \<open>the header \<open>peerManager\<close> puts on a message; the nonce is left out\<close>
  "mkMsg p s = \<lparr>m_from = selfID s, m_epoch = ei_epoch (cc_epochInfo (rb_cc s)), m_view = cc_view (rb_cc s),
     m_payload = p\<rparr>"

definition broadcast :: "payload \<Rightarrow> 'p replica \<Rightarrow> 'p replica" where
  "broadcast p s = emit (Broadcast (mkMsg p s)) s"

definition unicastByP2PID :: "payload \<Rightarrow> string \<Rightarrow> 'p replica \<Rightarrow> 'p replica" where
  "unicastByP2PID p to s = emit (Unicast (mkMsg p s) to) s"

definition unicast :: "'p env \<Rightarrow> payload \<Rightarrow> u64 \<Rightarrow> 'p replica \<Rightarrow> 'p replica" where
  "unicast E p to s =
     (case getNodeInfo (en_getNodeInfo E) (rb_cc s) to of
        (None, c) \<Rightarrow> s\<lparr>rb_cc := c\<rparr>
      | (Some i, c) \<Rightarrow> unicastByP2PID p (ni_p2p i) (s\<lparr>rb_cc := c\<rparr>))"

definition rin :: "statusType \<Rightarrow> 'p replica \<Rightarrow> bool" where
  "rin p s = statusIn (rb_status s) p"

definition ratomicIn :: "statusType \<Rightarrow> 'p replica \<Rightarrow> bool" where
  "ratomicIn p s = atomicIn (rb_status s) p"

definition ron :: "statusType \<Rightarrow> 'p replica \<Rightarrow> 'p replica" where
  "ron p = rb_status_update (statusOn [p])"

definition roff :: "statusType \<Rightarrow> 'p replica \<Rightarrow> 'p replica" where
  "roff p = rb_status_update (statusOff [p])"

definition raOn :: "statusType \<Rightarrow> 'p replica \<Rightarrow> 'p replica" where
  "raOn p = rb_status_update (atomicOn [p])"

definition raOff :: "statusType \<Rightarrow> 'p replica \<Rightarrow> 'p replica" where
  "raOff p = rb_status_update (atomicOff [p])"

definition risNormal :: "'p replica \<Rightarrow> bool" where
  "risNormal s = isNormal (rb_status s)"

definition rmaybeSetNormal :: "'p replica \<Rightarrow> 'p replica" where
  "rmaybeSetNormal = rb_status_update maybeSetNormal"

definition rsetNormal :: "'p replica \<Rightarrow> 'p replica" where
  "rsetNormal = rb_status_update setNormal"

definition stopNamespace :: "'p replica \<Rightarrow> 'p replica" where
  "stopNamespace s = emit StopNamespace s"

section \<open>Views, watermarks and the primary\<close>

definition isPrimary :: "u64 \<Rightarrow> 'p replica \<Rightarrow> bool" where
  "isPrimary r s = (cc_primaryID (rb_cc s) = r)"

definition inW :: "u64 \<Rightarrow> 'p replica \<Rightarrow> bool" where
  "inW n s = (n > cc_H (rb_cc s))"

definition inV :: "u64 \<Rightarrow> 'p replica \<Rightarrow> bool" where
  "inV v s = (cc_view (rb_cc s) = v)"

definition inWV :: "u64 \<Rightarrow> u64 \<Rightarrow> 'p replica \<Rightarrow> bool" where
  "inWV v n s = (inV v s \<and> inW n s)"

definition lastOfEpoch :: "epochInfo \<Rightarrow> u64" where
  "lastOfEpoch e = ei_startBlock e + ei_epochPeriod e - 1"

definition sendInW :: "u64 \<Rightarrow> 'p replica \<Rightarrow> bool" where
  "sendInW n s = (let c = rb_cc s in
     n > cc_H c \<and> n \<le> cc_H c + cc_L c \<and> n \<le> lastOfEpoch (cc_epochInfo c))"

definition beyondRange :: "u64 \<Rightarrow> 'p replica \<Rightarrow> bool" where
  "beyondRange n s = (let c = rb_cc s in n > cc_H c + cc_L c \<or> n > lastOfEpoch (cc_epochInfo c))"

definition checkpointPeriod :: "'p replica \<Rightarrow> u64" where
  "checkpointPeriod s = cp_checkpointPeriod (ei_params (cc_epochInfo (rb_cc s)))"

definition inPrimaryTerm :: "'p replica \<Rightarrow> bool" where
  "inPrimaryTerm s =
     (if \<not> isProposerElectionTypeWRF (rb_cc s)
      then bm_seqNo (rb_batch s) < lastOfEpoch (cc_epochInfo (rb_cc s))
      else bm_seqNo (rb_batch s) < cc_H (rb_cc s) + checkpointPeriod s)"

definition isConfigBatch :: "u64 \<Rightarrow> epochInfo \<Rightarrow> bool" where
  "isConfigBatch n e = (n = lastOfEpoch e)"

definition risConfigBatch :: "u64 \<Rightarrow> 'p replica \<Rightarrow> bool" where
  "risConfigBatch n s = isConfigBatch n (cc_epochInfo (rb_cc s))"

definition cleanOutstandingAndCert :: "'p replica \<Rightarrow> 'p replica" where
  "cleanOutstandingAndCert = rb_store_update (\<lambda>m. m\<lparr>sm_committedCert := gempty, sm_outstanding := gempty\<rparr>)"

section \<open>Certificates\<close>

definition rcert :: "msgID \<Rightarrow> 'p replica \<Rightarrow> msgCert option" where
  "rcert idx s = gget (sm_certStore (rb_store s)) idx"

definition getCert :: "msgID \<Rightarrow> 'p replica \<Rightarrow> msgCert \<times> 'p replica" where
  \<comment> \<open>a missing entry is created\<close>
  "getCert idx s =
     (case rcert idx s of
        Some c \<Rightarrow> (c, s)
      | None \<Rightarrow> (newCert, rb_store_update (sm_certStore_update (gput idx newCert)) s))"

definition modCert :: "msgID \<Rightarrow> (msgCert \<Rightarrow> msgCert) \<Rightarrow> 'p replica \<Rightarrow> 'p replica" where
  \<comment> \<open>a write through the pointer returned by \<open>getCert\<close>: lost when the entry has been deleted\<close>
  "modCert idx f = rb_store_update (sm_certStore_update (gmodify idx f))"

definition existedDigest :: "u64 \<Rightarrow> u64 \<Rightarrow> string \<Rightarrow> 'p replica \<Rightarrow> bool" where
  "existedDigest v n d s = (\<exists>(idx, c) \<in> set (sm_certStore (rb_store s)).
     case mc_prePrepare c of
       None \<Rightarrow> False
     | Some p \<Rightarrow> pp_view p = v \<and> pp_n p \<noteq> n \<and> pp_digest p = d \<and> d \<noteq> [])"

definition cleanCommittedCertCache :: "u64 \<Rightarrow> 'p replica \<Rightarrow> 'p replica" where
  "cleanCommittedCertCache minHeight s =
     (let k = cf_committedBlockCacheNumber (rb_config s);
          need = (if k < minHeight then minHeight - k else 0)
      in rb_store_update (sm_committedCertCache_update (gkeep (\<lambda>(v, n, d) _. \<not> n < need))) s)"

definition saveCheckpoint :: "u64 \<Rightarrow> signedCheckpoint \<Rightarrow> 'p replica \<Rightarrow> 'p replica" where
  "saveCheckpoint h c = rb_store_update (sm_localCheckpoints_update (gput h c))"

definition deleteCheckpoint :: "u64 \<Rightarrow> 'p replica \<Rightarrow> 'p replica" where
  "deleteCheckpoint h = rb_store_update (sm_localCheckpoints_update (gdel h))"

definition prePrepared :: "msgID \<Rightarrow> 'p replica \<Rightarrow> bool" where
  "prePrepared idx s =
     (case idx of (v, n, d) \<Rightarrow>
       case rcert idx s of
         None \<Rightarrow> False
       | Some c \<Rightarrow> (case mc_prePrepare c of
           None \<Rightarrow> False
         | Some p \<Rightarrow> pp_view p = v \<and> pp_n p = n \<and> pp_digest p = d))"

definition prepared :: "msgID \<Rightarrow> 'p replica \<Rightarrow> bool" where
  "prepared idx s =
     (prePrepared idx s \<and>
      (case rcert idx s of None \<Rightarrow> False
       | Some c \<Rightarrow> int (gsize (mc_prepare c)) \<ge> int (commonCaseQuorum (rb_cc s)) - 1))"

definition committed :: "msgID \<Rightarrow> 'p replica \<Rightarrow> bool" where
  "committed idx s =
     (prepared idx s \<and>
      (case rcert idx s of None \<Rightarrow> False
       | Some c \<Rightarrow> gsize (mc_commit c) \<ge> commonCaseQuorum (rb_cc s)))"

section \<open>Legality of the three phases\<close>

definition isPrePrepareLegal :: "prePrepare \<Rightarrow> 'p replica \<Rightarrow> bool" where
  "isPrePrepareLegal p s =
     (if ratomicIn InViewChange s then False
      else if ratomicIn InConfChange s \<and> pp_n p \<le> em_configBatchInOrder (rb_epoch s) then False
      else if \<not> inWV (pp_view p) (pp_n p) s then False
      else if \<not> isPrimary (pp_replicaId p) s then False
      else if isPrimary (selfID s) s then False
      else if pp_n p \<le> rb_lastExec s \<and> prePrepared (pp_view p, pp_n p, pp_digest p) s then False
      else True)"

definition isPrepareLegal :: "prepare \<Rightarrow> 'p replica \<Rightarrow> bool" where
  "isPrepareLegal p s =
     (if \<not> inWV (pr_view p) (pr_n p) s then False
      else if isPrimary (pr_replicaId p) s then False
      else True)"

definition isCommitLegal :: "commit \<Rightarrow> 'p replica \<Rightarrow> bool" where
  "isCommitLegal c s = inWV (cm_view c) (cm_n c) s"

definition risValidator :: "'p replica \<Rightarrow> bool" where
  "risValidator s = isValidator (rb_cc s)"

definition cacheHighView :: "u64 \<Rightarrow> (wrfHighViewCacheMsg \<Rightarrow> wrfHighViewCacheMsg) \<Rightarrow> 'p replica \<Rightarrow> 'p replica" where
  \<comment> \<open>\<open>getWRFHighViewMsgCache\<close> followed by the append of its caller\<close>
  "cacheHighView v f = rb_store_update (sm_wrfHighViewMsgCache_update (\<lambda>m.
     gput v (f (case gget m v of Some c \<Rightarrow> c
                | None \<Rightarrow> \<lparr>wc_prePrepares = [], wc_prepares = [], wc_commits = []\<rparr>)) m))"

end
