(* ===== verification/Actions.thy ===== *)
theory Actions
  imports Replica
begin

text \<open>
  The small actions that every handler uses: the timers of the replica (\<open>timer_mgr.go\<close>,
  \<open>batch_mgr.go\<close>, \<open>helper.go\<close>, \<open>viewchange_mgr.go\<close>, \<open>recovery_mgr.go\<close>), entering an abnormal
  status (\<open>status_mgr.go\<close>), and the storage (\<open>persist.go\<close>) with the keys it builds and parses.
  Starting a timer that was never created is a nil dereference, so the starting actions may fail.
\<close>

section \<open>Timers of the replica\<close>

definition stopT :: "string \<Rightarrow> 'p replica \<Rightarrow> 'p replica" where
  "stopT n = rb_timer_update (stopTimer n)"

definition startT :: "'p env \<Rightarrow> string \<Rightarrow> localEvent \<Rightarrow> 'p act" where
  "startT E n ev s = map_option (\<lambda>t. s\<lparr>rb_timer := t\<rparr>) (startTimer (en_now E) n ev (rb_timer s))"

definition startTNew :: "'p env \<Rightarrow> string \<Rightarrow> int \<Rightarrow> localEvent \<Rightarrow> 'p act" where
  "startTNew E n d ev s =
     map_option (\<lambda>t. s\<lparr>rb_timer := t\<rparr>) (startTimerWithNewTT (en_now E) n d ev (rb_timer s))"

definition softStartT :: "'p env \<Rightarrow> string \<Rightarrow> int \<Rightarrow> localEvent \<Rightarrow> 'p replica \<Rightarrow> (bool \<times> 'p replica) option" where
  "softStartT E n d ev s =
     map_option (\<lambda>(b, t). (b, s\<lparr>rb_timer := t\<rparr>)) (softStartTimerWithNewTT (en_now E) n d ev (rb_timer s))"

definition timeoutOf :: "string \<Rightarrow> 'p replica \<Rightarrow> int" where
  "timeoutOf n s = getTimeoutValue n (rb_timer s)"

definition softStartHighWatermarkTimer :: "'p env \<Rightarrow> 'p act" where
  "softStartHighWatermarkTimer E s =
     map_option snd (softStartT E highWatermarkTimer (timeoutOf highWatermarkTimer s)
       (CoreHighWatermark (cc_H (rb_cc s))) s)"

definition stopHighWatermarkTimer :: "'p replica \<Rightarrow> 'p replica" where
  "stopHighWatermarkTimer = stopT highWatermarkTimer"

definition startFetchCheckpointTimer :: "'p env \<Rightarrow> 'p act" where
  "startFetchCheckpointTimer E = startT E fetchCheckpointTimer FetchCheckpointExpired"

definition stopFetchCheckpointTimer :: "'p replica \<Rightarrow> 'p replica" where
  "stopFetchCheckpointTimer = stopT fetchCheckpointTimer"

definition startFetchViewTimer :: "'p env \<Rightarrow> 'p act" where
  "startFetchViewTimer E = startT E fetchViewTimer FetchViewExpired"

definition stopFetchViewTimer :: "'p replica \<Rightarrow> 'p replica" where
  "stopFetchViewTimer = stopT fetchViewTimer"

definition stopNewViewTimer :: "'p replica \<Rightarrow> 'p replica" where
  "stopNewViewTimer = stopT newViewTimer"

definition softStartNewViewTimer :: "'p env \<Rightarrow> int \<Rightarrow> bool \<Rightarrow> 'p act" where
  "softStartNewViewTimer E timeout isNewView s =
     map_option snd (softStartT E newViewTimer timeout
       (ViewChangeTimer (if isNewView then Some (cc_view (rb_cc s)) else None)) s)"

definition startBatchTimer :: "'p env \<Rightarrow> 'p act" where
  "startBatchTimer E s =
     map_option (rb_batch_update (bm_batchTimerActive_update (\<lambda>_. True))) (startT E batchTimer CoreBatchTimer s)"

definition startNoTxBatchTimer :: "'p env \<Rightarrow> 'p act" where
  "startNoTxBatchTimer E s =
     map_option (rb_batch_update (bm_noTxBatchTimerActive_update (\<lambda>_. True)))
       (startT E noTxBatchTimer CoreNoTxBatchTimer s)"

definition stopNoTxBatchTimer :: "'p replica \<Rightarrow> 'p replica" where
  "stopNoTxBatchTimer s =
     rb_batch_update (bm_noTxBatchTimerActive_update (\<lambda>_. False)) (stopT noTxBatchTimer s)"

definition restartNoTxBatchTimer :: "'p env \<Rightarrow> 'p act" where
  \<comment> \<open>the flag it sets is \<open>batchTimerActive\<close>\<close>
  "restartNoTxBatchTimer E s =
     (let s1 = stopT noTxBatchTimer s in
      if \<not> cp_enableTimedGenEmptyBlock (ei_params (cc_epochInfo (rb_cc s1))) \<or> en_poolHasPending E (rb_pool s1)
      then Some s1
      else map_option (rb_batch_update (bm_batchTimerActive_update (\<lambda>_. True)))
             (startT E noTxBatchTimer CoreNoTxBatchTimer s1))"

definition stopBatchTimer :: "'p replica \<Rightarrow> 'p replica" where
  "stopBatchTimer s = rb_batch_update (bm_batchTimerActive_update (\<lambda>_. False)) (stopT batchTimer s)"

definition restartBatchTimer :: "'p env \<Rightarrow> 'p act" where
  "restartBatchTimer E s = startBatchTimer E (stopT batchTimer s)"

definition softRestartBatchTimer :: "'p env \<Rightarrow> 'p act" where
  "softRestartBatchTimer E s =
     map_option (\<lambda>(started, s1). if started then s1
                   else rb_batch_update (bm_batchTimerActive_update (\<lambda>_. True)) s1)
       (softStartT E batchTimer (timeoutOf batchTimer s) CoreBatchTimer s)"

definition isActiveCheckPoolTimer :: "'p replica \<Rightarrow> bool option" where
  "isActiveCheckPoolTimer s = map_option (\<lambda>t. tt_count t > 0) (gget (rb_timer s) checkPoolTimer)"

definition startCheckPoolTimer :: "'p env \<Rightarrow> 'p act" where
  "startCheckPoolTimer E = startT E checkPoolTimer CoreCheckPoolTimer"

definition stopCheckPoolTimer :: "'p replica \<Rightarrow> 'p replica" where
  "stopCheckPoolTimer = stopT checkPoolTimer"

definition restartCheckPoolTimer :: "'p env \<Rightarrow> 'p act" where
  "restartCheckPoolTimer E s = startCheckPoolTimer E (stopT checkPoolTimer s)"

definition nullReqTimerReset :: "'p env \<Rightarrow> 'p act" where
  "nullReqTimerReset E s =
     (let t = timeoutOf nullRequestTimer s;
          t' = (if isPrimary (selfID s) s then t else 3 * t sdiv 2)
      in startTNew E nullRequestTimer t' CoreNullRequestTimer s)"

definition startTimerIfOutstandingRequests :: "'p env \<Rightarrow> 'p act" where
  "startTimerIfOutstandingRequests E s =
     (if rin SkipInProgress s then Some s
      else if gsize (sm_outstanding (rb_store s)) > 0
      then softStartNewViewTimer E (timeoutOf requestTimer s) False s
      else if timeoutOf nullRequestTimer s > 0 then nullReqTimerReset E s
      else Some s)"

section \<open>Abnormal status and the sync of states\<close>

definition exitSyncState :: "'p replica \<Rightarrow> 'p replica" where
  "exitSyncState s =
     stopT syncStateRestartTimer (stopT syncStateRspTimer (roff NeedSyncState (roff InSyncState s)))"

definition setAbNormal :: "'p replica \<Rightarrow> 'p replica" where
  "setAbNormal s =
     (let s1 = exitSyncState s;
          s2 = (if isPrimary (selfID s1) s1 then stopBatchTimer s1 else s1)
      in roff Normal s2)"

definition trySyncState :: "'p env \<Rightarrow> 'p act" where
  "trySyncState E s =
     (if \<not> rin NeedSyncState s
      then if \<not> risNormal s then Some s
           else startT E syncStateRestartTimer RecoverySyncStateRestartTimer (ron NeedSyncState s)
      else Some s)"

end
