(* ===== verification/Persist.thy ===== *)
theory Persist
  imports Actions
begin

text \<open>
  The consensus log (\<open>persist.go\<close>): the keys under which certificates, batches, checkpoints and the
  low watermark are stored, the parsers that read the keys back after a restart, and the restoring
  of the certificates and batches. The application provides the store (\<open>Storage\<close> in \<open>external.go\<close>);
  its content is \<open>rb_storage\<close>, writes succeed, and \<open>ReadStateSet\<close> is the parameter
  \<open>en_readStateSet\<close>. A stored value is the message itself: encoding and decoding are not modelled,
  except that a value of another kind does not decode.
\<close>

section \<open>Iteration with panics\<close>

fun mfold :: "('a \<Rightarrow> 's \<Rightarrow> 's option) \<Rightarrow> 'a list \<Rightarrow> 's \<Rightarrow> 's option" where
  "mfold f [] s = Some s"
| "mfold f (x # xs) s = (case f x s of None \<Rightarrow> None | Some s' \<Rightarrow> mfold f xs s')"

lemma mfold_append: "mfold f (xs @ ys) s = Option.bind (mfold f xs s) (mfold f ys)"
  by (induction xs arbitrary: s) (auto split: option.splits)

lemma mfold_inv:
  assumes "\<And>x s s'. x \<in> set xs \<Longrightarrow> P s \<Longrightarrow> f x s = Some s' \<Longrightarrow> P s'"
    and "P s" "mfold f xs s = Some s'"
  shows "P s'"
  using assms
proof (induction xs arbitrary: s)
  case (Cons x xs)
  then show ?case by (auto split: option.splits)
qed simp

section \<open>Keys\<close>

definition qpcKey :: "string \<Rightarrow> u64 \<Rightarrow> u64 \<Rightarrow> string \<Rightarrow> string" where
  \<comment> \<open>\<open>fmt.Sprintf("qset.%d.%d.%s", v, n, d)\<close> and its siblings\<close>
  "qpcKey prefix v n d = prefix @ ''.'' @ showU64 v @ ''.'' @ showU64 n @ ''.'' @ d"

definition qlistKey :: "u64 \<Rightarrow> string \<Rightarrow> string" where
  "qlistKey n d = ''qlist.'' @ showU64 n @ ''.'' @ d"

definition plistKey :: "u64 \<Rightarrow> string" where
  "plistKey n = ''plist.'' @ showU64 n"

definition chkptKey :: "u64 \<Rightarrow> string" where
  "chkptKey n = ''chkpt.'' @ showU64 n"

definition batchKey :: "string \<Rightarrow> string" where
  "batchKey d = ''batch.'' @ d"

definition parseQPCKey :: "string \<Rightarrow> string \<Rightarrow> string + (u64 \<times> u64 \<times> string)" where
  "parseQPCKey key prefix =
     (case splitOn CHR ''.'' key of
        [p, vs, ns, d] \<Rightarrow>
          if p \<noteq> prefix then Inl ''incorrect prefix''
          else (case atoi vs of
                  None \<Rightarrow> Inl ''parse failed''
                | Some v \<Rightarrow> (case atoi ns of
                    None \<Rightarrow> Inl ''parse failed''
                  | Some n \<Rightarrow> Inr (word_of_int v, word_of_int n, d)))
      | _ \<Rightarrow> Inl ''incorrect format'')"

section \<open>The store\<close>

definition storeState :: "string \<Rightarrow> stored \<Rightarrow> 'p replica \<Rightarrow> 'p replica" where
  "storeState key v = rb_storage_update (gput key v)"

definition delState :: "string \<Rightarrow> 'p replica \<Rightarrow> 'p replica" where
  "delState key = rb_storage_update (gdel key)"

definition readState :: "string \<Rightarrow> 'p replica \<Rightarrow> stored option" where
  "readState key s = gget (rb_storage s) key"

definition readStateSet :: "'p env \<Rightarrow> string \<Rightarrow> 'p replica \<Rightarrow> (string, stored) gomap option" where
  "readStateSet E prefix s = en_readStateSet E prefix (rb_storage s)"

definition readsByPrefix :: "(string \<Rightarrow> (string, stored) gomap \<Rightarrow> (string, stored) gomap option) \<Rightarrow> bool" where
  \<comment> \<open>what \<open>external.go\<close> documents: the data whose key has the given prefix, or an error\<close>
  "readsByPrefix rs = (\<forall>p m r. rs p m = Some r \<longrightarrow> r = gkeep (\<lambda>k _. take (List.length p) k = p) m)"

section \<open>Certificates\<close>

definition persistQSet :: "prePrepare option \<Rightarrow> 'p replica \<Rightarrow> 'p replica" where
  "persistQSet pp s =
     (case pp of None \<Rightarrow> s
      | Some p \<Rightarrow> storeState (qpcKey ''qset'' (pp_view p) (pp_n p) (pp_digest p)) (SPrePrepare p) s)"

definition persistPSet :: "msgID \<Rightarrow> 'p replica \<Rightarrow> 'p replica" where
  "persistPSet idx s =
     (case idx of (v, n, d) \<Rightarrow>
      case getCert idx s of (c, s1) \<Rightarrow>
        storeState (qpcKey ''pset'' v n d) (SPset (map snd (mc_prepare c))) s1)"

definition persistCSet :: "msgID \<Rightarrow> 'p replica \<Rightarrow> 'p replica" where
  "persistCSet idx s =
     (case idx of (v, n, d) \<Rightarrow>
      case getCert idx s of (c, s1) \<Rightarrow>
        storeState (qpcKey ''cset'' v n d) (SCset (map snd (mc_commit c))) s1)"

definition persistDelQSet :: "msgID \<Rightarrow> 'p replica \<Rightarrow> 'p replica" where
  "persistDelQSet idx = (case idx of (v, n, d) \<Rightarrow> delState (qpcKey ''qset'' v n d))"

definition persistDelPSet :: "msgID \<Rightarrow> 'p replica \<Rightarrow> 'p replica" where
  "persistDelPSet idx = (case idx of (v, n, d) \<Rightarrow> delState (qpcKey ''pset'' v n d))"

definition persistDelCSet :: "msgID \<Rightarrow> 'p replica \<Rightarrow> 'p replica" where
  "persistDelCSet idx = (case idx of (v, n, d) \<Rightarrow> delState (qpcKey ''cset'' v n d))"

definition persistDelQPCSet :: "msgID \<Rightarrow> 'p replica \<Rightarrow> 'p replica" where
  "persistDelQPCSet idx s = persistDelCSet idx (persistDelPSet idx (persistDelQSet idx s))"

definition persistQList :: "(string \<times> u64, vcPq) gomap \<Rightarrow> 'p replica \<Rightarrow> 'p replica" where
  "persistQList ql = fold (\<lambda>((d, n), q). storeState (qlistKey n d) (SVcPq q)) ql"

definition persistPList :: "(u64, vcPq) gomap \<Rightarrow> 'p replica \<Rightarrow> 'p replica" where
  "persistPList pl = fold (\<lambda>(n, p). storeState (plistKey n) (SVcPq p)) pl"

definition persistDelQPList :: "'p env \<Rightarrow> 'p replica \<Rightarrow> 'p replica" where
  "persistDelQPList E s =
     (let del = (\<lambda>prefix s. case readStateSet E prefix s of None \<Rightarrow> s | Some m \<Rightarrow> fold delState (map fst m) s)
      in del ''plist.'' (del ''qlist.'' s))"

section \<open>Batches, checkpoints, the low watermark\<close>

definition persistBatch :: "string \<Rightarrow> 'p act" where
  \<comment> \<open>a missing batch is a nil pointer, which \<open>Marshal\<close> dereferences\<close>
  "persistBatch d s =
     map_option (\<lambda>b. storeState (batchKey d) (SBatch b) s) (gget (sm_batchStore (rb_store s)) d)"

definition persistDelBatch :: "string \<Rightarrow> 'p replica \<Rightarrow> 'p replica" where
  "persistDelBatch d = delState (batchKey d)"

definition persistCheckpoint :: "u64 \<Rightarrow> string \<Rightarrow> string \<Rightarrow> 'p replica \<Rightarrow> 'p replica" where
  "persistCheckpoint n d bd = storeState (chkptKey n) (SText (d @ '','' @ bd))"

definition persistDelCheckpoint :: "u64 \<Rightarrow> 'p replica \<Rightarrow> 'p replica" where
  "persistDelCheckpoint n = delState (chkptKey n)"

definition persistH :: "u64 \<Rightarrow> 'p replica \<Rightarrow> 'p replica" where
  "persistH n = storeState ''rbft.h'' (SText (showU64 n))"

section \<open>Restoring\<close>

definition restoreSet ::
  "'p env \<Rightarrow> string \<Rightarrow> (stored \<Rightarrow> 'a option) \<Rightarrow> 'p replica \<Rightarrow> (msgID, 'a) gomap" where
  \<comment> \<open>the common shape of \<open>restoreQSet\<close>, \<open>restorePSet\<close>, \<open>restoreCSet\<close>: keys that do not parse and
    values that do not decode are skipped; the error they also return is ignored by their caller\<close>
  "restoreSet E prefix decode s =
     (case readStateSet E (prefix @ ''.'') s of
        None \<Rightarrow> gempty
      | Some payload \<Rightarrow> fold (\<lambda>(key, x) acc.
          case parseQPCKey key prefix of
            Inl _ \<Rightarrow> acc
          | Inr idx \<Rightarrow> (case decode x of None \<Rightarrow> acc | Some y \<Rightarrow> gput idx y acc)) payload gempty)"

fun decodeQ :: "stored \<Rightarrow> prePrepare option" where
  "decodeQ (SPrePrepare p) = Some p" | "decodeQ _ = None"

fun decodeP :: "stored \<Rightarrow> prepare list option" where
  "decodeP (SPset ps) = Some ps" | "decodeP _ = None"

fun decodeC :: "stored \<Rightarrow> commit list option" where
  "decodeC (SCset cs) = Some cs" | "decodeC _ = None"

fun decodeVcPq :: "stored \<Rightarrow> vcPq option" where
  "decodeVcPq (SVcPq q) = Some q" | "decodeVcPq _ = None"

definition restoreQSet :: "'p env \<Rightarrow> 'p replica \<Rightarrow> (msgID, prePrepare) gomap" where
  "restoreQSet E = restoreSet E ''qset'' decodeQ"

definition restorePSet :: "'p env \<Rightarrow> 'p replica \<Rightarrow> (msgID, prepare list) gomap" where
  "restorePSet E = restoreSet E ''pset'' decodeP"

definition restoreCSet :: "'p env \<Rightarrow> 'p replica \<Rightarrow> (msgID, commit list) gomap" where
  "restoreCSet E = restoreSet E ''cset'' decodeC"

fun restoreQListLoop ::
  "(string \<times> stored) list \<Rightarrow> (string \<times> u64, vcPq) gomap \<Rightarrow> bool \<Rightarrow> (string \<times> u64, vcPq) gomap option" where
  \<comment> \<open>the flag is the error of the last round: it is what the function returns with the map\<close>
  "restoreQListLoop [] acc failed = (if failed then None else Some acc)"
| "restoreQListLoop ((key, x) # es) acc failed =
     (case splitOn CHR ''.'' key of
        [p, ns, d] \<Rightarrow>
          if p \<noteq> ''qlist'' then None
          else (case atoi ns of
                  None \<Rightarrow> None
                | Some n \<Rightarrow> (case decodeVcPq x of
                    None \<Rightarrow> restoreQListLoop es acc True
                  | Some q \<Rightarrow> restoreQListLoop es (gput (d, word_of_int n) q acc) False))
      | _ \<Rightarrow> None)"

definition restoreQList :: "'p env \<Rightarrow> 'p replica \<Rightarrow> (string \<times> u64, vcPq) gomap option" where
  "restoreQList E s =
     (case readStateSet E ''qlist.'' s of None \<Rightarrow> None | Some m \<Rightarrow> restoreQListLoop m gempty False)"

fun restorePListLoop ::
  "(string \<times> stored) list \<Rightarrow> (u64, vcPq) gomap \<Rightarrow> bool \<Rightarrow> (u64, vcPq) gomap option" where
  "restorePListLoop [] acc failed = (if failed then None else Some acc)"
| "restorePListLoop ((key, x) # es) acc failed =
     (case splitOn CHR ''.'' key of
        [p, ns] \<Rightarrow>
          if p \<noteq> ''plist'' then None
          else (case atoi ns of
                  None \<Rightarrow> None
                | Some n \<Rightarrow> (case decodeVcPq x of
                    None \<Rightarrow> restorePListLoop es acc True
                  | Some q \<Rightarrow> restorePListLoop es (gput (word_of_int n) q acc) False))
      | _ \<Rightarrow> None)"

definition restorePList :: "'p env \<Rightarrow> 'p replica \<Rightarrow> (u64, vcPq) gomap option" where
  "restorePList E s =
     (case readStateSet E ''plist.'' s of None \<Rightarrow> None | Some m \<Rightarrow> restorePListLoop m gempty False)"

definition restoreCert :: "'p env \<Rightarrow> 'p replica \<Rightarrow> 'p replica" where
  "restoreCert E s0 =
     (let s1 = fold (\<lambda>(idx, q) s. case getCert idx s of (_, s') \<Rightarrow> modCert idx (\<lambda>c.
                 c\<lparr>mc_prePrepare := Some q,
                   mc_isConfig := (case gget (sm_batchStore (rb_store s')) (snd (snd idx)) of
                      None \<Rightarrow> mc_isConfig c
                    | Some b \<Rightarrow> risConfigBatch (rq_seqNo b) s')\<rparr>) s') (restoreQSet E s0) s0;
          s2 = fold (\<lambda>(idx, ps) s. case getCert idx s of (_, s') \<Rightarrow> modCert idx (\<lambda>c.
                 c\<lparr>mc_prepare := fold (\<lambda>p. gput (pr_ID p) p) ps (mc_prepare c),
                   mc_sentPrepare := (mc_sentPrepare c \<or>
                     (\<exists>p \<in> set ps. pr_replicaId p = selfID s' \<and> fst (snd idx) \<le> rb_lastExec s'))\<rparr>) s')
               (restorePSet E s1) s1;
          s3 = fold (\<lambda>(idx, cs) s. case getCert idx s of (_, s') \<Rightarrow> modCert idx (\<lambda>c.
                 c\<lparr>mc_commit := fold (\<lambda>m. gput (cm_ID m) m) cs (mc_commit c),
                   mc_sentCommit := (mc_sentCommit c \<or>
                     (\<exists>m \<in> set cs. cm_replicaId m = selfID s' \<and> fst (snd idx) \<le> rb_lastExec s'))\<rparr>) s')
               (restoreCSet E s2) s2;
          s4 = rb_store_update (sm_certStore_update (gmapv (\<lambda>(v, n, d) c.
                 if n \<le> rb_lastExec s3 then c\<lparr>mc_sentExecute := True\<rparr> else c))) s3;
          s5 = (case restoreQList E s4 of None \<Rightarrow> s4 | Some ql \<Rightarrow> rb_vc_update (vm_qlist_update (\<lambda>_. ql)) s4)
      in case restorePList E s5 of None \<Rightarrow> s5 | Some pl \<Rightarrow> rb_vc_update (vm_plist_update (\<lambda>_. pl)) s5)"

definition isBlank :: "char \<Rightarrow> bool" where
  "isBlank c = (c \<in> {CHR '' '', CHR 0x09, CHR 0x0D})"

definition scanBatchKey :: "string \<Rightarrow> string option" where
  \<comment> \<open>\<open>fmt.Sscanf(key, "batch.%s", &digest)\<close>: blanks are skipped, then a non-empty word is read\<close>
  "scanBatchKey key =
     (if take 6 key = ''batch.''
      then (let w = takeWhile (\<lambda>c. \<not> isBlank c \<and> c \<noteq> CHR 0x0A) (dropWhile isBlank (drop 6 key))
            in if w = [] then None else Some w)
      else None)"

definition restoreBatchStore :: "'p env \<Rightarrow> 'p replica \<Rightarrow> 'p replica" where
  "restoreBatchStore E s =
     (case readStateSet E ''batch.'' s of
        None \<Rightarrow> s
      | Some payload \<Rightarrow> fold (\<lambda>(key, x) s.
          case (scanBatchKey key, x) of
            (Some d, SBatch b) \<Rightarrow> rb_store_update (sm_batchStore_update (gput d b)) s
          | _ \<Rightarrow> s) payload s)"

section \<open>Keys are read back\<close>

lemma parse_qpcKey:
  assumes "CHR ''.'' \<notin> set prefix" "CHR ''.'' \<notin> set d"
  shows "parseQPCKey (qpcKey prefix v n d) prefix =
    (if unat v < 2 ^ 63 \<and> unat n < 2 ^ 63 then Inr (v, n, d) else Inl ''parse failed'')"
proof -
  have "splitOn CHR ''.'' (qpcKey prefix v n d) = [prefix, showU64 v, showU64 n, d]"
    using assms by (simp add: qpcKey_def splitOn_append splitOn_free showU64_no_sep)
  then show ?thesis by (simp add: parseQPCKey_def atoi_show)
qed

text \<open>C36. The key under which a certificate is stored is read back by \<open>parseQPCKey\<close> as the same view,
  sequence number and digest, provided the digest holds no dot, exactly when both numbers fit a
  signed 64-bit integer: \<open>strconv.Atoi\<close> rejects the upper half of the \<open>uint64\<close> range.\<close>

theorem parseQPCKey_roundtrip:
  assumes "CHR ''.'' \<notin> set prefix" "CHR ''.'' \<notin> set d"
  shows "parseQPCKey (qpcKey prefix v n d) prefix =
    (if unat v < 2 ^ 63 \<and> unat n < 2 ^ 63 then Inr (v, n, d) else Inl ''parse failed'')"
  by (rule parse_qpcKey [OF assms])

theorem parseQPCKey_roundtrip_witness:
  "parseQPCKey (qpcKey ''qset'' 3 7 ''d0'') ''qset'' = Inr (3, 7, ''d0'') \<and>
   parseQPCKey (qpcKey ''qset'' 3 (2 ^ 63) ''d0'') ''qset'' = Inl ''parse failed''"
  using parseQPCKey_roundtrip [of "''qset''" "''d0''" 3 7]
    parseQPCKey_roundtrip [of "''qset''" "''d0''" 3 "2 ^ 63"] by simp

definition smallID :: "msgID \<Rightarrow> bool" where
  "smallID = (\<lambda>(v, n, d). unat v < 2 ^ 63 \<and> unat n < 2 ^ 63 \<and> CHR ''.'' \<notin> set d)"

definition pp_idx :: "prePrepare \<Rightarrow> msgID" where
  "pp_idx p = (pp_view p, pp_n p, pp_digest p)"

lemma set_gput: "gwf m \<Longrightarrow> e \<in> set (gput k v m) \<Longrightarrow> e = (k, v) \<or> (e \<in> set m \<and> fst e \<noteq> k)"
  by (cases e) (auto simp: gget_in_set_iff gwf_gput split: if_splits)

end
