(* ===== verification/Sample.thy ===== *)
theory Sample
  imports Persist
begin

text \<open>
  One concrete replica and one concrete environment, on which the properties of the later theories
  are shown to apply: replica 1 of four validators, in view 1, with primary 2, all timers created,
  nothing stored yet. Signatures are always accepted, the hashes are simple injective encodings where
  that matters, and the store answers by key prefix.
\<close>

definition sampleEnv :: "unit env" where
  "sampleEnv = \<lparr>en_now = 1000, en_sign = (\<lambda>_. Some []), en_verify = (\<lambda>_ _ _. True),
     en_hashCheckpoint = (\<lambda>(e, st, u). (case st of None \<Rightarrow> [] | Some x \<Rightarrow> string_bytes (es_digest x))),
     en_hashBasis = (\<lambda>_. []), en_hashNewView = (\<lambda>_. []),
     en_hashInfo = (\<lambda>ns. map (\<lambda>i. ucast (nd_id i)) ns),
     en_md5 = id, en_sha256 = (\<lambda>_. [5]), en_txHash = (\<lambda>t. map (\<lambda>b. char_of (unat b)) t), en_txDecodes = (\<lambda>_. True),
     en_getBlockMeta = (\<lambda>n. Some (sampleMeta n)), en_getNodeInfo = (\<lambda>i. Some \<lparr>ni_id = i, ni_p2p = ''p''\<rparr>),
     en_nodeIDByP2P = (\<lambda>p. if p = ''p1'' then Some 1 else None),
     en_currentEpochInfo = Some sampleEpoch, en_epochInfo = (\<lambda>_. Some sampleEpoch),
     en_validatorSet = Some [(1, 1000), (2, 1000), (3, 1000), (4, 1000)],
     en_readStateSet = (\<lambda>p m. Some (gkeep (\<lambda>k _. take (List.length p) k = p) m)),
     en_poolHasPending = (\<lambda>_. False), en_poolReady = (\<lambda>_. False),
     en_poolGetRequests = (\<lambda>_ _ _ _ p. (PoolFound [] [], p)), en_poolSendMissing = (\<lambda>_ _ _. None),
     en_poolReceiveMissing = (\<lambda>_ _ p. (False, p)), en_poolRemoveBatches = (\<lambda>_ p. p),
     en_poolRestore = (\<lambda>p. p), en_poolRestoreOne = (\<lambda>_ p. p), en_poolReConstruct = (\<lambda>_ p. (Some [], p)),
     en_poolGenerate = (\<lambda>_ p. (None, p)), en_poolReplySignal = (\<lambda>p. p), en_poolOutOfDate = (\<lambda>_ p. ([], p)), en_poolAddRebroadcast = (\<lambda>_ p. p)\<rparr>"

definition sampleState :: serviceState where
  "sampleState = \<lparr>ss_meta = \<lparr>ms_height = 0, ms_digest = ''g'', ms_batchDigest = ''''\<rparr>, ss_epoch = 1\<rparr>"

definition sampleRbftConfig :: config where
  "sampleRbftConfig = \<lparr>cf_genesisEpochInfo = sampleEpoch, cf_genesisBlockDigest = ''g'',
     cf_lastServiceState = sampleState, cf_setSize = 10, cf_timers = sampleTimers,
     cf_committedBlockCacheNumber = 10\<rparr>"

definition sampleReplica :: "unit replica" where
  "sampleReplica = \<lparr>rb_cc = sampleConfig\<lparr>cc_view := 1, cc_primaryID := 2\<rparr>, rb_status = setNormal newStatusMgr,
     rb_timer = initTimers sampleTimers 1 gempty, rb_lastExec = 0, rb_store = newStoreMgr,
     rb_batch = newBatchManager, rb_recovery = gempty, rb_vc = newVcManager sampleTimers,
     rb_epoch = newEpochManager, rb_storage = gempty, rb_epochStore = gempty, rb_pool = (),
     rb_currentState = Some sampleState, rb_config = sampleRbftConfig, rb_out = []\<rparr>"

lemma sampleEnv_simps [simp]:
  "readsByPrefix (en_readStateSet sampleEnv)" "en_now sampleEnv = 1000"
  "en_verify sampleEnv i sg b" "en_sign sampleEnv b = Some []"
  "en_poolHasPending sampleEnv p = False"
  "en_readStateSet sampleEnv q m = Some (gkeep (\<lambda>k _. take (List.length q) k = q) m)"
  by (auto simp: sampleEnv_def readsByPrefix_def)

lemma sampleReplica_simps [simp]:
  "rb_storage sampleReplica = gempty" "rb_store sampleReplica = newStoreMgr" "rb_lastExec sampleReplica = 0"
  "cc_view (rb_cc sampleReplica) = 1" "cc_primaryID (rb_cc sampleReplica) = 2" "cc_selfID (rb_cc sampleReplica) = 1"
  "cc_H (rb_cc sampleReplica) = 0" "cc_L (rb_cc sampleReplica) = 10" "cc_N (rb_cc sampleReplica) = 4"
  "cc_F (rb_cc sampleReplica) = 1" "rb_status sampleReplica = setNormal newStatusMgr"
  "rb_batch sampleReplica = newBatchManager" "rb_epoch sampleReplica = newEpochManager" "rb_out sampleReplica = []"
  "commonCaseQuorum (rb_cc sampleReplica) = 3"
  by (simp_all add: sampleReplica_def sampleConfig_def updateDerivedData_def gsize_def gmapv_def sampleConfig0_def
      sampleEpoch_def sampleParams_def commonCaseQuorum_def)

lemma sampleStatus_simps [simp]:
  "statusIn newStatusMgr q = False" "atomicIn newStatusMgr q = False"
  by (simp_all add: statusIn_def atomicIn_def hasBit_def atomicHasBit_def newStatusMgr_def)

lemma sampleStatus_normal [simp]: "statusIn (setNormal newStatusMgr) q = (q = Normal)"
  by (auto simp: setNormal_def)

section \<open>Properties of the store on the sample\<close>

definition samplePrePrepare :: prePrepare where
  "samplePrePrepare = \<lparr>pp_replicaId = 2, pp_view = 1, pp_n = 1, pp_digest = ''d1'',
     pp_hashBatch = Some \<lparr>hb_hashes = [], hb_deDuplicate = [], hb_timestamp = 5, hb_proposer = 2\<rparr>\<rparr>"

end
