(* ===== verification/ViewChange.thy ===== *)
theory ViewChange
  imports Sample
begin

text \<open>
  Leaving a view (\<open>viewchange_mgr.go\<close>, the view-change part of \<open>helper.go\<close>): the voting powers of
  abnormal primaries, the installing of a view, the construction of a view change from the
  certificates, \<open>sendViewChange\<close> and \<open>recvViewChange\<close>. In the code these two call each other;
  here each is split into the part up to the call (\<open>sendViewChangeStart\<close>, \<open>recvViewChangeStep\<close>)
  and the recursion is one function, which ends because every round skips the stored view
  changes up to the view it moves to.
\<close>

section \<open>Voting powers and the installed view\<close>

definition word_below :: "u64 \<Rightarrow> u64 \<Rightarrow> u64 list" where
  \<comment> \<open>\<open>for v := a; v < b; v++\<close>\<close>
  "word_below a b = (if a < b then map of_nat [unat a ..< unat b] else [])"

definition punishAbnormalNode ::
  "'p env \<Rightarrow> 'p replica \<Rightarrow> u64 \<Rightarrow> (u64, validatorInfo) gomap \<Rightarrow> (u64, validatorInfo) gomap option" where
  "punishAbnormalNode E s v info =
     (case calPrimaryIDByView (en_sha256 E) (rb_cc s) v info of
        None \<Rightarrow> None
      | Some a \<Rightarrow> (case gget info a of
          None \<Rightarrow> None
        | Some i \<Rightarrow>
            if vi_reduced i \<and> vi_reduceView i = v then Some info
            else Some (gput a (i\<lparr>vi_power := cp_notActiveWeight (ei_params (cc_epochInfo (rb_cc s))),
                                 vi_reduced := True, vi_reduceView := v\<rparr>) info)))"

definition punishAbnormalNodes ::
  "'p env \<Rightarrow> bool \<Rightarrow> u64 \<Rightarrow> 'p replica \<Rightarrow> (u64, validatorInfo) gomap \<Rightarrow> (u64, validatorInfo) gomap option" where
  "punishAbnormalNodes E isRecovery view s info =
     (if view = 0 \<or> view = cc_lastStableView (rb_cc s) \<or> view < cc_view (rb_cc s) then Some info
      else mfold (\<lambda>v i. if v = view - 1 \<and> isRecovery then Some i else punishAbnormalNode E s v i)
             (word_below (cc_lastStableView (rb_cc s)) view) info)"

definition recoverAbnormalNodes ::
  "u64 \<Rightarrow> 'p replica \<Rightarrow> (u64, validatorInfo) gomap \<Rightarrow> (u64, validatorInfo) gomap" where
  "recoverAbnormalNodes view s info =
     (if view = 0 \<or> view < cc_view (rb_cc s) then info
      else gmapv (\<lambda>nodeID n.
        if vi_reduced n \<and>
           view \<ge> vi_reduceView n + cp_abnormalNodeExcludeView (ei_params (cc_epochInfo (rb_cc s)))
        then n\<lparr>vi_power := (case gget (cc_validatorSet (rb_cc s)) nodeID of None \<Rightarrow> 0 | Some p \<Rightarrow> p),
               vi_reduced := False, vi_reduceView := 0\<rparr>
        else n) info)"

definition unstableInfo :: "'p env \<Rightarrow> bool \<Rightarrow> u64 \<Rightarrow> 'p replica \<Rightarrow> (u64, validatorInfo) gomap option" where
  \<comment> \<open>the common part of \<open>setView\<close>, \<open>setViewWithRecovery\<close> and \<open>getUnstableValidatorDynamicInfoMap\<close>\<close>
  "unstableInfo E isRecovery view s =
     map_option (recoverAbnormalNodes view s)
       (punishAbnormalNodes E isRecovery view s (cc_lastStableInfo (rb_cc s)))"

definition setViewGen :: "'p env \<Rightarrow> bool \<Rightarrow> u64 \<Rightarrow> 'p act" where
  "setViewGen E isRecovery view s =
     (case unstableInfo E isRecovery view s of
        None \<Rightarrow> None
      | Some info \<Rightarrow>
          map_option (\<lambda>c. s\<lparr>rb_cc := c\<rparr>)
            (updatePrimaryID (en_sha256 E) ((rb_cc s)\<lparr>cc_dynInfo := info, cc_view := view\<rparr>)))"

definition setView :: "'p env \<Rightarrow> u64 \<Rightarrow> 'p act" where
  "setView E = setViewGen E False"

definition setViewWithRecovery :: "'p env \<Rightarrow> u64 \<Rightarrow> 'p act" where
  "setViewWithRecovery E = setViewGen E True"

definition setLastStableView :: "u64 \<Rightarrow> 'p replica \<Rightarrow> 'p replica" where
  "setLastStableView v = rb_cc_update (cc_lastStableView_update (\<lambda>_. v))"

definition toDynamicInfo :: "validatorInfo \<Rightarrow> nodeDynamicInfo" where
  "toDynamicInfo i = \<lparr>nd_id = vi_id i, nd_power = vi_power i, nd_reduced = vi_reduced i,
     nd_reduceView = vi_reduceView i\<rparr>"

definition ofDynamicInfo :: "nodeDynamicInfo \<Rightarrow> validatorInfo" where
  "ofDynamicInfo i = \<lparr>vi_id = nd_id i, vi_power = nd_power i, vi_reduced = nd_reduced i,
     vi_reduceView = nd_reduceView i\<rparr>"

definition getUnstableValidatorDynamicInfoMap ::
  "'p env \<Rightarrow> u64 \<Rightarrow> bool \<Rightarrow> 'p replica \<Rightarrow> nodeDynamicInfo list option" where
  "getUnstableValidatorDynamicInfoMap E view isRecovery s =
     map_option (\<lambda>m. sort_key nd_id (map (toDynamicInfo \<circ> snd) m)) (unstableInfo E isRecovery view s)"

definition checkView :: "consensusMessage \<Rightarrow> 'p replica \<Rightarrow> 'p replica" where
  "checkView msg s =
     (if \<not> CheckValidator (rb_cc s) (m_from msg) then s
      else if m_view msg > cc_view (rb_cc s)
      then rb_vc_update (vm_higherViewRecord_update (gput (m_from msg) (m_view msg))) s
      else s)"

section \<open>The persisted new view\<close>

definition persistNewView :: "'p env \<Rightarrow> newView \<Rightarrow> bool \<Rightarrow> 'p act" where
  "persistNewView E nv isRecovery s =
     (let s1 = setLastStableView (nv_view nv) (storeState ''new-view'' (SNewView nv) s) in
      case (if isRecovery then setViewWithRecovery E (nv_view nv) s1 else setView E (nv_view nv) s1) of
        None \<Rightarrow> None
      | Some s2 \<Rightarrow>
          (let info = fold (\<lambda>v. gput (nd_id v) (ofDynamicInfo v)) (nv_info nv) gempty;
               c = (rb_cc s2)\<lparr>cc_dynInfo := info, cc_lastStableInfo := info\<rparr>;
               r = (if nv_view nv \<noteq> 0 then updatePrimaryID (en_sha256 E) c else Some (rb_cc s2))
           in map_option (\<lambda>c. rb_vc_update (\<lambda>m. m\<lparr>vm_latestQuorumViewChange := None, vm_latestNewView := nv\<rparr>)
                                (s2\<lparr>rb_cc := c\<rparr>)) r))"

definition restoreView :: "'p env \<Rightarrow> 'p act" where
  "restoreView E s =
     (case readState ''new-view'' s of
        Some (SNewView nv) \<Rightarrow>
          if nv_view nv \<noteq> 0 then
            (let info = fold (\<lambda>v. gput (nd_id v) (ofDynamicInfo v)) (nv_info nv) gempty;
                 s1 = rb_vc_update (vm_latestNewView_update (\<lambda>_. nv)) s;
                 s2 = rb_cc_update (\<lambda>c. c\<lparr>cc_dynInfo := info, cc_lastStableInfo := info\<rparr>) s1
             in setView E (nv_view nv) (setLastStableView (nv_view nv) s2))
          else setView E 0 (setLastStableView 0 (rb_vc_update (vm_latestNewView_update (\<lambda>_. initialNewView)) s))
      | _ \<Rightarrow> setView E 0 (setLastStableView 0 (rb_vc_update (vm_latestNewView_update (\<lambda>_. initialNewView)) s)))"

section \<open>What a view change carries\<close>

definition calcQSet :: "'p replica \<Rightarrow> (string \<times> u64, vcPq) gomap" where
  "calcQSet s = fold (\<lambda>((v, n, d), _) q.
     if \<not> prePrepared (v, n, d) s then q
     else (case gget q (d, n) of
             Some e \<Rightarrow> if pq_v e > v then q else gput (d, n) \<lparr>pq_n = n, pq_d = d, pq_v = v\<rparr> q
           | None \<Rightarrow> gput (d, n) \<lparr>pq_n = n, pq_d = d, pq_v = v\<rparr> q))
     (sm_certStore (rb_store s)) (vm_qlist (rb_vc s))"

definition calcPSet :: "'p replica \<Rightarrow> (u64, vcPq) gomap" where
  "calcPSet s = fold (\<lambda>((v, n, d), _) p.
     if \<not> prepared (v, n, d) s then p
     else (case gget p n of
             Some e \<Rightarrow> if pq_v e > v then p else gput n \<lparr>pq_n = n, pq_d = d, pq_v = v\<rparr> p
           | None \<Rightarrow> gput n \<lparr>pq_n = n, pq_d = d, pq_v = v\<rparr> p))
     (sm_certStore (rb_store s)) (vm_plist (rb_vc s))"

definition gatherPQC :: "'p replica \<Rightarrow> vcPq list \<times> vcPq list \<times> signedCheckpoint list" where
  "gatherPQC s =
     (let h = cc_H (rb_cc s)
      in (filter (\<lambda>p. \<not> pq_n p < h) (map snd (vm_plist (rb_vc s))),
          filter (\<lambda>q. \<not> pq_n q < h) (map snd (vm_qlist (rb_vc s))),
          map snd (sm_localCheckpoints (rb_store s))))"

definition dropOldCerts :: "'p replica \<Rightarrow> 'p replica" where
  \<comment> \<open>certificates of lower views move to the cache of committed ones\<close>
  "dropOldCerts s = fold (\<lambda>((v, n, d), cert) s.
     if v < cc_view (rb_cc s)
     then persistDelQPCSet (v, n, d) (rb_store_update (\<lambda>m.
            m\<lparr>sm_committedCertCache := gput (v, n, d) cert (sm_committedCertCache m),
              sm_certStore := gdel (v, n, d) (sm_certStore m),
              sm_seqMap := gdel n (sm_seqMap m)\<rparr>) s)
     else s) (sm_certStore (rb_store s)) s"

definition getVcBasis :: "'p env \<Rightarrow> 'p replica \<Rightarrow> (vcBasis \<times> 'p replica) option" where
  "getVcBasis E s =
     (let s1 = persistDelQPList E s;
          s2 = rb_vc_update (vm_plist_update (\<lambda>_. calcPSet s1)) s1;
          s3 = rb_vc_update (vm_qlist_update (\<lambda>_. calcQSet s2)) s2;
          s4 = persistQList (vm_qlist (rb_vc s3)) (persistPList (vm_plist (rb_vc s3)) s3);
          s5 = dropOldCerts s4;
          s6 = cleanCommittedCertCache (cc_H (rb_cc s5)) s5
      in case gatherPQC s6 of (ps, qs, cs) \<Rightarrow>
         do { rec \<leftarrow> getUnstableValidatorDynamicInfoMap E (cc_view (rb_cc s)) True s6;
              nrec \<leftarrow> getUnstableValidatorDynamicInfoMap E (cc_view (rb_cc s)) False s6;
              Some (VcBasis (selfID s) (cc_view (rb_cc s)) (cc_H (rb_cc s)) ps qs cs nrec rec, s6) })"

definition correctViewChange :: "vcBasis \<Rightarrow> bool option" where
  \<comment> \<open>rejecting a checkpoint prints \<open>c.GetCheckpoint().GetExecuteState().Digest\<close>, which dereferences\<close>
  "correctViewChange b =
     (if \<exists>p \<in> set (vb_pset b @ vb_qset b). \<not> (pq_v p < vb_view b \<and> pq_n p > vb_h b) then Some False
      else (case List.find (\<lambda>c. \<not> sc_Height c \<ge> vb_h b) (vb_cset b) of
              None \<Rightarrow> Some True
            | Some c \<Rightarrow> (case sc_checkpoint c of
                None \<Rightarrow> None
              | Some k \<Rightarrow> (case ck_state k of None \<Rightarrow> None | Some _ \<Rightarrow> Some False))))"

definition signViewChange :: "'p env \<Rightarrow> vcBasis \<Rightarrow> 'p replica \<Rightarrow> signature option \<times> 'p replica" where
  "signViewChange E b s =
     (case en_sign E (en_hashBasis E (Some b)) of
        None \<Rightarrow> (None, stopNamespace s)
      | Some sig \<Rightarrow> (Some sig, s))"

definition verifySignedViewChange :: "'p env \<Rightarrow> viewChange \<Rightarrow> u64 \<Rightarrow> bool" where
  "verifySignedViewChange E vc r = en_verify E r (vc_signature vc) (en_hashBasis E (vc_basis vc))"

definition sendRecoveryResponse :: "'p env \<Rightarrow> u64 \<Rightarrow> 'p replica \<Rightarrow> 'p replica" where
  "sendRecoveryResponse E remote s =
     unicast E (MRecoveryResponse \<lparr>rr_newView = Some (vm_latestNewView (rb_vc s)),
       rr_initialCheckpoint = gget (sm_localCheckpoints (rb_store s)) (cc_H (rb_cc s)),
       rr_genesis = cf_genesisBlockDigest (rb_config s)\<rparr>) remote s"

section \<open>Sending a view change\<close>

definition beforeSendVC :: "'p env \<Rightarrow> bool \<Rightarrow> 'p act" where
  "beforeSendVC E recovery s =
     (let s1 = stopHighWatermarkTimer (stopFetchCheckpointTimer (stopT nullRequestTimer (stopNewViewTimer s)));
          s2 = setAbNormal (raOn InViewChange s1);
          s3 = rb_vc_update (vm_vcHandled_update (\<lambda>_. False)) s2;
          s4 = raOff InConfChange (rb_epoch_update (em_configBatchToCheck_update (\<lambda>_. None)) s3);
          s5 = rb_epoch_update (em_configBatchInOrder_update (\<lambda>_. 0)) s4;
          newView = cc_view (rb_cc s5) + 1
      in case (if recovery then setViewWithRecovery E newView s5 else setView E newView s5) of
           None \<Rightarrow> None
         | Some s6 \<Rightarrow> Some (rb_vc_update (\<lambda>m.
             m\<lparr>vm_newViewStore := gdel (cc_view (rb_cc s6)) (vm_newViewStore m),
               vm_viewChangeStore := gkeep (\<lambda>(v, _) _. \<not> v < cc_view (rb_cc s6)) (vm_viewChangeStore m)\<rparr>) s6))"

definition sendViewChangeStart ::
  "'p env \<Rightarrow> bool \<Rightarrow> 'p replica \<Rightarrow> (viewChange option \<times> 'p replica) option" where
  "sendViewChangeStart E recovery s =
     (if \<not> recovery \<and> rin waitCheckpointFinished s then Some (None, s)
      else if ratomicIn StateTransferring s then Some (None, s)
      else do {
        s1 \<leftarrow> beforeSendVC E recovery s;
        let s2 = (if recovery then raOn InRecovery s1 else s1);
        (b, s3) \<leftarrow> getVcBasis E s2;
        (case signViewChange E b s3 of
           (None, s4) \<Rightarrow> Some (None, s4)
         | (Some sig, s4) \<Rightarrow> do {
             let vc = ViewChange (Some b) sig 0 recovery;
             s5 \<leftarrow> startT E vcResendTimer ViewChangeResendTimer (broadcast (MViewChange vc) s4);
             s6 \<leftarrow> startFetchViewTimer E s5;
             Some (Some vc, s6) }) })"

section \<open>Receiving a view change\<close>

datatype vcNext = VCReturn "event option" | VCSend

definition dropExpired :: "'p env \<Rightarrow> 'p replica \<Rightarrow> 'p replica" where
  "dropExpired E s = rb_vc_update (vm_viewChangeStore_update (gkeep (\<lambda>_ vc.
     \<not> vc_timestamp vc + timeoutOf cleanViewChangeTimer s < en_now E))) s"

definition higherVC :: "'p replica \<Rightarrow> (u64 \<times> u64) list" where
  \<comment> \<open>the keys of the stored view changes for views above the current one\<close>
  "higherVC s = filter (\<lambda>(v, _). \<not> v \<le> cc_view (rb_cc s)) (map fst (vm_viewChangeStore (rb_vc s)))"

definition minViewOf :: "(u64 \<times> u64) list \<Rightarrow> u64" where
  "minViewOf ks = fold (\<lambda>(v, _) m. if m = 0 \<or> v < m then v else m) ks 0"

definition currentVC :: "'p replica \<Rightarrow> viewChange list" where
  "currentVC s = map snd (filter (\<lambda>((v, _), _). v = cc_view (rb_cc s)) (vm_viewChangeStore (rb_vc s)))"

definition grownTimeout :: "'p replica \<Rightarrow> int \<Rightarrow> int" where
  "grownTimeout s t =
     (if 2 * t > 5 * timeoutOf newViewTimer s then 5 * timeoutOf newViewTimer s else 2 * t)"

definition quorumReached :: "'p env \<Rightarrow> u64 \<Rightarrow> 'p act" where
  "quorumReached E targetView s = do {
     s1 \<leftarrow> softStartNewViewTimer E (vm_lastNewViewTimeout (rb_vc s)) True (stopT vcResendTimer s);
     Some (rb_vc_update (\<lambda>m. m\<lparr>vm_lastNewViewTimeout := grownTimeout s1 (vm_lastNewViewTimeout m),
             vm_latestQuorumViewChange := Some (targetView, currentVC s1)\<rparr>) s1) }"

definition isDuplicateVC :: "viewChange \<Rightarrow> vcBasis \<Rightarrow> 'p replica \<Rightarrow> bool" where
  "isDuplicateVC vc b s =
     (case gget (vm_viewChangeStore (rb_vc s)) (vb_view b, vb_replicaId b) of
        None \<Rightarrow> False
      | Some old \<Rightarrow> \<not> vc_recovery vc \<and> vc_basis old = vc_basis vc)"

definition storeVC :: "'p env \<Rightarrow> viewChange \<Rightarrow> vcBasis \<Rightarrow> 'p replica \<Rightarrow> 'p replica" where
  "storeVC E vc b s =
     (if CheckValidator (rb_cc s) (vb_replicaId b)
      then rb_vc_update (vm_viewChangeStore_update (gput (vb_view b, vb_replicaId b)
             (ViewChange (vc_basis vc) (vc_signature vc) (en_now E) (vc_recovery vc)))) s
      else s)"

definition recvViewChangeStep ::
  "'p env \<Rightarrow> viewChange \<Rightarrow> bool \<Rightarrow> 'p replica \<Rightarrow> (vcNext \<times> 'p replica) option" where
  "recvViewChangeStep E vc verified s =
     (case vc_basis vc of
        None \<Rightarrow> None
      | Some b \<Rightarrow>
         (let remote = vb_replicaId b; targetView = vb_view b in
          if targetView < cc_view (rb_cc s)
          then Some (VCReturn None,
                 if vc_recovery vc \<and> risNormal s then sendRecoveryResponse E remote s else s)
          else (case correctViewChange b of
            None \<Rightarrow> None
          | Some False \<Rightarrow> Some (VCReturn None, s)
          | Some True \<Rightarrow>
             if isDuplicateVC vc b s \<or> (\<not> verified \<and> \<not> verifySignedViewChange E vc remote)
             then Some (VCReturn None, s)
             else
              (let s1 = dropExpired E (storeVC E vc b s) in
               if card (snd ` set (higherVC s1)) \<ge> oneCorrectQuorum (rb_cc s1)
               then map_option (Pair VCSend) (setView E (minViewOf (higherVC s1) - 1) s1)
               else if ratomicIn InViewChange s1 \<and> targetView = cc_view (rb_cc s1)
                    \<and> List.length (currentVC s1) \<ge> commonCaseQuorum (rb_cc s1)
               then map_option (Pair (VCReturn (Some (LocalEvent ViewChangeQuorum)))) (quorumReached E targetView s1)
               else if risNormal s1 then
                 (if isProposerElectionTypeWRF (rb_cc s1)
                  then (if vc_recovery vc then Some (VCReturn None, sendRecoveryResponse E remote s1)
                        else if isPrimary remote s1 then Some (VCSend, s1)
                        else Some (VCReturn None, s1))
                  else (if isPrimary remote s1 then Some (VCSend, s1)
                        else if vc_recovery vc then Some (VCReturn None, sendRecoveryResponse E remote s1)
                        else Some (VCReturn None, s1)))
               else Some (VCReturn None, s1)))))"

section \<open>What the steps leave alone\<close>

lemma fold_frame:
  assumes "\<And>x s. g (f x s) = g s"
  shows "g (fold f xs s) = g s"
  by (induction xs arbitrary: s) (simp_all add: assms)

lemma setViewGenD:
  assumes "setViewGen E r v s = Some s'"
  obtains i p where "s' = s\<lparr>rb_cc := (rb_cc s)\<lparr>cc_dynInfo := i, cc_view := v, cc_primaryID := p\<rparr>\<rparr>"
proof -
  obtain i where "unstableInfo E r v s = Some i"
    using assms by (auto simp: setViewGen_def split: option.splits)
  then obtain p where "s' = s\<lparr>rb_cc := (rb_cc s)\<lparr>cc_dynInfo := i, cc_view := v, cc_primaryID := p\<rparr>\<rparr>"
    using assms by (auto simp: setViewGen_def updatePrimaryID_def)
  with that show ?thesis .
qed

lemma store_frame [simp]:
  "rb_cc (storeState k x s) = rb_cc s" "rb_vc (storeState k x s) = rb_vc s"
  "rb_status (storeState k x s) = rb_status s" "rb_cc (delState k s) = rb_cc s"
  "rb_vc (delState k s) = rb_vc s" "rb_status (delState k s) = rb_status s"
  "rb_store (storeState k x s) = rb_store s" "rb_store (delState k s) = rb_store s"
  "rb_timer (storeState k x s) = rb_timer s" "rb_timer (delState k s) = rb_timer s"
  by (simp_all add: storeState_def delState_def)

lemma fold_storage: "fold (\<lambda>x. rb_storage_update (f x)) xs s = rb_storage_update (fold f xs) s"
  by (induction xs arbitrary: s) (simp_all add: o_def)

lemma persistQList_eq:
  "persistQList ql = rb_storage_update (fold (\<lambda>((d, n), q). gput (qlistKey n d) (SVcPq q)) ql)"
  unfolding persistQList_def storeState_def
  by (rule ext, subst fold_storage [symmetric]) (simp add: case_prod_unfold)

lemma persistPList_eq:
  "persistPList pl = rb_storage_update (fold (\<lambda>(n, p). gput (plistKey n) (SVcPq p)) pl)"
  unfolding persistPList_def storeState_def
  by (rule ext, subst fold_storage [symmetric]) (simp add: case_prod_unfold)

lemma persistDelQPList_eq: "\<exists>f. persistDelQPList E s = rb_storage_update f s"
proof -
  have del: "fold delState ks s = rb_storage_update (fold gdel ks) s" for ks and s :: "'a replica"
    unfolding delState_def by (simp add: fold_storage)
  have id: "s = rb_storage_update (\<lambda>m. m) s" by simp
  have one: "\<exists>f. (case readStateSet E p s of None \<Rightarrow> s | Some m \<Rightarrow> fold delState (map fst m) s) = rb_storage_update f s"
    for p and s :: "'a replica"
    by (cases "readStateSet E p s") (auto simp: del intro: exI [of _ "\<lambda>m. m"])
  obtain f where f: "(case readStateSet E ''qlist.'' s of None \<Rightarrow> s | Some m \<Rightarrow> fold delState (map fst m) s)
      = rb_storage_update f s" using one by blast
  obtain g where g: "(case readStateSet E ''plist.'' (rb_storage_update f s) of None \<Rightarrow> rb_storage_update f s
      | Some m \<Rightarrow> fold delState (map fst m) (rb_storage_update f s)) = rb_storage_update g (rb_storage_update f s)"
    using one by blast
  have "persistDelQPList E s = rb_storage_update (g \<circ> f) s"
    by (simp add: persistDelQPList_def f g)
  then show ?thesis by blast
qed

lemma persistLists_frame [simp]:
  "rb_cc (persistQList q s) = rb_cc s" "rb_vc (persistQList q s) = rb_vc s"
  "rb_status (persistQList q s) = rb_status s" "rb_store (persistQList q s) = rb_store s"
  "rb_timer (persistQList q s) = rb_timer s"
  "rb_cc (persistPList p s) = rb_cc s" "rb_vc (persistPList p s) = rb_vc s"
  "rb_status (persistPList p s) = rb_status s" "rb_store (persistPList p s) = rb_store s"
  "rb_timer (persistPList p s) = rb_timer s"
  by (simp_all add: persistQList_eq persistPList_eq)

lemma persistDelQPList_frame [simp]:
  "rb_cc (persistDelQPList E s) = rb_cc s" "rb_vc (persistDelQPList E s) = rb_vc s"
  "rb_status (persistDelQPList E s) = rb_status s" "rb_store (persistDelQPList E s) = rb_store s"
  "rb_timer (persistDelQPList E s) = rb_timer s"
  using persistDelQPList_eq [of E s] by auto

lemma persistDelQPCSet_frame [simp]:
  "rb_cc (persistDelQPCSet i s) = rb_cc s" "rb_vc (persistDelQPCSet i s) = rb_vc s"
  "rb_status (persistDelQPCSet i s) = rb_status s" "rb_store (persistDelQPCSet i s) = rb_store s"
  "rb_timer (persistDelQPCSet i s) = rb_timer s"
  by (simp_all add: persistDelQPCSet_def persistDelQSet_def persistDelPSet_def persistDelCSet_def split: prod.split)

lemma dropOldCerts_frame [simp]:
  "rb_cc (dropOldCerts s) = rb_cc s" "rb_vc (dropOldCerts s) = rb_vc s" "rb_status (dropOldCerts s) = rb_status s"
  "rb_timer (dropOldCerts s) = rb_timer s"
  unfolding dropOldCerts_def
     apply (rule fold_frame [where g = rb_cc], simp split: prod.split)
    apply (rule fold_frame [where g = rb_vc], simp split: prod.split)
   apply (rule fold_frame [where g = rb_status], simp split: prod.split)
  apply (rule fold_frame [where g = rb_timer], simp split: prod.split)
  done

lemma cleanCache_frame [simp]:
  "rb_cc (cleanCommittedCertCache h s) = rb_cc s" "rb_vc (cleanCommittedCertCache h s) = rb_vc s"
  "rb_status (cleanCommittedCertCache h s) = rb_status s" "rb_timer (cleanCommittedCertCache h s) = rb_timer s"
  by (simp_all add: cleanCommittedCertCache_def Let_def)

lemma emit_frame [simp]:
  "rb_cc (emit e s) = rb_cc s" "rb_vc (emit e s) = rb_vc s" "rb_status (emit e s) = rb_status s"
  "rb_store (emit e s) = rb_store s" "rb_timer (emit e s) = rb_timer s" "rb_out (emit e s) = rb_out s @ [e]"
  "rb_lastExec (emit e s) = rb_lastExec s" "rb_storage (emit e s) = rb_storage s" "rb_batch (emit e s) = rb_batch s"
  "rb_epoch (emit e s) = rb_epoch s"
  by (simp_all add: emit_def)

lemma broadcast_frame [simp]:
  "rb_cc (broadcast e s) = rb_cc s" "rb_vc (broadcast e s) = rb_vc s" "rb_status (broadcast e s) = rb_status s"
  "rb_store (broadcast e s) = rb_store s" "rb_timer (broadcast e s) = rb_timer s"
  "rb_lastExec (broadcast e s) = rb_lastExec s" "rb_batch (broadcast e s) = rb_batch s"
  "rb_epoch (broadcast e s) = rb_epoch s"
  by (simp_all add: broadcast_def)

lemma startTD:
  assumes "startT E n ev s = Some s'"
  obtains t where "s' = s\<lparr>rb_timer := t\<rparr>"
  using assms by (auto simp: startT_def)

lemma timer_frame [simp]:
  "rb_cc (stopT n s) = rb_cc s" "rb_vc (stopT n s) = rb_vc s" "rb_status (stopT n s) = rb_status s"
  "rb_store (stopT n s) = rb_store s" "rb_epoch (stopT n s) = rb_epoch s" "rb_lastExec (stopT n s) = rb_lastExec s"
  "rb_out (stopT n s) = rb_out s" "rb_batch (stopT n s) = rb_batch s" "rb_storage (stopT n s) = rb_storage s"
  by (simp_all add: stopT_def)

lemma status_act_frame [simp]:
  "rb_cc (ron p s) = rb_cc s" "rb_vc (ron p s) = rb_vc s" "rb_store (ron p s) = rb_store s"
  "rb_cc (roff p s) = rb_cc s" "rb_vc (roff p s) = rb_vc s" "rb_store (roff p s) = rb_store s"
  "rb_cc (raOn p s) = rb_cc s" "rb_vc (raOn p s) = rb_vc s" "rb_store (raOn p s) = rb_store s"
  "rb_cc (raOff p s) = rb_cc s" "rb_vc (raOff p s) = rb_vc s" "rb_store (raOff p s) = rb_store s"
  "rb_lastExec (ron p s) = rb_lastExec s" "rb_lastExec (roff p s) = rb_lastExec s"
  "rb_lastExec (raOn p s) = rb_lastExec s" "rb_lastExec (raOff p s) = rb_lastExec s"
  "rb_out (ron p s) = rb_out s" "rb_out (roff p s) = rb_out s"
  "rb_out (raOn p s) = rb_out s" "rb_out (raOff p s) = rb_out s"
  "rb_timer (ron p s) = rb_timer s" "rb_timer (roff p s) = rb_timer s"
  "rb_timer (raOn p s) = rb_timer s" "rb_timer (raOff p s) = rb_timer s"
  "rb_epoch (ron p s) = rb_epoch s" "rb_epoch (roff p s) = rb_epoch s"
  "rb_epoch (raOn p s) = rb_epoch s" "rb_epoch (raOff p s) = rb_epoch s"
  "rb_batch (ron p s) = rb_batch s" "rb_batch (roff p s) = rb_batch s"
  "rb_batch (raOn p s) = rb_batch s" "rb_batch (raOff p s) = rb_batch s"
  "rb_status (ron p s) = statusOn [p] (rb_status s)" "rb_status (roff p s) = statusOff [p] (rb_status s)"
  "rb_status (raOn p s) = atomicOn [p] (rb_status s)" "rb_status (raOff p s) = atomicOff [p] (rb_status s)"
  by (simp_all add: ron_def roff_def raOn_def raOff_def)

section \<open>Every view change raises the view\<close>

lemma setAbNormal_frame [simp]:
  "rb_cc (setAbNormal s) = rb_cc s" "rb_vc (setAbNormal s) = rb_vc s" "rb_store (setAbNormal s) = rb_store s"
  "rb_epoch (setAbNormal s) = rb_epoch s" "rb_lastExec (setAbNormal s) = rb_lastExec s"
  "rb_out (setAbNormal s) = rb_out s"
  "atomicIn (rb_status (setAbNormal s)) p = atomicIn (rb_status s) p"
  "statusIn (rb_status (setAbNormal s)) p =
     (p \<notin> {Normal, InSyncState, NeedSyncState} \<and> statusIn (rb_status s) p)"
  by (auto simp: setAbNormal_def exitSyncState_def stopBatchTimer_def Let_def)

lemma getVcBasis_D:
  assumes "getVcBasis E s = Some (b, s')"
  shows "vb_view b = cc_view (rb_cc s)" "vb_replicaId b = selfID s" "vb_h b = cc_H (rb_cc s)"
    "rb_cc s' = rb_cc s" "rb_status s' = rb_status s" "vm_viewChangeStore (rb_vc s') = vm_viewChangeStore (rb_vc s)"
    "vm_newViewStore (rb_vc s') = vm_newViewStore (rb_vc s)"
  using assms by (auto simp: getVcBasis_def Let_def split: prod.splits Option.bind_splits)

lemma beforeSendVC_D:
  assumes "beforeSendVC E r s = Some s'"
  shows "cc_view (rb_cc s') = cc_view (rb_cc s) + 1" "\<not> risNormal s'" "ratomicIn InViewChange s'"
    "cc_H (rb_cc s') = cc_H (rb_cc s)" "cc_selfID (rb_cc s') = cc_selfID (rb_cc s)"
    "vm_viewChangeStore (rb_vc s') = gkeep (\<lambda>(v, _) _. \<not> v < cc_view (rb_cc s) + 1) (vm_viewChangeStore (rb_vc s))"
    "vm_newViewStore (rb_vc s') = gdel (cc_view (rb_cc s) + 1) (vm_newViewStore (rb_vc s))"
proof -
  define s5 where "s5 = (let s1 = stopHighWatermarkTimer (stopFetchCheckpointTimer (stopT nullRequestTimer (stopNewViewTimer s)));
          s2 = setAbNormal (raOn InViewChange s1);
          s3 = rb_vc_update (vm_vcHandled_update (\<lambda>_. False)) s2;
          s4 = raOff InConfChange (rb_epoch_update (em_configBatchToCheck_update (\<lambda>_. None)) s3)
      in rb_epoch_update (em_configBatchInOrder_update (\<lambda>_. 0)) s4)"
  have fr: "rb_cc s5 = rb_cc s" "vm_viewChangeStore (rb_vc s5) = vm_viewChangeStore (rb_vc s)"
    "vm_newViewStore (rb_vc s5) = vm_newViewStore (rb_vc s)"
    "\<not> statusIn (rb_status s5) Normal" "atomicIn (rb_status s5) InViewChange"
    by (simp_all add: s5_def Let_def stopHighWatermarkTimer_def stopFetchCheckpointTimer_def stopNewViewTimer_def)
  obtain s6 where s6: "setViewGen E r (cc_view (rb_cc s) + 1) s5 = Some s6"
    and s': "s' = rb_vc_update (\<lambda>m.
             m\<lparr>vm_newViewStore := gdel (cc_view (rb_cc s6)) (vm_newViewStore m),
               vm_viewChangeStore := gkeep (\<lambda>(v, _) _. \<not> v < cc_view (rb_cc s6)) (vm_viewChangeStore m)\<rparr>) s6"
    using assms fr(1)
    by (cases r) (auto simp: beforeSendVC_def Let_def setView_def setViewWithRecovery_def s5_def split: option.splits)
  from s6 obtain i q where "s6 = s5\<lparr>rb_cc := (rb_cc s5)\<lparr>cc_dynInfo := i, cc_view := cc_view (rb_cc s) + 1, cc_primaryID := q\<rparr>\<rparr>"
    by (rule setViewGenD)
  then show "cc_view (rb_cc s') = cc_view (rb_cc s) + 1" "\<not> risNormal s'" "ratomicIn InViewChange s'"
    "cc_H (rb_cc s') = cc_H (rb_cc s)" "cc_selfID (rb_cc s') = cc_selfID (rb_cc s)"
    "vm_viewChangeStore (rb_vc s') = gkeep (\<lambda>(v, _) _. \<not> v < cc_view (rb_cc s) + 1) (vm_viewChangeStore (rb_vc s))"
    "vm_newViewStore (rb_vc s') = gdel (cc_view (rb_cc s) + 1) (vm_newViewStore (rb_vc s))"
    using fr s' by (simp_all add: risNormal_def isNormal_def ratomicIn_def)
qed

lemma sendViewChangeStart_D:
  assumes "sendViewChangeStart E r s = Some (Some vc, s')"
  shows "cc_view (rb_cc s') = cc_view (rb_cc s) + 1" "\<not> risNormal s'" "ratomicIn InViewChange s'"
    "vm_viewChangeStore (rb_vc s') = gkeep (\<lambda>(v, _) _. \<not> v < cc_view (rb_cc s) + 1) (vm_viewChangeStore (rb_vc s))"
    "\<exists>b. vc_basis vc = Some b \<and> vb_view b = cc_view (rb_cc s) + 1 \<and> vb_replicaId b = selfID s"
    "r \<or> \<not> rin waitCheckpointFinished s" "\<not> ratomicIn StateTransferring s"
proof -
  obtain s1 where s1: "beforeSendVC E r s = Some s1" and gate: "r \<or> \<not> rin waitCheckpointFinished s" "\<not> ratomicIn StateTransferring s"
    using assms by (auto simp: sendViewChangeStart_def split: if_splits Option.bind_splits)
  define s2 where "s2 = (if r then raOn InRecovery s1 else s1)"
  obtain b s3 where b: "getVcBasis E s2 = Some (b, s3)"
    using assms s1 gate by (auto simp: sendViewChangeStart_def Let_def s2_def split: if_splits Option.bind_splits)
  obtain sig s4 where sig: "signViewChange E b s3 = (Some sig, s4)"
    using assms s1 gate b
    by (auto simp: sendViewChangeStart_def Let_def s2_def split: if_splits Option.bind_splits option.splits prod.splits)
  then have s4: "s4 = s3" by (auto simp: signViewChange_def split: option.splits)
  obtain s5 where s5: "startT E vcResendTimer ViewChangeResendTimer
      (broadcast (MViewChange (ViewChange (Some b) sig 0 r)) s4) = Some s5"
    and s6: "startFetchViewTimer E s5 = Some s'" and vc: "vc = ViewChange (Some b) sig 0 r"
    using assms s1 gate b sig
    by (auto simp: sendViewChangeStart_def Let_def s2_def split: if_splits Option.bind_splits option.splits prod.splits)
  obtain t where "s5 = (broadcast (MViewChange (ViewChange (Some b) sig 0 r)) s4)\<lparr>rb_timer := t\<rparr>"
    using s5 by (rule startTD)
  moreover obtain t' where "s' = s5\<lparr>rb_timer := t'\<rparr>"
    using s6 unfolding startFetchViewTimer_def by (rule startTD)
  ultimately have fr: "rb_cc s' = rb_cc s3" "rb_vc s' = rb_vc s3" "rb_status s' = rb_status s3"
    by (simp_all add: s4)
  have f2: "rb_cc s2 = rb_cc s1" "rb_vc s2 = rb_vc s1" "\<not> risNormal s2" "ratomicIn InViewChange s2"
    using beforeSendVC_D [OF s1] by (auto simp: s2_def risNormal_def isNormal_def ratomicIn_def)
  show "cc_view (rb_cc s') = cc_view (rb_cc s) + 1" "\<not> risNormal s'" "ratomicIn InViewChange s'"
    "vm_viewChangeStore (rb_vc s') = gkeep (\<lambda>(v, _) _. \<not> v < cc_view (rb_cc s) + 1) (vm_viewChangeStore (rb_vc s))"
    "r \<or> \<not> rin waitCheckpointFinished s" "\<not> ratomicIn StateTransferring s"
    "\<exists>b. vc_basis vc = Some b \<and> vb_view b = cc_view (rb_cc s) + 1 \<and> vb_replicaId b = selfID s"
    using getVcBasis_D [OF b] f2 fr beforeSendVC_D [OF s1] gate vc
    by (simp_all add: risNormal_def ratomicIn_def selfID_def)
qed

lemma fold_least:
  assumes "\<forall>k \<in> set ks. fst k \<noteq> (0 :: u64)"
    and "r = fold (\<lambda>(v, _) m. if m = 0 \<or> v < m then v else m) ks m"
  shows "(r = m \<or> r \<in> fst ` set ks) \<and> (m \<noteq> 0 \<longrightarrow> r \<le> m) \<and> (\<forall>k \<in> set ks. r \<le> fst k) \<and> (r = 0 \<longrightarrow> ks = [])"
  using assms
proof (induction ks arbitrary: m)
  case (Cons k ks)
  obtain v i where k: "k = (v, i)" by (cases k)
  define m' where "m' = (if m = 0 \<or> v < m then v else m)"
  have "v \<noteq> 0" using Cons.prems(1) k by auto
  then have m': "m' \<noteq> 0" "m' \<le> v" "m \<noteq> 0 \<longrightarrow> m' \<le> m" "m' = v \<or> m' = m" by (auto simp: m'_def)
  have "r = fold (\<lambda>(v, _) m. if m = 0 \<or> v < m then v else m) ks m'"
    using Cons.prems(2) by (simp add: k m'_def)
  then have IH: "r = m' \<or> r \<in> fst ` set ks" "m' \<noteq> 0 \<longrightarrow> r \<le> m'" "\<forall>k \<in> set ks. r \<le> fst k" "r = 0 \<longrightarrow> ks = []"
    using Cons.IH [of m'] Cons.prems(1) by auto
  have "r \<noteq> 0" using IH(1) m'(1) Cons.prems(1) by auto
  moreover have "r \<le> v" "m \<noteq> 0 \<longrightarrow> r \<le> m" using IH(2) m' by (auto intro: order_trans)
  ultimately show ?case using IH(1,3) m'(4) by (auto simp: k)
qed simp

lemma minViewOf_least:
  assumes "ks \<noteq> []" "\<And>k. k \<in> set ks \<Longrightarrow> fst k \<noteq> 0"
  shows "minViewOf ks \<in> fst ` set ks" "k \<in> set ks \<Longrightarrow> minViewOf ks \<le> fst k"
  using fold_least [of ks "minViewOf ks" 0] assms by (auto simp: minViewOf_def)

definition recvStored :: "'p env \<Rightarrow> viewChange \<Rightarrow> vcBasis \<Rightarrow> 'p replica \<Rightarrow> 'p replica" where
  "recvStored E vc b s = dropExpired E (storeVC E vc b s)"

lemma recvStored_frame [simp]:
  "rb_cc (recvStored E vc b s) = rb_cc s" "rb_status (recvStored E vc b s) = rb_status s"
  by (simp_all add: recvStored_def dropExpired_def storeVC_def)

lemma recvStepE:
  assumes "recvViewChangeStep E vc ver s = Some (n, s2)"
  obtains b where "vc_basis vc = Some b" and
    "(n = VCReturn None \<and> s2 = s)
     \<or> (n = VCReturn None \<and> s2 = sendRecoveryResponse E (vb_replicaId b) s \<and> vc_recovery vc \<and> risNormal s
         \<and> vb_view b < cc_view (rb_cc s))
     \<or> (vb_view b \<ge> cc_view (rb_cc s) \<and> correctViewChange b = Some True
         \<and> (ver \<or> verifySignedViewChange E vc (vb_replicaId b)) \<and>
       (let s1 = recvStored E vc b s in
         (n = VCSend \<and> card (snd ` set (higherVC s1)) \<ge> oneCorrectQuorum (rb_cc s1)
            \<and> setView E (minViewOf (higherVC s1) - 1) s1 = Some s2)
         \<or> (n = VCReturn (Some (LocalEvent ViewChangeQuorum)) \<and> ratomicIn InViewChange s1
            \<and> vb_view b = cc_view (rb_cc s1) \<and> List.length (currentVC s1) \<ge> commonCaseQuorum (rb_cc s1)
            \<and> quorumReached E (vb_view b) s1 = Some s2)
         \<or> (n = VCSend \<and> risNormal s1 \<and> isPrimary (vb_replicaId b) s1 \<and> s2 = s1)
         \<or> (n = VCReturn None \<and> (s2 = s1 \<or> s2 = sendRecoveryResponse E (vb_replicaId b) s1))))"
proof -
  obtain b where b: "vc_basis vc = Some b" using assms by (auto simp: recvViewChangeStep_def split: option.splits)
  show ?thesis
    apply (rule that [OF b])
    using assms b
    by (auto simp: recvViewChangeStep_def Let_def recvStored_def not_less
        split: if_splits option.splits bool.splits)
qed

lemma word_succ_less: "a \<noteq> - 1 \<Longrightarrow> a < a + (1 :: u64)"
  using inc_less_eq_self_iff_eq [of a] by (simp add: not_le)

lemma word_succ_le: "a \<noteq> - 1 \<Longrightarrow> a \<le> a + (1 :: u64)"
  by (rule less_imp_le) (rule word_succ_less)

definition vcRank :: "'p replica \<Rightarrow> nat" where
  \<comment> \<open>the stored view changes that a \<open>sendViewChange\<close> of this state does not reach yet\<close>
  "vcRank s = card {k \<in> fst ` set (vm_viewChangeStore (rb_vc s)). fst k > cc_view (rb_cc s) + 1}"

lemma keys_gput [simp]: "fst ` set (gput k v m) = insert k (fst ` set m)"
  by (simp add: gput_def dom_update)

lemma keys_gkeep: "fst ` set (gkeep P m) \<subseteq> fst ` set m"
  by (auto simp: gkeep_def)

lemma storeVC_keys:
  "fst ` set (vm_viewChangeStore (rb_vc (storeVC E vc b s)))
     \<subseteq> insert (vb_view b, vb_replicaId b) (fst ` set (vm_viewChangeStore (rb_vc s)))"
  by (cases "CheckValidator (rb_cc s) (vb_replicaId b)") (simp_all add: storeVC_def subset_insertI)

lemma recvStored_keys:
  "fst ` set (vm_viewChangeStore (rb_vc (recvStored E vc b s)))
     \<subseteq> insert (vb_view b, vb_replicaId b) (fst ` set (vm_viewChangeStore (rb_vc s)))"
proof -
  let ?s = "storeVC E vc b s"
  have "vm_viewChangeStore (rb_vc (recvStored E vc b s)) =
      gkeep (\<lambda>_ vc. \<not> vc_timestamp vc + timeoutOf cleanViewChangeTimer ?s < en_now E) (vm_viewChangeStore (rb_vc ?s))"
    by (simp add: recvStored_def dropExpired_def)
  then show ?thesis by (simp only:) (rule subset_trans [OF keys_gkeep storeVC_keys])
qed

lemma word_pred_facts:
  fixes a m :: u64
  assumes "a < m"
  shows "a \<le> m - 1" "m - 1 \<noteq> - 1" "m - 1 + 1 = m"
proof -
  have "m \<noteq> 0" using assms by auto
  then have um: "unat (m - 1) = unat m - 1" by (simp add: unat_minus_one)
  show "a \<le> m - 1" using assms um by (simp add: word_le_nat_alt word_less_nat_alt)
  show "m - 1 \<noteq> - 1" using \<open>m \<noteq> 0\<close> by simp
  show "m - 1 + 1 = m" by simp
qed

lemma higherVC_min:
  assumes "higherVC s \<noteq> []"
  shows "minViewOf (higherVC s) > cc_view (rb_cc s)"
    "minViewOf (higherVC s) \<in> fst ` fst ` set (vm_viewChangeStore (rb_vc s))"
proof -
  have pos: "fst k \<noteq> 0" if "k \<in> set (higherVC s)" for k
    using that by (auto simp: higherVC_def)
  have "minViewOf (higherVC s) \<in> fst ` set (higherVC s)" using minViewOf_least(1) [OF assms pos] .
  then show "minViewOf (higherVC s) > cc_view (rb_cc s)"
    "minViewOf (higherVC s) \<in> fst ` fst ` set (vm_viewChangeStore (rb_vc s))"
    by (force simp: higherVC_def)+
qed

lemma sendViewChange_decreases:
  assumes "sendViewChangeStart E r s = Some (Some vc, s1)" "recvViewChangeStep E vc True s1 = Some (VCSend, s2)"
  shows "vcRank s2 < vcRank s" "cc_view (rb_cc s2) \<ge> cc_view (rb_cc s) + 1"
    "ratomicIn InViewChange s2" "\<not> risNormal s2" "cc_view (rb_cc s2) \<noteq> - 1"
proof -
  note st = sendViewChangeStart_D [OF assms(1)]
  obtain b where b: "vc_basis vc = Some b" "vb_view b = cc_view (rb_cc s) + 1" using st(5) by blast
  define s1' where "s1' = recvStored E vc b s1"
  from assms(2) b(1) have f: "card (snd ` set (higherVC s1')) \<ge> oneCorrectQuorum (rb_cc s1')"
    "setView E (minViewOf (higherVC s1') - 1) s1' = Some s2"
    using st(2) by (auto elim!: recvStepE simp: Let_def s1'_def risNormal_def)
  then have ne: "higherVC s1' \<noteq> []" by (auto simp: oneCorrectQuorum_def)
  define m where "m = minViewOf (higherVC s1')"
  obtain i p where s2: "s2 = s1'\<lparr>rb_cc := (rb_cc s1')\<lparr>cc_dynInfo := i, cc_view := m - 1, cc_primaryID := p\<rparr>\<rparr>"
    using f(2) unfolding setView_def m_def by (rule setViewGenD)
  have m: "m > cc_view (rb_cc s) + 1" "m \<in> fst ` fst ` set (vm_viewChangeStore (rb_vc s1'))"
    using higherVC_min [OF ne] st(1) by (simp_all add: m_def s1'_def)
  then show "cc_view (rb_cc s2) \<ge> cc_view (rb_cc s) + 1" "cc_view (rb_cc s2) \<noteq> - 1"
    using word_pred_facts [OF m(1)] by (simp_all add: s2)
  show "ratomicIn InViewChange s2" "\<not> risNormal s2"
    using st(2,3) by (simp_all add: s2 s1'_def ratomicIn_def risNormal_def)
  let ?K = "\<lambda>s. fst ` set (vm_viewChangeStore (rb_vc s))"
  have "?K s1' \<subseteq> insert (vb_view b, vb_replicaId b) (?K s1)"
    unfolding s1'_def by (rule recvStored_keys)
  moreover have "?K s1 \<subseteq> ?K s" unfolding st(4) by (rule keys_gkeep)
  ultimately have sub: "?K s1' \<subseteq> insert (cc_view (rb_cc s) + 1, vb_replicaId b) (?K s)"
    unfolding b(2) by blast
  have K2: "?K s2 = ?K s1'" by (simp add: s2)
  define w A B where "w = cc_view (rb_cc s) + 1" and "A = ?K s" and "B = ?K s1'"
  have sub': "B \<subseteq> insert (w, vb_replicaId b) A" and mw: "m > w" and mB: "m \<in> fst ` B"
    using sub m by (simp_all add: w_def A_def B_def)
  have "{k \<in> B. fst k > m} \<subset> {k \<in> A. fst k > w}"
  proof (rule psubsetI)
    have in_A: "k \<in> A \<and> fst k > w" if "k \<in> B" "fst k \<ge> m" for k
    proof -
      have "fst k > w" using that(2) mw by (rule order_less_le_trans [rotated])
      moreover have "k = (w, vb_replicaId b) \<or> k \<in> A" using that(1) sub' by blast
      ultimately show ?thesis by auto
    qed
    then show "{k \<in> B. fst k > m} \<subseteq> {k \<in> A. fst k > w}" "{k \<in> B. fst k > m} \<noteq> {k \<in> A. fst k > w}"
      using mB by force+
  qed
  then show "vcRank s2 < vcRank s"
    unfolding vcRank_def K2 w_def A_def B_def by (intro psubset_card_mono) (simp_all add: s2)
qed

section \<open>\<open>sendViewChange\<close> and \<open>recvViewChange\<close>\<close>

function sendViewChange :: "'p env \<Rightarrow> bool \<Rightarrow> 'p handler" where
  "sendViewChange E recovery s =
     (case sendViewChangeStart E recovery s of
        None \<Rightarrow> None
      | Some (None, s1) \<Rightarrow> Some (None, s1)
      | Some (Some vc, s1) \<Rightarrow>
          (case recvViewChangeStep E vc True s1 of
             None \<Rightarrow> None
           | Some (VCReturn e, s2) \<Rightarrow> Some (e, s2)
           | Some (VCSend, s2) \<Rightarrow> sendViewChange E False s2))"
  by pat_completeness auto
termination
  by (relation "measure (\<lambda>(E, r, s). vcRank s)") (auto dest: sendViewChange_decreases(1))

declare sendViewChange.simps [simp del]

lemma sendViewChange_rel:
  \<comment> \<open>a transitive relation that holds over both parts of a round holds over the whole\<close>
  assumes "sendViewChange E r s = Some (e, s')"
    and "\<And>r s ovc t. sendViewChangeStart E r s = Some (ovc, t) \<Longrightarrow> R s t"
    and "\<And>vc s n t. recvViewChangeStep E vc True s = Some (n, t) \<Longrightarrow> R s t"
    and "\<And>s t u. R s t \<Longrightarrow> R t u \<Longrightarrow> R s u"
  shows "R s s'"
  using assms
proof (induction E r s arbitrary: e s' rule: sendViewChange.induct)
  case (1 E r s)
  note call = "1.prems"(1) and start = "1.prems"(2) and step = "1.prems"(3) and trans = "1.prems"(4)
  from call obtain ovc s1 where s1: "sendViewChangeStart E r s = Some (ovc, s1)"
    by (subst (asm) sendViewChange.simps) (auto split: option.splits)
  show ?case
  proof (cases ovc)
    case None
    then show ?thesis using call s1 start [OF s1] by (subst (asm) sendViewChange.simps) simp
  next
    case (Some vc)
    obtain n s2 where s2: "recvViewChangeStep E vc True s1 = Some (n, s2)"
      using call s1 Some by (subst (asm) sendViewChange.simps) (auto split: option.splits)
    have R2: "R s s2" using trans [OF start [OF s1] step [OF s2]] .
    show ?thesis
    proof (cases n)
      case (VCReturn e')
      then show ?thesis using call s1 s2 Some R2 by (subst (asm) sendViewChange.simps) simp
    next
      case VCSend
      have "sendViewChange E False s2 = Some (e, s')"
        using call s1 s2 Some VCSend by (subst (asm) sendViewChange.simps) simp
      from "1.IH" [OF s1 refl Some s2 refl VCSend this start step trans] have "R s2 s'" .
      then show ?thesis by (rule trans [OF R2])
    qed
  qed
qed

definition recvViewChange :: "'p env \<Rightarrow> viewChange \<Rightarrow> bool \<Rightarrow> 'p handler" where
  "recvViewChange E vc verified s =
     (case recvViewChangeStep E vc verified s of
        None \<Rightarrow> None
      | Some (VCReturn e, s1) \<Rightarrow> Some (e, s1)
      | Some (VCSend, s1) \<Rightarrow> sendViewChange E False s1)"

lemma recvViewChange_rel:
  assumes "recvViewChange E vc v s = Some (e, s')"
    and start: "\<And>r s ovc t. sendViewChangeStart E r s = Some (ovc, t) \<Longrightarrow> R s t"
    and step: "\<And>vc v s n t. recvViewChangeStep E vc v s = Some (n, t) \<Longrightarrow> R s t"
    and trans: "\<And>s t u. R s t \<Longrightarrow> R t u \<Longrightarrow> R s u"
  shows "R s s'"
proof -
  obtain n s1 where s1: "recvViewChangeStep E vc v s = Some (n, s1)"
    using assms(1) by (auto simp: recvViewChange_def split: option.splits)
  show ?thesis
  proof (cases n)
    case (VCReturn e')
    then show ?thesis using assms(1) s1 step [OF s1] by (simp add: recvViewChange_def)
  next
    case VCSend
    then have "sendViewChange E False s1 = Some (e, s')" using assms(1) s1 by (simp add: recvViewChange_def)
    then have "R s1 s'" by (rule sendViewChange_rel) (fact start, fact step, fact trans)
    then show ?thesis by (rule trans [OF step [OF s1]])
  qed
qed

definition initRecovery :: "'p env \<Rightarrow> 'p handler" where
  "initRecovery E = sendViewChange E True"

definition vcGated :: "bool \<Rightarrow> 'p replica \<Rightarrow> bool" where
  "vcGated r s = ((\<not> r \<and> rin waitCheckpointFinished s) \<or> ratomicIn StateTransferring s)"

lemma sendViewChangeStart_stop:
  assumes "sendViewChangeStart E r s = Some (None, s')"
  shows "vcGated r s \<and> s' = s
    \<or> cc_view (rb_cc s') = cc_view (rb_cc s) + 1 \<and> \<not> risNormal s' \<and> ratomicIn InViewChange s'"
proof (cases "vcGated r s")
  case True
  then show ?thesis using assms by (auto simp: sendViewChangeStart_def vcGated_def split: if_splits)
next
  case False
  then obtain s1 where s1: "beforeSendVC E r s = Some s1"
    using assms by (auto simp: sendViewChangeStart_def vcGated_def split: if_splits Option.bind_splits)
  define s2 where "s2 = (if r then raOn InRecovery s1 else s1)"
  obtain b s3 where b: "getVcBasis E s2 = Some (b, s3)"
    using assms s1 False
    by (auto simp: sendViewChangeStart_def vcGated_def Let_def s2_def split: if_splits Option.bind_splits)
  have "s' = stopNamespace s3"
    using assms s1 False b
    by (auto simp: sendViewChangeStart_def vcGated_def Let_def s2_def signViewChange_def
        split: if_splits Option.bind_splits option.splits prod.splits)
  moreover have "rb_cc s2 = rb_cc s1" "\<not> risNormal s2" "ratomicIn InViewChange s2"
    using beforeSendVC_D [OF s1] by (auto simp: s2_def risNormal_def isNormal_def ratomicIn_def)
  ultimately show ?thesis
    using getVcBasis_D [OF b] beforeSendVC_D [OF s1]
    by (simp add: stopNamespace_def risNormal_def ratomicIn_def)
qed

lemma recvStep_return_frame:
  assumes "recvViewChangeStep E vc v s = Some (VCReturn e, s')"
  shows "cc_view (rb_cc s') = cc_view (rb_cc s) \<and> rb_status s' = rb_status s"
proof -
  have u: "cc_view (rb_cc (unicast E p i t)) = cc_view (rb_cc t) \<and> rb_status (unicast E p i t) = rb_status t" for p i and t :: "'a replica"
    by (auto simp: unicast_def getNodeInfo_def unicastByP2PID_def split: option.splits prod.splits)
  have q: "rb_cc t' = rb_cc t \<and> rb_status t' = rb_status t" if "quorumReached E w t = Some t'" for w and t t' :: "'a replica"
    using that by (auto simp: quorumReached_def softStartNewViewTimer_def softStartT_def split: Option.bind_splits)
  from assms show ?thesis
    by (auto elim!: recvStepE simp: Let_def sendRecoveryResponse_def u dest!: q)
qed

lemma sendViewChange_view:
  assumes "sendViewChange E r s = Some (e, s')"
  shows "vcGated r s \<and> s' = s \<and> e = None
    \<or> cc_view (rb_cc s') \<ge> cc_view (rb_cc s) + 1 \<and> ratomicIn InViewChange s' \<and> \<not> risNormal s'"
  using assms
proof (induction E r s arbitrary: e s' rule: sendViewChange.induct)
  case (1 E r s)
  from "1.prems" obtain ovc s1 where start: "sendViewChangeStart E r s = Some (ovc, s1)"
    by (subst (asm) sendViewChange.simps) (auto split: option.splits)
  show ?case
  proof (cases ovc)
    case None
    then have "e = None" "s' = s1" using "1.prems" start by (subst (asm) sendViewChange.simps; simp)+
    then show ?thesis using sendViewChangeStart_stop start None by fastforce
  next
    case (Some vc)
    note st = sendViewChangeStart_D [OF start [unfolded Some]]
    obtain n s2 where step: "recvViewChangeStep E vc True s1 = Some (n, s2)"
      using "1.prems" start Some by (subst (asm) sendViewChange.simps) (auto split: option.splits)
    show ?thesis
    proof (cases n)
      case (VCReturn e')
      then have "s' = s2" using "1.prems" start Some step by (subst (asm) sendViewChange.simps) simp
      then show ?thesis
        using recvStep_return_frame step VCReturn st(1-3) by (fastforce simp: risNormal_def ratomicIn_def)
    next
      case VCSend
      note dec = sendViewChange_decreases [OF start [unfolded Some] step [unfolded VCSend]]
      have "sendViewChange E False s2 = Some (e, s')"
        using "1.prems" start Some step VCSend by (subst (asm) sendViewChange.simps) simp
      then have "vcGated False s2 \<and> s' = s2 \<and> e = None
         \<or> cc_view (rb_cc s') \<ge> cc_view (rb_cc s2) + 1 \<and> ratomicIn InViewChange s' \<and> \<not> risNormal s'"
        using "1.IH" start Some step VCSend by simp
      moreover have "cc_view (rb_cc s2) \<le> cc_view (rb_cc s2) + 1"
        using dec(5) by (rule word_succ_le)
      ultimately show ?thesis using dec(2-4) by (auto intro: order_trans)
    qed
  qed
qed

text \<open>C18. A view change that is not held back (by a pending checkpoint or a running state transfer)
  and that returns leaves the replica in a strictly higher view, in view-change status and not normal,
  whatever view changes of others it finds stored on the way. That \<open>sendViewChange\<close> returns at all,
  although it and \<open>recvViewChange\<close> call each other, is the termination proof of the definition.\<close>

theorem sendViewChange_raises_view:
  assumes "sendViewChange E r s = Some (e, s')" "\<not> vcGated r s" "cc_view (rb_cc s) \<noteq> - 1"
  shows "cc_view (rb_cc s) < cc_view (rb_cc s') \<and> ratomicIn InViewChange s' \<and> \<not> risNormal s'"
  using sendViewChange_view [OF assms(1)] assms(2) word_succ_less [OF assms(3)]
  by (auto intro: order_less_le_trans)

definition sampleRotating :: "unit replica" where
  \<comment> \<open>the sample with the other way to choose a primary\<close>
  "sampleRotating = rb_cc_update (cc_epochInfo_update (ei_params_update
     (cp_proposerElectionType_update (\<lambda>_. ProposerElectionTypeAbnormalRotation)))) sampleReplica"

lemma sampleRotating_sends:
  "map_option (\<lambda>(e, s). cc_view (rb_cc s)) (sendViewChange sampleEnv False sampleRotating) = Some 2"
  by code_simp

theorem sendViewChange_raises_view_witness:
  "\<exists>e s'. sendViewChange sampleEnv False sampleRotating = Some (e, s') \<and> 1 < cc_view (rb_cc s') \<and> \<not> risNormal s'"
proof -
  obtain e s' where r: "sendViewChange sampleEnv False sampleRotating = Some (e, s')"
    using sampleRotating_sends by auto
  have "\<not> vcGated False sampleRotating" "cc_view (rb_cc sampleRotating) = 1"
    by (simp_all add: sampleRotating_def vcGated_def rin_def ratomicIn_def)
  then show ?thesis using sendViewChange_raises_view [OF r] r by auto
qed

section \<open>A quorum of view changes is a quorum of replicas\<close>

definition vcStoreOk :: "'p replica \<Rightarrow> bool" where
  "vcStoreOk s = (gwf (vm_viewChangeStore (rb_vc s)) \<and>
     (\<forall>((v, i), vc) \<in> set (vm_viewChangeStore (rb_vc s)).
        \<exists>b. vc_basis vc = Some b \<and> vb_view b = v \<and> vb_replicaId b = i \<and> correctViewChange b = Some True))"

definition vcSender :: "viewChange \<Rightarrow> u64" where
  "vcSender vc = (case vc_basis vc of None \<Rightarrow> 0 | Some b \<Rightarrow> vb_replicaId b)"

definition vcView :: "viewChange \<Rightarrow> u64" where
  "vcView vc = (case vc_basis vc of None \<Rightarrow> 0 | Some b \<Rightarrow> vb_view b)"

lemma vcStoreOk_cong: "vm_viewChangeStore (rb_vc s) = vm_viewChangeStore (rb_vc t) \<Longrightarrow> vcStoreOk s = vcStoreOk t"
  by (simp add: vcStoreOk_def)

lemma vcStoreOk_gkeep:
  "vcStoreOk s \<Longrightarrow> vm_viewChangeStore (rb_vc t) = gkeep P (vm_viewChangeStore (rb_vc s)) \<Longrightarrow> vcStoreOk t"
  by (auto simp: vcStoreOk_def gkeep_def gwf_gkeep [unfolded gkeep_def])

lemma recvStored_ok:
  assumes "vcStoreOk s" "vc_basis vc = Some b" "correctViewChange b = Some True"
  shows "vcStoreOk (recvStored E vc b s)"
proof -
  have "vcStoreOk (storeVC E vc b s)"
    using assms set_gput [of "vm_viewChangeStore (rb_vc s)"] by (fastforce simp: vcStoreOk_def storeVC_def)
  then show ?thesis
    unfolding recvStored_def by (rule vcStoreOk_gkeep) (simp add: dropExpired_def)
qed

lemma currentVC_distinct:
  assumes "vcStoreOk s"
  shows "distinct (map vcSender (currentVC s)) \<and> (\<forall>vc \<in> set (currentVC s). vcView vc = cc_view (rb_cc s))"
proof -
  let ?L = "filter (\<lambda>((v, _), _). v = cc_view (rb_cc s)) (vm_viewChangeStore (rb_vc s))"
  have send: "vcSender (snd e) = snd (fst e) \<and> vcView (snd e) = cc_view (rb_cc s) \<and> fst (fst e) = cc_view (rb_cc s)"
    if "e \<in> set ?L" for e
    using that assms by (fastforce simp: vcStoreOk_def vcSender_def vcView_def)
  have snd_distinct: "distinct (map (snd \<circ> fst) L)"
    if "distinct (map fst L)" "\<forall>e \<in> set L. fst (fst e) = c" for L :: "((u64 \<times> u64) \<times> viewChange) list" and c
  proof (rule distinct_map [THEN iffD2], intro conjI)
    show "distinct L" using that(1) by (simp add: distinct_map)
    show "inj_on (snd \<circ> fst) (set L)"
    proof (rule inj_onI)
      fix x y assume xy: "x \<in> set L" "y \<in> set L" "(snd \<circ> fst) x = (snd \<circ> fst) y"
      then have "fst x = fst y" using that(2) by (auto simp: prod_eq_iff)
      then show "x = y" using that(1) xy(1,2) by (simp add: distinct_map inj_on_def)
    qed
  qed
  have "map vcSender (currentVC s) = map (snd \<circ> fst) ?L"
    using send by (simp add: currentVC_def)
  moreover have "distinct (map fst ?L)"
    using assms unfolding vcStoreOk_def gwf_def by (intro distinct_map_filter) blast
  ultimately have "distinct (map vcSender (currentVC s))"
    using snd_distinct [of ?L "cc_view (rb_cc s)"] send by simp
  moreover have "\<forall>vc \<in> set (currentVC s). vcView vc = cc_view (rb_cc s)"
    using send by (auto simp: currentVC_def)
  ultimately show ?thesis ..
qed

lemma currentVC_correct:
  assumes "vcStoreOk s" "vc \<in> set (currentVC s)"
  shows "\<exists>b. vc_basis vc = Some b \<and> correctViewChange b = Some True"
  using assms by (fastforce simp: vcStoreOk_def currentVC_def)

definition quorumAnnounced :: "'p replica \<Rightarrow> bool" where
  "quorumAnnounced s = (\<exists>vcs. vm_latestQuorumViewChange (rb_vc s) = Some (cc_view (rb_cc s), vcs) \<and>
     commonCaseQuorum (rb_cc s) \<le> List.length vcs \<and> distinct (map vcSender vcs) \<and>
     (\<forall>vc \<in> set vcs. vcView vc = cc_view (rb_cc s) \<and> (\<exists>b. vc_basis vc = Some b \<and> correctViewChange b = Some True)))"

lemma quorumReached_D:
  assumes "quorumReached E w s = Some s'"
  shows "rb_cc s' = rb_cc s" "vm_viewChangeStore (rb_vc s') = vm_viewChangeStore (rb_vc s)"
    "vm_latestQuorumViewChange (rb_vc s') = Some (w, currentVC s)"
proof -
  obtain s1 where s1: "softStartNewViewTimer E (vm_lastNewViewTimeout (rb_vc s)) True (stopT vcResendTimer s) = Some s1"
    and s': "s' = rb_vc_update (\<lambda>m. m\<lparr>vm_lastNewViewTimeout := grownTimeout s1 (vm_lastNewViewTimeout m),
             vm_latestQuorumViewChange := Some (w, currentVC s1)\<rparr>) s1"
    using assms by (auto simp: quorumReached_def split: Option.bind_splits)
  from s1 have "rb_cc s1 = rb_cc s \<and> rb_vc s1 = rb_vc s"
    by (auto simp: softStartNewViewTimer_def softStartT_def)
  then show "rb_cc s' = rb_cc s" "vm_viewChangeStore (rb_vc s') = vm_viewChangeStore (rb_vc s)"
    "vm_latestQuorumViewChange (rb_vc s') = Some (w, currentVC s)"
    by (simp_all add: s' currentVC_def)
qed

lemma recvStep_ok:
  assumes "recvViewChangeStep E vc v s = Some (n, s')" "vcStoreOk s"
  shows "vcStoreOk s' \<and> (n = VCReturn (Some (LocalEvent ViewChangeQuorum)) \<longrightarrow> quorumAnnounced s')"
proof -
  have resp: "vm_viewChangeStore (rb_vc (sendRecoveryResponse E i t)) = vm_viewChangeStore (rb_vc t)" for i and t :: "'a replica"
    by (auto simp: sendRecoveryResponse_def unicast_def getNodeInfo_def unicastByP2PID_def split: option.splits prod.splits)
  from assms(1) obtain b where b: "vc_basis vc = Some b" and cases:
    "n = VCReturn None \<and> (s' = s \<or> s' = sendRecoveryResponse E (vb_replicaId b) s) \<or> correctViewChange b = Some True \<and>
     (let s1 = recvStored E vc b s in
       n = VCSend \<and> (s' = s1 \<or> setView E (minViewOf (higherVC s1) - 1) s1 = Some s') \<or>
       n = VCReturn None \<and> (s' = s1 \<or> s' = sendRecoveryResponse E (vb_replicaId b) s1) \<or>
       vb_view b = cc_view (rb_cc s1) \<and> List.length (currentVC s1) \<ge> commonCaseQuorum (rb_cc s1) \<and>
         quorumReached E (vb_view b) s1 = Some s')"
    by (rule recvStepE) (auto simp: Let_def)
  define s1 where "s1 = recvStored E vc b s"
  have ok1: "vcStoreOk s1" if "correctViewChange b = Some True" unfolding s1_def by (rule recvStored_ok [OF assms(2) b that])
  consider "n = VCReturn None" "s' = s \<or> s' = sendRecoveryResponse E (vb_replicaId b) s"
    | "correctViewChange b = Some True" "n = VCReturn None" "s' = s1 \<or> s' = sendRecoveryResponse E (vb_replicaId b) s1"
    | "correctViewChange b = Some True" "n = VCSend" "s' = s1 \<or> setView E (minViewOf (higherVC s1) - 1) s1 = Some s'"
    | "correctViewChange b = Some True" "vb_view b = cc_view (rb_cc s1)"
      "List.length (currentVC s1) \<ge> commonCaseQuorum (rb_cc s1)" "quorumReached E (vb_view b) s1 = Some s'"
    using cases by (auto simp: Let_def s1_def)
  then show ?thesis
  proof cases
    case 1
    then show ?thesis using assms(2) resp vcStoreOk_cong by (metis option.distinct(1) vcNext.inject)
  next
    case 2
    then show ?thesis using ok1 resp vcStoreOk_cong by (metis option.distinct(1) vcNext.inject)
  next
    case 3
    then have "rb_vc s' = rb_vc s1"
      unfolding setView_def by (auto elim!: setViewGenD)
    then have "vcStoreOk s' = vcStoreOk s1" by (simp add: vcStoreOk_def)
    then show ?thesis using 3(2) ok1 [OF 3(1)] by simp
  next
    case 4
    note q = quorumReached_D [OF 4(4)]
    have "quorumAnnounced s'"
      using currentVC_distinct [OF ok1] currentVC_correct [OF ok1] 4(1-3) q by (auto simp: quorumAnnounced_def)
    then show ?thesis using ok1 [OF 4(1)] q(2) vcStoreOk_cong by blast
  qed
qed

lemma sendViewChangeStart_ok:
  assumes "sendViewChangeStart E r s = Some (ovc, s')" "vcStoreOk s"
  shows "vcStoreOk s'"
proof (cases "vcGated r s")
  case True
  then show ?thesis using assms by (auto simp: sendViewChangeStart_def vcGated_def split: if_splits)
next
  case False
  then obtain s1 where s1: "beforeSendVC E r s = Some s1"
    using assms by (auto simp: sendViewChangeStart_def vcGated_def split: if_splits Option.bind_splits)
  define s2 where "s2 = (if r then raOn InRecovery s1 else s1)"
  obtain b s3 where b: "getVcBasis E s2 = Some (b, s3)"
    using assms s1 False
    by (auto simp: sendViewChangeStart_def vcGated_def Let_def s2_def split: if_splits Option.bind_splits)
  have "rb_vc s' = rb_vc s3"
    using assms s1 False b
    by (auto simp: sendViewChangeStart_def vcGated_def Let_def s2_def signViewChange_def stopNamespace_def
        startFetchViewTimer_def split: if_splits Option.bind_splits option.splits prod.splits elim!: startTD)
  moreover have "rb_vc s2 = rb_vc s1" by (simp add: s2_def)
  ultimately have "vm_viewChangeStore (rb_vc s') =
      gkeep (\<lambda>(v, _) _. \<not> v < cc_view (rb_cc s) + 1) (vm_viewChangeStore (rb_vc s))"
    using getVcBasis_D(6) [OF b] beforeSendVC_D(6) [OF s1] by simp
  then show ?thesis using vcStoreOk_gkeep assms(2) by blast
qed

lemma sendViewChange_ok:
  assumes "sendViewChange E r s = Some (e, s')" "vcStoreOk s"
  shows "vcStoreOk s' \<and> (e = Some (LocalEvent ViewChangeQuorum) \<longrightarrow> quorumAnnounced s')"
  using assms
proof (induction E r s arbitrary: e s' rule: sendViewChange.induct)
  case (1 E r s)
  from "1.prems" obtain ovc s1 where start: "sendViewChangeStart E r s = Some (ovc, s1)"
    by (subst (asm) sendViewChange.simps) (auto split: option.splits)
  have ok1: "vcStoreOk s1" using sendViewChangeStart_ok [OF start "1.prems"(2)] .
  show ?case
  proof (cases ovc)
    case None
    then have "e = None" "s' = s1" using "1.prems"(1) start by (subst (asm) sendViewChange.simps; simp)+
    then show ?thesis using ok1 by simp
  next
    case (Some vc)
    obtain n s2 where step: "recvViewChangeStep E vc True s1 = Some (n, s2)"
      using "1.prems"(1) start Some by (subst (asm) sendViewChange.simps) (auto split: option.splits)
    note ok2 = recvStep_ok [OF step ok1]
    show ?thesis
    proof (cases n)
      case (VCReturn e')
      then have "s' = s2" "e = e'" using "1.prems"(1) start Some step by (subst (asm) sendViewChange.simps; simp)+
      then show ?thesis using ok2 VCReturn by simp
    next
      case VCSend
      have "sendViewChange E False s2 = Some (e, s')"
        using "1.prems"(1) start Some step VCSend by (subst (asm) sendViewChange.simps) simp
      then show ?thesis using "1.IH" start Some step VCSend ok2 by simp
    qed
  qed
qed

text \<open>C16. Receiving a view change keeps the store of view changes indexed by the view and the sender of
  what it holds, and when the replica announces a quorum of view changes, the announced list holds at
  least \<open>commonCaseQuorum\<close> view changes, all for the current view, from pairwise distinct replicas and with
  entries of lower views above their own low watermark, at or above which their checkpoints are.\<close>

theorem recvViewChange_quorum:
  assumes "recvViewChange E vc verified s = Some (e, s')" "vcStoreOk s"
  shows "vcStoreOk s' \<and> (e = Some (LocalEvent ViewChangeQuorum) \<longrightarrow> quorumAnnounced s')"
proof -
  obtain n s1 where step: "recvViewChangeStep E vc verified s = Some (n, s1)"
    using assms(1) by (auto simp: recvViewChange_def split: option.splits)
  note ok = recvStep_ok [OF step assms(2)]
  then show ?thesis
    using assms(1) step sendViewChange_ok [of E False s1 e s']
    by (cases n) (auto simp: recvViewChange_def)
qed

definition sampleVC :: "u64 \<Rightarrow> viewChange" where
  "sampleVC i = ViewChange (Some (VcBasis i 2 0 [] [] [] [] [])) [] 0 False"

definition sampleLeaving :: "unit replica" where
  \<comment> \<open>the sample in view 2, in view-change status, with the view changes of replicas 1 and 3\<close>
  "sampleLeaving = rb_vc_update (vm_viewChangeStore_update (\<lambda>_.
     [((2, 1), ViewChange (Some (VcBasis 1 2 0 [] [] [] [] [])) [] 1000 False),
      ((2, 3), ViewChange (Some (VcBasis 3 2 0 [] [] [] [] [])) [] 1000 False)]))
     (raOn InViewChange (roff Normal (rb_cc_update (cc_view_update (\<lambda>_. 2)) sampleReplica)))"

lemma sampleLeaving_quorum:
  "map_option fst (recvViewChange sampleEnv (sampleVC 4) False sampleLeaving) = Some (Some (LocalEvent ViewChangeQuorum))"
  by code_simp

theorem recvViewChange_quorum_witness:
  "\<exists>s'. recvViewChange sampleEnv (sampleVC 4) False sampleLeaving = Some (Some (LocalEvent ViewChangeQuorum), s')
     \<and> quorumAnnounced s'"
proof -
  obtain s' where r: "recvViewChange sampleEnv (sampleVC 4) False sampleLeaving
      = Some (Some (LocalEvent ViewChangeQuorum), s')"
    using sampleLeaving_quorum by auto
  have "vcStoreOk sampleLeaving" by (simp add: vcStoreOk_def sampleLeaving_def gwf_def correctViewChange_def)
  then show ?thesis using recvViewChange_quorum [OF r] r by auto
qed

end
