(* ===== verification/Selection.thy ===== *)
theory Selection
  imports ViewChange
begin

text \<open>
  What a new primary computes from a quorum of view changes, and every replica computes again
  (\<open>viewchange_mgr.go\<close>): the dynamic information of the validators, the initial checkpoint, and the
  request assigned to every sequence number between the low and the high watermark.
\<close>

section \<open>Validator information\<close>

record dynCount =
  dc_recover :: "(bytes, nat) gomap"
  dc_notRecover :: "(bytes, nat) gomap"
  dc_recoverCount :: nat
  dc_notRecoverCount :: nat
  dc_quorumRecover :: "nodeDynamicInfo list"
  dc_quorumNotRecover :: "nodeDynamicInfo list"

definition countInfo :: "(nodeDynamicInfo list \<Rightarrow> bytes) \<Rightarrow> nat \<Rightarrow> nodeDynamicInfo list \<Rightarrow>
    (bytes, nat) gomap \<times> nodeDynamicInfo list \<Rightarrow> (bytes, nat) gomap \<times> nodeDynamicInfo list" where
  \<comment> \<open>one entry of a record: the first occurrence counts one, a later one counts up and is taken
    when the count equals the quorum\<close>
  "countInfo hash q info = (\<lambda>(m, best).
     case gget m (hash info) of
       None \<Rightarrow> (gput (hash info) 1 m, best)
     | Some k \<Rightarrow> (gput (hash info) (k + 1) m, if k + 1 = q then info else best))"

definition dynStep :: "(nodeDynamicInfo list \<Rightarrow> bytes) \<Rightarrow> nat \<Rightarrow> viewChange \<Rightarrow> dynCount \<Rightarrow> dynCount option" where
  "dynStep hash q vc d =
     (case vc_basis vc of
        None \<Rightarrow> None
      | Some b \<Rightarrow>
          if vb_ifRecover b = [] \<or> vb_ifNotRecover b = [] then Some d
          else (case countInfo hash q (vb_ifRecover b) (dc_recover d, dc_quorumRecover d) of (m1, q1) \<Rightarrow>
                case countInfo hash q (vb_ifNotRecover b) (dc_notRecover d, dc_quorumNotRecover d) of (m2, q2) \<Rightarrow>
                Some \<lparr>dc_recover = m1, dc_notRecover = m2,
                   dc_recoverCount = dc_recoverCount d + (if vc_recovery vc then 1 else 0),
                   dc_notRecoverCount = dc_notRecoverCount d + (if vc_recovery vc then 0 else 1),
                   dc_quorumRecover = q1, dc_quorumNotRecover = q2\<rparr>))"

definition initDyn :: dynCount where
  "initDyn = \<lparr>dc_recover = gempty, dc_notRecover = gempty, dc_recoverCount = 0, dc_notRecoverCount = 0,
     dc_quorumRecover = [], dc_quorumNotRecover = []\<rparr>"

definition selectValidatorDynamicInfo ::
  "'p env \<Rightarrow> chainConfig \<Rightarrow> viewChange list \<Rightarrow> nodeDynamicInfo list option option" where
  \<comment> \<open>\<open>None\<close> is a panic, \<open>Some None\<close> is the result \<open>false\<close>\<close>
  "selectValidatorDynamicInfo E c vcs =
     map_option (\<lambda>d. let r = dc_quorumRecover d; nr = dc_quorumNotRecover d in
        if r = [] \<and> nr = [] then None
        else if nr = [] then Some r
        else if r = [] then Some nr
        else if dc_recoverCount d \<ge> dc_notRecoverCount d then Some r else Some nr)
       (mfold (dynStep (en_hashInfo E) (commonCaseQuorum c)) vcs initDyn)"

section \<open>The initial checkpoint\<close>

definition csOf :: "checkpoint \<Rightarrow> checkpointState" where
  "csOf k = \<lparr>cs_meta = \<lparr>ms_height = ck_Height k, ms_digest = ck_Digest k, ms_batchDigest = []\<rparr>,
     cs_isConfig = ck_needUpdateEpoch k\<rparr>"

fun collectCset :: "signedCheckpoint list \<Rightarrow> checkpointState list \<Rightarrow>
    (checkpointState, signedCheckpoint list) gomap \<Rightarrow> (checkpointState, signedCheckpoint list) gomap" where
  \<comment> \<open>one basis: nil checkpoints are skipped, and so are those this basis holds already\<close>
  "collectCset [] record m = m"
| "collectCset (c # cs) record m =
     (case sc_checkpoint c of
        None \<Rightarrow> collectCset cs record m
      | Some k \<Rightarrow>
          if csOf k \<in> set record then collectCset cs record m
          else collectCset cs (csOf k # record)
                 (gput (csOf k) ((case gget m (csOf k) of None \<Rightarrow> [] | Some l \<Rightarrow> l) @ [c]) m))"

definition collectCheckpoints :: "vcBasis list \<Rightarrow> (checkpointState, signedCheckpoint list) gomap" where
  "collectCheckpoints bs = fold (\<lambda>b. collectCset (vb_cset b) []) bs gempty"

definition eligibleCheckpoint :: "chainConfig \<Rightarrow> vcBasis list \<Rightarrow> checkpointState \<Rightarrow> signedCheckpoint list \<Rightarrow> bool" where
  "eligibleCheckpoint c bs idx scs =
     (\<not> List.length scs < oneCorrectQuorum c \<and>
      \<not> (cs_isConfig idx \<and> List.length scs < commonCaseQuorum c) \<and>
      \<not> List.length (filter (\<lambda>b. vb_h b \<le> ms_height (cs_meta idx)) bs) < commonCaseQuorum c)"

definition highestCheckpoint ::
  "chainConfig \<Rightarrow> vcBasis list \<Rightarrow> (checkpointState, signedCheckpoint list) gomap \<Rightarrow>
     (checkpointState \<times> signedCheckpoint list) option" where
  "highestCheckpoint c bs m = fold (\<lambda>(idx, scs) best.
     if \<not> eligibleCheckpoint c bs idx scs then best
     else if (case best of None \<Rightarrow> 0 | Some (i, _) \<Rightarrow> ms_height (cs_meta i)) \<le> ms_height (cs_meta idx)
     then Some (idx, scs) else best) m None"

definition hashOf :: "'p env \<Rightarrow> checkpoint option \<Rightarrow> bytes" where
  \<comment> \<open>\<open>Checkpoint.Hash\<close> of a nil checkpoint is nil\<close>
  "hashOf E k = (case k of None \<Rightarrow> [] | Some c \<Rightarrow> en_hashCheckpoint E (ck_hashed c))"

definition verifySignedCheckpoint :: "'p env \<Rightarrow> signedCheckpoint \<Rightarrow> bool" where
  "verifySignedCheckpoint E sc = en_verify E (sc_author sc) (sc_signature sc) (hashOf E (sc_checkpoint sc))"

definition selectInitialCheckpoint ::
  "'p env \<Rightarrow> chainConfig \<Rightarrow> vcBasis list \<Rightarrow> (checkpointState \<times> signedCheckpoint list) option" where
  "selectInitialCheckpoint E c bs =
     (case highestCheckpoint c bs (collectCheckpoints bs) of
        None \<Rightarrow> None
      | Some (idx, scs) \<Rightarrow>
          if List.length (filter (verifySignedCheckpoint E) scs) < oneCorrectQuorum c then None
          else Some (idx, scs))"

section \<open>Assigning sequence numbers\<close>

definition supportsP :: "u64 \<Rightarrow> vcPq \<Rightarrow> vcBasis \<Rightarrow> bool" where
  "supportsP n em mp = (\<not> vb_h mp \<ge> n \<and> (\<forall>emp \<in> set (vb_pset mp). pq_n emp = n \<longrightarrow>
     (pq_v emp < pq_v em \<or> (pq_v emp = pq_v em \<and> pq_d emp = pq_d em))))"

definition supportsQ :: "u64 \<Rightarrow> vcPq \<Rightarrow> vcBasis \<Rightarrow> bool" where
  "supportsQ n em mp = (\<exists>emp \<in> set (vb_qset mp). pq_n emp = n \<and> pq_v emp \<ge> pq_v em \<and> pq_d emp = pq_d em)"

definition supportsNull :: "u64 \<Rightarrow> vcBasis \<Rightarrow> bool" where
  "supportsNull n m = (\<not> vb_h m \<ge> n \<and> \<not> (\<exists>em \<in> set (vb_pset m). pq_n em = n))"

definition selectEntry :: "chainConfig \<Rightarrow> vcBasis list \<Rightarrow> u64 \<Rightarrow> vcPq option" where
  "selectEntry c bs n = List.find (\<lambda>em. pq_n em = n
       \<and> List.length (filter (supportsP n em) bs) \<ge> commonCaseQuorum c
       \<and> List.length (filter (supportsQ n em) bs) \<ge> oneCorrectQuorum c) (concat (map vb_pset bs))"

fun assignLoop :: "chainConfig \<Rightarrow> vcBasis list \<Rightarrow> u64 list \<Rightarrow> (u64, string) gomap \<Rightarrow> u64 \<Rightarrow>
    ((u64, string) gomap \<times> u64) option" where
  "assignLoop c bs [] msgMap maxN = Some (msgMap, maxN)"
| "assignLoop c bs (n # ns) msgMap maxN =
     (case selectEntry c bs n of
        Some em \<Rightarrow> assignLoop c bs ns (gput n (pq_d em) msgMap) n
      | None \<Rightarrow>
          if List.length (filter (supportsNull n) bs) \<ge> commonCaseQuorum c
          then assignLoop c bs ns (gput n [] msgMap) maxN
          else None)"

definition assignSequenceNumbers :: "chainConfig \<Rightarrow> vcBasis list \<Rightarrow> u64 \<Rightarrow> vcPq list option" where
  \<comment> \<open>\<open>None\<close> is the nil list of the code\<close>
  "assignSequenceNumbers c bs h =
     (case assignLoop c bs (word_range (h + 1) (h + cc_L c)) gempty (h + 1) of
        None \<Rightarrow> None
      | Some (msgMap, maxN) \<Rightarrow>
          (let pruned = gkeep (\<lambda>n d. \<not> (n \<ge> maxN \<and> d = [])) msgMap
           in Some (map (\<lambda>i. let x = h + 1 + of_nat i in
                \<lparr>pq_n = x, pq_d = (case gget pruned x of None \<Rightarrow> [] | Some d \<Rightarrow> d), pq_v = 0\<rparr>)
                [0 ..< gsize pruned])))"

section \<open>What the assignment guarantees\<close>

definition choiceFor :: "chainConfig \<Rightarrow> vcBasis list \<Rightarrow> u64 \<Rightarrow> string option" where
  "choiceFor c bs n =
     (case selectEntry c bs n of
        Some em \<Rightarrow> Some (pq_d em)
      | None \<Rightarrow> if List.length (filter (supportsNull n) bs) \<ge> commonCaseQuorum c then Some [] else None)"

lemma assignLoop_spec:
  assumes "assignLoop c bs ns m mx = Some (m', mx')" "distinct ns" "sorted ns" "\<forall>n \<in> set ns. mx \<le> n"
  shows "(\<forall>n. gget m' n = (if n \<in> set ns then choiceFor c bs n else gget m n))
    \<and> (\<forall>n \<in> set ns. choiceFor c bs n \<noteq> None) \<and> (gwf m \<longrightarrow> gwf m')
    \<and> (\<forall>n \<in> set ns. selectEntry c bs n \<noteq> None \<longrightarrow> n \<le> mx') \<and> mx \<le> mx'"
  using assms
proof (induction ns arbitrary: m mx)
  case (Cons n ns)
  show ?case
  proof (cases "selectEntry c bs n")
    case (Some em)
    then have rest: "assignLoop c bs ns (gput n (pq_d em) m) n = Some (m', mx')" using Cons.prems(1) by simp
    have "(\<forall>k. gget m' k = (if k \<in> set ns then choiceFor c bs k else gget (gput n (pq_d em) m) k))
      \<and> (\<forall>k \<in> set ns. choiceFor c bs k \<noteq> None) \<and> (gwf (gput n (pq_d em) m) \<longrightarrow> gwf m')
      \<and> (\<forall>k \<in> set ns. selectEntry c bs k \<noteq> None \<longrightarrow> k \<le> mx') \<and> n \<le> mx'"
      using Cons.prems by (intro Cons.IH [OF rest]) auto
    then show ?thesis using Some Cons.prems(2,4) by (auto simp: choiceFor_def)
  next
    case None
    then have q: "List.length (filter (supportsNull n) bs) \<ge> commonCaseQuorum c"
      and rest: "assignLoop c bs ns (gput n [] m) mx = Some (m', mx')"
      using Cons.prems(1) by (simp_all split: if_splits)
    have "(\<forall>k. gget m' k = (if k \<in> set ns then choiceFor c bs k else gget (gput n [] m) k))
      \<and> (\<forall>k \<in> set ns. choiceFor c bs k \<noteq> None) \<and> (gwf (gput n [] m) \<longrightarrow> gwf m')
      \<and> (\<forall>k \<in> set ns. selectEntry c bs k \<noteq> None \<longrightarrow> k \<le> mx') \<and> mx \<le> mx'"
      using Cons.prems by (intro Cons.IH [OF rest]) auto
    then show ?thesis using None q Cons.prems(2) by (auto simp: choiceFor_def)
  qed
qed simp

lemma map_of_nat_word:
  "b < 2 ^ 64 \<Longrightarrow> a \<le> i \<Longrightarrow> i \<le> b \<Longrightarrow> unat (of_nat i :: u64) = i"
  by (simp add: unat_of_nat take_bit_nat_eq_self)

lemma word_range_sorted: "distinct (word_range a b) \<and> sorted (word_range a b)"
proof (cases "a \<le> b")
  case True
  have bd: "unat b < 2 ^ 64" by (rule unat_lt_2p64)
  have inj: "inj_on (of_nat :: nat \<Rightarrow> u64) (set [unat a ..< Suc (unat b)])"
    using map_of_nat_word [OF bd] by (intro inj_onI) (metis atLeastLessThan_iff less_Suc_eq_le set_upt)
  have "sorted (map (of_nat :: nat \<Rightarrow> u64) [unat a ..< Suc (unat b)])"
    unfolding sorted_wrt_map
  proof (rule sorted_wrt_mono_rel [OF _ sorted_wrt_upt])
    fix i j assume "i \<in> set [unat a ..< Suc (unat b)]" "j \<in> set [unat a ..< Suc (unat b)]" "i < j"
    then have "unat (of_nat i :: u64) = i" "unat (of_nat j :: u64) = j"
      using map_of_nat_word [OF bd, of "unat a"] by (simp_all del: upt_Suc)
    then show "(of_nat i :: u64) \<le> of_nat j" unfolding word_le_nat_alt using \<open>i < j\<close> by simp
  qed
  then show ?thesis using True inj by (simp add: word_range_def distinct_map del: upt_Suc)
qed (simp add: word_range_def)

text \<open>The pruned map holds exactly the numbers from \<open>h + 1\<close> up to some last one, so the list the code
  builds by counting reads every entry of the map.\<close>

lemma assigned_entry:
  assumes loop: "assignLoop c bs (word_range (h + 1) (h + cc_L c)) gempty (h + 1) = Some (m, mx)"
    and res: "assignSequenceNumbers c bs h = Some xs"
    and n: "h + 1 \<le> n" "n \<le> h + cc_L c" and keep: "\<not> (n \<ge> mx \<and> choiceFor c bs n = Some [])"
    and d: "choiceFor c bs n = Some d"
  shows "\<exists>x \<in> set xs. pq_n x = n \<and> pq_d x = d"
proof -
  let ?ns = "word_range (h + 1) (h + cc_L c)"
  define pr where "pr = gkeep (\<lambda>n d. \<not> (n \<ge> mx \<and> d = [])) m"
  have spec: "\<forall>k. gget m k = (if k \<in> set ?ns then choiceFor c bs k else gget gempty k)"
    "\<forall>k \<in> set ?ns. choiceFor c bs k \<noteq> None" "gwf m"
    "\<forall>k \<in> set ?ns. selectEntry c bs k \<noteq> None \<longrightarrow> k \<le> mx"
    using assignLoop_spec [OF loop] word_range_sorted by (auto simp: set_word_range)
  have gm: "gget m k = (if h + 1 \<le> k \<and> k \<le> h + cc_L c then choiceFor c bs k else None)" for k
    using spec(1) by (simp add: set_word_range)
  have gpr: "gget pr k = (case gget m k of None \<Rightarrow> None | Some d \<Rightarrow> if \<not> (k \<ge> mx \<and> d = []) then Some d else None)" for k
    using gget_gkeep [OF spec(3)] by (simp add: pr_def split: option.splits)
  have down: "k \<in> dom (gget pr)" if "k' \<in> dom (gget pr)" "h + 1 \<le> k" "k \<le> k'" for k k'
  proof -
    have k': "h + 1 \<le> k'" "k' \<le> h + cc_L c"
      using that(1) by (auto simp: gpr gm dom_def split: option.splits if_splits)
    then have kin: "h + 1 \<le> k" "k \<le> h + cc_L c" using that(2,3) by (auto intro: order_trans)
    then obtain e where e: "choiceFor c bs k = Some e" using spec(2) by (fastforce simp: set_word_range)
    have "\<not> (k \<ge> mx \<and> e = [])"
    proof
      assume cut: "k \<ge> mx \<and> e = []"
      show False
      proof (cases "k = k'")
        case True
        then show False using that(1) cut e kin by (auto simp: gpr gm dom_def)
      next
        case False
        then have "mx < k'" using cut that(3) by auto
        then have "selectEntry c bs k' = None" using spec(4) k' by (fastforce simp: set_word_range)
        then have "choiceFor c bs k' = None \<or> choiceFor c bs k' = Some []" by (simp add: choiceFor_def)
        then show False using that(1) k' \<open>mx < k'\<close> by (auto simp: gpr gm dom_def split: option.splits if_splits)
      qed
    qed
    then show ?thesis using e kin by (simp add: gpr gm dom_def)
  qed
  have nin: "n \<in> dom (gget pr)" and npr: "gget pr n = Some d"
    using n d keep by (auto simp: gpr gm dom_def)
  define i where "i = unat n - unat (h + 1)"
  have ui: "unat (h + 1) \<le> unat n" using n(1) by (simp add: word_le_nat_alt)
  have conv: "h + 1 + of_nat i = n"
    using ui by (simp add: i_def of_nat_diff)
  have size: "i < gsize pr"
  proof -
    have "(\<lambda>j. of_nat j :: u64) ` {unat (h + 1) .. unat n} \<subseteq> dom (gget pr)"
    proof
      fix k :: u64 assume "k \<in> (\<lambda>j. of_nat j :: u64) ` {unat (h + 1) .. unat n}"
      then obtain j where j: "k = of_nat j" "unat (h + 1) \<le> j" "j \<le> unat n" by auto
      then have "unat k = j" using map_of_nat_word [OF unat_lt_2p64 [of n]] by simp
      then show "k \<in> dom (gget pr)" using down [OF nin] j by (simp add: word_le_nat_alt)
    qed
    moreover have "inj_on (\<lambda>j. of_nat j :: u64) {unat (h + 1) .. unat n}"
      using map_of_nat_word [OF unat_lt_2p64 [of n]] by (intro inj_onI) (metis atLeastAtMost_iff)
    ultimately have "card {unat (h + 1) .. unat n} \<le> card (dom (gget pr))"
      by (metis card_image card_mono finite_dom_gget)
    moreover have "gsize pr = card (dom (gget pr))"
      using spec(3) by (intro gsize_card) (simp add: pr_def)
    ultimately show ?thesis using ui by (simp add: i_def)
  qed
  have "xs = map (\<lambda>i. let x = h + 1 + of_nat i in
      \<lparr>pq_n = x, pq_d = (case gget pr x of None \<Rightarrow> [] | Some d \<Rightarrow> d), pq_v = 0\<rparr>) [0 ..< gsize pr]"
    using res loop by (simp add: assignSequenceNumbers_def pr_def Let_def)
  then have "xs ! i = \<lparr>pq_n = n, pq_d = d, pq_v = 0\<rparr>" "i < List.length xs"
    using size conv npr by (simp_all add: Let_def)
  then show ?thesis by (metis nth_mem vcPq.select_convs(1,2))
qed

lemma filter_disjoint_length:
  assumes "\<And>x. x \<in> set xs \<Longrightarrow> \<not> (P x \<and> Q x)"
  shows "List.length (filter P xs) + List.length (filter Q xs) \<le> List.length xs"
  using assms by (induction xs) auto

lemma selectEntry_Some:
  assumes "selectEntry c bs n = Some em"
  shows "pq_n em = n" "\<exists>m \<in> set bs. em \<in> set (vb_pset m)"
    "List.length (filter (supportsP n em) bs) \<ge> commonCaseQuorum c"
    "List.length (filter (supportsQ n em) bs) \<ge> oneCorrectQuorum c"
  using assms unfolding selectEntry_def find_Some_iff by (auto dest: nth_mem)

definition lockedIn :: "u64 \<Rightarrow> string \<Rightarrow> u64 \<Rightarrow> vcBasis \<Rightarrow> bool" where
  \<comment> \<open>the sender prepared the digest at this number in this view\<close>
  "lockedIn n d v m = (\<exists>e \<in> set (vb_pset m). pq_n e = n \<and> pq_d e = d \<and> pq_v e = v)"

definition holdsBack :: "u64 \<Rightarrow> string \<Rightarrow> u64 \<Rightarrow> vcBasis \<Rightarrow> bool" where
  \<comment> \<open>the sender supports no other choice for the number: it is past it, or prepared the digest in this view\<close>
  "holdsBack n d v m = (n \<le> vb_h m \<or> lockedIn n d v m)"

text \<open>When fewer than a quorum of the view changes are free to support another choice, and every entry for
  another digest at \<open>n\<close> is of the view \<open>v\<close> or a lower one, then every assignment computed from these view
  changes gives \<open>n\<close> to \<open>d\<close>.\<close>

lemma assign_keeps_locked:
  assumes res: "assignSequenceNumbers c bs h = Some xs"
    and range: "h + 1 \<le> n" "n \<le> h + cc_L c" and "d \<noteq> []"
    and locked: "List.length bs - List.length (filter (holdsBack n d v) bs) < commonCaseQuorum c"
    and other: "\<forall>m \<in> set bs. \<forall>e \<in> set (vb_pset m). pq_n e = n \<and> pq_d e \<noteq> d \<longrightarrow> pq_v e \<le> v"
  shows "\<exists>x \<in> set xs. pq_n x = n \<and> pq_d x = d"
proof -
  obtain m mx where loop: "assignLoop c bs (word_range (h + 1) (h + cc_L c)) gempty (h + 1) = Some (m, mx)"
    using res by (auto simp: assignSequenceNumbers_def split: option.splits)
  have spec: "choiceFor c bs n \<noteq> None" "selectEntry c bs n \<noteq> None \<longrightarrow> n \<le> mx"
    using assignLoop_spec [OF loop] word_range_sorted range by (auto simp: set_word_range)
  have few: "List.length (filter P bs) < commonCaseQuorum c" if "\<And>m. holdsBack n d v m \<Longrightarrow> \<not> P m" for P
    using filter_disjoint_length [of bs P "holdsBack n d v"] that locked by fastforce
  have choice: "choiceFor c bs n = Some d"
  proof (cases "selectEntry c bs n")
    case None
    have "List.length (filter (supportsNull n) bs) < commonCaseQuorum c"
      by (rule few) (auto simp: holdsBack_def lockedIn_def supportsNull_def)
    then show ?thesis using spec(1) None by (simp add: choiceFor_def)
  next
    case (Some em)
    note em = selectEntry_Some [OF Some]
    have "pq_d em = d"
    proof (rule ccontr)
      assume "pq_d em \<noteq> d"
      then have "pq_v em \<le> v" using other em(1,2) by blast
      then have "List.length (filter (supportsP n em) bs) < commonCaseQuorum c"
        using \<open>pq_d em \<noteq> d\<close> by (intro few) (auto simp: holdsBack_def lockedIn_def supportsP_def)
      then show False using em(3) by simp
    qed
    then show ?thesis using Some by (simp add: choiceFor_def)
  qed
  show ?thesis
    using assigned_entry [OF loop res range _ choice] \<open>d \<noteq> []\<close> choice by simp
qed

lemma assigned_shape:
  assumes "assignSequenceNumbers c bs h = Some xs"
  shows "map pq_n xs = map (\<lambda>i. h + 1 + of_nat i) [0 ..< List.length xs]"
    and "\<forall>x \<in> set xs. pq_d x \<noteq> [] \<longrightarrow> h + 1 \<le> pq_n x \<and> pq_n x \<le> h + cc_L c \<and> choiceFor c bs (pq_n x) = Some (pq_d x)"
proof -
  obtain m mx where loop: "assignLoop c bs (word_range (h + 1) (h + cc_L c)) gempty (h + 1) = Some (m, mx)"
    using assms by (auto simp: assignSequenceNumbers_def split: option.splits)
  define pr where "pr = gkeep (\<lambda>n d. \<not> (n \<ge> mx \<and> d = [])) m"
  have xs: "xs = map (\<lambda>i. let x = h + 1 + of_nat i in
      \<lparr>pq_n = x, pq_d = (case gget pr x of None \<Rightarrow> [] | Some d \<Rightarrow> d), pq_v = 0\<rparr>) [0 ..< gsize pr]"
    using assms loop by (simp add: assignSequenceNumbers_def pr_def Let_def)
  then show "map pq_n xs = map (\<lambda>i. h + 1 + of_nat i) [0 ..< List.length xs]"
    by (simp add: Let_def o_def)
  have spec: "\<forall>k. gget m k = (if k \<in> set (word_range (h + 1) (h + cc_L c)) then choiceFor c bs k else gget gempty k)" "gwf m"
    using assignLoop_spec [OF loop] word_range_sorted by (auto simp: set_word_range)
  have "h + 1 \<le> k \<and> k \<le> h + cc_L c \<and> choiceFor c bs k = Some d" if "gget pr k = Some d" for k d
    using that spec gget_gkeep [OF spec(2)]
    by (auto simp: pr_def set_word_range split: option.splits if_splits)
  then show "\<forall>x \<in> set xs. pq_d x \<noteq> [] \<longrightarrow> h + 1 \<le> pq_n x \<and> pq_n x \<le> h + cc_L c \<and> choiceFor c bs (pq_n x) = Some (pq_d x)"
    by (auto simp: xs Let_def split: option.splits)
qed

text \<open>C20. The assigned list is numbered consecutively from the number after the initial checkpoint,
  and a request enters it only if some view change prepared it, a quorum of view changes has nothing
  prepared that outranks it, and at least \<open>F + 1\<close> view changes saw its pre-prepare in no lower view.\<close>

theorem assign_justified:
  assumes "assignSequenceNumbers c bs h = Some xs"
  shows "map pq_n xs = map (\<lambda>i. h + 1 + of_nat i) [0 ..< List.length xs] \<and>
    (\<forall>x \<in> set xs. pq_d x \<noteq> [] \<longrightarrow> pq_n x \<le> h + cc_L c \<and>
      (\<exists>em. pq_n em = pq_n x \<and> pq_d em = pq_d x \<and> (\<exists>m \<in> set bs. em \<in> set (vb_pset m)) \<and>
         commonCaseQuorum c \<le> List.length (filter (supportsP (pq_n x) em) bs) \<and>
         cc_F c + 1 \<le> List.length (filter (supportsQ (pq_n x) em) bs)))"
proof (intro conjI ballI impI)
  show "map pq_n xs = map (\<lambda>i. h + 1 + of_nat i) [0 ..< List.length xs]"
    by (rule assigned_shape(1) [OF assms])
  fix x assume x: "x \<in> set xs" "pq_d x \<noteq> []"
  then have ch: "choiceFor c bs (pq_n x) = Some (pq_d x)" and "pq_n x \<le> h + cc_L c"
    using assigned_shape(2) [OF assms] by blast+
  then show "pq_n x \<le> h + cc_L c" by simp
  obtain em where sel: "selectEntry c bs (pq_n x) = Some em" and "pq_d em = pq_d x"
    using ch x(2) by (auto simp: choiceFor_def split: option.splits if_splits)
  then show "\<exists>em. pq_n em = pq_n x \<and> pq_d em = pq_d x \<and> (\<exists>m \<in> set bs. em \<in> set (vb_pset m)) \<and>
         commonCaseQuorum c \<le> List.length (filter (supportsP (pq_n x) em) bs) \<and>
         cc_F c + 1 \<le> List.length (filter (supportsQ (pq_n x) em) bs)"
    using selectEntry_Some [OF sel] by (auto simp: oneCorrectQuorum_def)
qed

definition sampleBases :: "vcBasis list" where
  \<comment> \<open>three of four replicas prepared \<open>d1\<close> at 1, the fourth has nothing\<close>
  "sampleBases = (let p = \<lparr>pq_n = 1, pq_d = ''d1'', pq_v = 1\<rparr> in
     [VcBasis 1 2 0 [p] [p] [] [] [], VcBasis 2 2 0 [p] [p] [] [] [], VcBasis 3 2 0 [p] [p] [] [] [],
      VcBasis 4 2 0 [] [] [] [] []])"

lemma sampleAssign:
  "assignSequenceNumbers sampleConfig sampleBases 0 = Some [\<lparr>pq_n = 1, pq_d = ''d1'', pq_v = 0\<rparr>]"
  by code_simp

theorem assign_justified_witness:
  "\<exists>em. pq_d em = ''d1'' \<and> cc_F sampleConfig + 1 \<le> List.length (filter (supportsQ 1 em) sampleBases)"
  using assign_justified [OF sampleAssign] by auto

section \<open>What the initial checkpoint guarantees\<close>

definition isFor :: "checkpointState \<Rightarrow> signedCheckpoint \<Rightarrow> bool" where
  "isFor idx sc = (map_option csOf (sc_checkpoint sc) = Some idx)"

definition glist :: "('k, 'v list) gomap \<Rightarrow> 'k \<Rightarrow> 'v list" where
  "glist m k = (case gget m k of None \<Rightarrow> [] | Some l \<Rightarrow> l)"

lemma collectCset_glist:
  "glist (collectCset cs seen m) idx = glist m idx @
     (if idx \<in> set seen then [] else case List.find (isFor idx) cs of None \<Rightarrow> [] | Some c \<Rightarrow> [c])"
proof (induction cs seen m rule: collectCset.induct)
  case (2 c cs seen m)
  then show ?case
  proof (cases "sc_checkpoint c")
    case None
    then show ?thesis using 2 by (simp add: isFor_def)
  next
    case (Some k)
    then show ?thesis
      using 2 by (cases "csOf k \<in> set seen") (auto simp: isFor_def glist_def split: option.splits)
  qed
qed simp

lemma collectCheckpoints_glist:
  "glist (collectCheckpoints bs) idx = List.map_filter (\<lambda>b. List.find (isFor idx) (vb_cset b)) bs"
proof -
  have "glist (fold (\<lambda>b. collectCset (vb_cset b) []) bs m) idx =
      glist m idx @ List.map_filter (\<lambda>b. List.find (isFor idx) (vb_cset b)) bs" for m
    by (induction bs arbitrary: m) (auto simp: collectCset_glist List.map_filter_simps split: option.splits)
  from this [of gempty] show ?thesis by (simp add: collectCheckpoints_def glist_def)
qed

lemma collect_gwf: "gwf m \<Longrightarrow> gwf (collectCset cs r m)"
  by (induction cs r m rule: collectCset.induct) (auto split: option.splits)

lemma collectCheckpoints_gwf: "gwf (collectCheckpoints bs)"
proof -
  have "gwf m \<Longrightarrow> gwf (fold (\<lambda>b. collectCset (vb_cset b) []) bs m)" for m
    by (induction bs arbitrary: m) (auto intro: collect_gwf)
  then show ?thesis by (simp add: collectCheckpoints_def)
qed

definition heightOf :: "(checkpointState \<times> signedCheckpoint list) option \<Rightarrow> u64" where
  "heightOf best = (case best of None \<Rightarrow> 0 | Some (i, _) \<Rightarrow> ms_height (cs_meta i))"

lemma highest_fold:
  fixes best0 :: "(checkpointState \<times> signedCheckpoint list) option"
  assumes "r = fold (\<lambda>(idx, scs) best.
     if \<not> eligibleCheckpoint c bs idx scs then best
     else if (case best of None \<Rightarrow> 0 | Some (i, _) \<Rightarrow> ms_height (cs_meta i)) \<le> ms_height (cs_meta idx)
     then Some (idx, scs) else best) m best0"
  shows "(r = best0 \<or> (\<exists>e \<in> set m. r = Some e \<and> eligibleCheckpoint c bs (fst e) (snd e)))
    \<and> heightOf best0 \<le> heightOf r
    \<and> (\<forall>e \<in> set m. eligibleCheckpoint c bs (fst e) (snd e) \<longrightarrow> r \<noteq> None \<and> ms_height (cs_meta (fst e)) \<le> heightOf r)"
  using assms
proof (induction m arbitrary: best0)
  case (Cons e m)
  define b1 where "b1 = (case e of (idx, scs) \<Rightarrow> if \<not> eligibleCheckpoint c bs idx scs then best0
     else if heightOf best0 \<le> ms_height (cs_meta idx) then Some (idx, scs) else best0)"
  have r: "r = fold (\<lambda>(idx, scs) best.
     if \<not> eligibleCheckpoint c bs idx scs then best
     else if (case best of None \<Rightarrow> 0 | Some (i, _) \<Rightarrow> ms_height (cs_meta i)) \<le> ms_height (cs_meta idx)
     then Some (idx, scs) else best) m b1"
    using Cons.prems by (simp add: b1_def heightOf_def case_prod_unfold)
  note IH = Cons.IH [OF r]
  have b1: "b1 = best0 \<or> (b1 = Some e \<and> eligibleCheckpoint c bs (fst e) (snd e))"
    "heightOf best0 \<le> heightOf b1"
    "eligibleCheckpoint c bs (fst e) (snd e) \<longrightarrow> b1 \<noteq> None \<and> ms_height (cs_meta (fst e)) \<le> heightOf b1"
    by (auto simp: b1_def heightOf_def split: prod.splits option.splits)
  have "r \<noteq> None \<and> ms_height (cs_meta (fst e)) \<le> heightOf r" if "eligibleCheckpoint c bs (fst e) (snd e)"
    using b1(3) that IH by (metis order_trans option.distinct(1))
  then show ?case using IH b1(1,2) by (auto intro: order_trans)
qed simp

text \<open>C17. The initial checkpoint that the view changes select is backed by at least \<open>F + 1\<close> valid
  signatures and held by at least \<open>F + 1\<close> of the view changes (a quorum of them when it is a
  configuration checkpoint), all of the returned signed checkpoints are for it, a quorum of the view changes
  have no higher low watermark, and no other checkpoint that meets these counts is higher.\<close>

theorem selectInitialCheckpoint_correct:
  assumes "selectInitialCheckpoint E c bs = Some (idx, scs)"
  shows "cc_F c + 1 \<le> List.length (filter (verifySignedCheckpoint E) scs) \<and>
    (\<forall>sc \<in> set scs. isFor idx sc) \<and>
    List.length scs \<le> List.length (filter (\<lambda>b. \<exists>sc \<in> set (vb_cset b). isFor idx sc) bs) \<and>
    (cs_isConfig idx \<longrightarrow> commonCaseQuorum c \<le> List.length scs) \<and>
    commonCaseQuorum c \<le> List.length (filter (\<lambda>b. vb_h b \<le> ms_height (cs_meta idx)) bs) \<and>
    (\<forall>idx'. eligibleCheckpoint c bs idx' (glist (collectCheckpoints bs) idx') \<longrightarrow>
       ms_height (cs_meta idx') \<le> ms_height (cs_meta idx))"
proof -
  let ?m = "collectCheckpoints bs"
  have best: "highestCheckpoint c bs ?m = Some (idx, scs)"
    and valid: "cc_F c + 1 \<le> List.length (filter (verifySignedCheckpoint E) scs)"
    using assms by (auto simp: selectInitialCheckpoint_def oneCorrectQuorum_def split: option.splits if_splits)
  note hi = highest_fold [OF best [unfolded highestCheckpoint_def, symmetric]]
  have elig: "eligibleCheckpoint c bs idx scs" and "(idx, scs) \<in> set ?m" using hi by auto
  then have "gget ?m idx = Some scs" using gget_in_set_iff [OF collectCheckpoints_gwf] by blast
  then have scs: "scs = List.map_filter (\<lambda>b. List.find (isFor idx) (vb_cset b)) bs"
    using collectCheckpoints_glist [of bs idx] by (simp add: glist_def)
  have isFor: "\<forall>sc \<in> set scs. isFor idx sc"
    unfolding scs by (induction bs) (auto simp: List.map_filter_simps find_Some_iff split: option.splits)
  have "List.length scs \<le> List.length (filter (\<lambda>b. \<exists>sc \<in> set (vb_cset b). isFor idx sc) bs)"
    unfolding scs by (induction bs) (auto simp: List.map_filter_simps find_Some_iff split: option.splits dest: nth_mem)
  moreover have "ms_height (cs_meta idx') \<le> ms_height (cs_meta idx)"
    if "eligibleCheckpoint c bs idx' (glist ?m idx')" for idx'
  proof (cases "gget ?m idx'")
    case None
    then show ?thesis using that by (simp add: eligibleCheckpoint_def glist_def oneCorrectQuorum_def)
  next
    case (Some l)
    then have "(idx', l) \<in> set ?m" by (rule gget_Some_in_set)
    then show ?thesis using hi that Some by (auto simp: glist_def heightOf_def)
  qed
  ultimately show ?thesis using valid isFor elig by (auto simp: eligibleCheckpoint_def)
qed

definition sampleCheckpoint :: "u64 \<Rightarrow> u64 \<Rightarrow> signedCheckpoint" where
  "sampleCheckpoint i h = SignedCheckpoint
     (Some (Checkpoint 1 (Some \<lparr>es_height = h, es_digest = ''s'', es_batchDigest = ''d1''\<rparr>) False None)) i []"

definition sampleCkptBases :: "vcBasis list" where
  "sampleCkptBases = [VcBasis 1 2 0 [] [] [sampleCheckpoint 1 1] [] [], VcBasis 2 2 0 [] [] [sampleCheckpoint 2 1] [] [],
     VcBasis 3 2 0 [] [] [] [] []]"

lemma sampleSelect:
  "map_option (ms_height \<circ> cs_meta \<circ> fst) (selectInitialCheckpoint sampleEnv sampleConfig sampleCkptBases) = Some 1"
  by code_simp

theorem selectInitialCheckpoint_correct_witness:
  "\<exists>idx scs. selectInitialCheckpoint sampleEnv sampleConfig sampleCkptBases = Some (idx, scs) \<and> ms_height (cs_meta idx) = 1
     \<and> 2 \<le> List.length (filter (verifySignedCheckpoint sampleEnv) scs)"
proof -
  obtain idx scs where r: "selectInitialCheckpoint sampleEnv sampleConfig sampleCkptBases = Some (idx, scs)"
    and "ms_height (cs_meta idx) = 1" using sampleSelect by auto
  with selectInitialCheckpoint_correct [OF r] show ?thesis by (auto simp: sampleConfig_simps)
qed

end
