(* ===== verification/Execution.thy ===== *)
theory Execution
  imports Selection
begin

text \<open>
  The execution of committed batches (\<open>rbft_impl.go\<close>: \<open>findNextCommitBatch\<close>,
  \<open>commitPendingBlocks\<close>, \<open>afterCommitBlock\<close>, \<open>filterExecutableTxs\<close>) and the digest of a batch
  (\<open>helper.go\<close>). The loop of \<open>commitPendingBlocks\<close> ends because every round removes one entry of
  \<open>committedCert\<close>. The lemmas show that what is handed to the application is a contiguous run of
  heights, each backed by a certificate the replica holds as committed.
\<close>

section \<open>Digests\<close>

definition hexDigit :: "nat \<Rightarrow> char" where
  "hexDigit n = (if n < 10 then char_of (48 + n) else char_of (87 + n))"

definition hexEncode :: "bytes \<Rightarrow> string" where
  "hexEncode bs = concat (map (\<lambda>b. [hexDigit (unat b div 16), hexDigit (unat b mod 16)]) bs)"

definition calculateMD5Hash :: "'p env \<Rightarrow> string list \<Rightarrow> int \<Rightarrow> string" where
  "calculateMD5Hash E hashes timestamp =
     hexEncode (en_md5 E (concat (map string_bytes hashes) @
       (if timestamp > 0 then rev (be64 (word_of_int timestamp)) else [])))"

section \<open>Committing\<close>

definition first :: "'a list \<Rightarrow> 'a option" where
  "first xs = (case xs of [] \<Rightarrow> None | x # _ \<Rightarrow> Some x)"

definition findNextCommitBatch :: "'p replica \<Rightarrow> (msgID \<times> msgCert) option" where
  "findNextCommitBatch s =
     (if rin waitCheckpointBatchExecute s then None
      else first (List.map_filter (\<lambda>((v, n, d), _).
         case rcert (v, n, d) s of
           None \<Rightarrow> None
         | Some cert \<Rightarrow>
             if mc_prePrepare cert = None then None
             else if mc_sentExecute cert then None
             else if n \<noteq> rb_lastExec s + 1 then None
             else if rin SkipInProgress s then None
             else if \<not> committed (v, n, d) s then None
             else if d \<noteq> [] \<and> \<not> ghas (sm_batchStore (rb_store s)) d then None
             else Some ((v, n, d), cert)) (sm_committedCert (rb_store s))))"

definition filterExecutableTxs :: "'p env \<Rightarrow> requestBatch \<Rightarrow> string list \<Rightarrow> (tx list \<times> bool list) option" where
  \<comment> \<open>the list of flags is indexed by the position of the transaction: too short a list is a panic\<close>
  "filterExecutableTxs E b dups =
     (let keep = filter (\<lambda>i. en_txHash E (rq_txs b ! i) \<notin> set dups) [0 ..< List.length (rq_txs b)]
      in if \<forall>i \<in> set keep. i < List.length (rq_local b)
         then Some (map (\<lambda>i. rq_txs b ! i) keep, map (\<lambda>i. rq_local b ! i) keep)
         else None)"

definition setConfigBatchToExecute :: "u64 \<Rightarrow> 'p replica \<Rightarrow> 'p replica" where
  "setConfigBatchToExecute n = rb_epoch_update (em_configBatchToExecute_update (\<lambda>_. n))"

definition afterCommitBlock :: "msgID \<Rightarrow> bool \<Rightarrow> 'p act" where
  "afterCommitBlock idx isConfig s =
     (let s1 = rb_store_update (sm_committedCert_update (gdel idx))
                 (s\<lparr>rb_lastExec := fst (snd idx)\<rparr>)
      in if isConfig then Some (ron waitCheckpointBatchExecute s1)
         else if checkpointPeriod s1 = 0 then None
         else Some (if rb_lastExec s1 mod checkpointPeriod s1 = 0 then ron waitCheckpointBatchExecute s1 else s1))"

definition beforeExecute :: "'p env \<Rightarrow> msgID \<Rightarrow> 'p act" where
  "beforeExecute E idx s =
     (let s1 = stopNewViewTimer (persistCSet idx s)
      in if isPrimary (selfID s1) s1 then softRestartBatchTimer E s1 else Some s1)"

definition executeBatch :: "'p env \<Rightarrow> msgID \<Rightarrow> msgCert \<Rightarrow> 'p act" where
  "executeBatch E idx cert s =
     (case idx of (v, n, d) \<Rightarrow> do {
        pp \<leftarrow> mc_prePrepare cert;
        hb \<leftarrow> pp_hashBatch pp;
        (if d = [] then Some (emit (Execute [] [] n 0 (hb_proposer hb)) s)
         else do {
           let s1 = (if mc_isConfig cert then setConfigBatchToExecute n s else s);
           b \<leftarrow> gget (sm_batchStore (rb_store s1)) d;
           (txs, locals) \<leftarrow> filterExecutableTxs E b (hb_deDuplicate hb);
           Some (emit (Execute txs locals n (hb_timestamp hb) (hb_proposer hb)) s1) }) })"

definition commitOne :: "'p env \<Rightarrow> msgID \<Rightarrow> msgCert \<Rightarrow> 'p act" where
  \<comment> \<open>one round of \<open>commitPendingBlocks\<close>\<close>
  "commitOne E idx cert s =
     (case beforeExecute E idx s of
        None \<Rightarrow> None
      | Some s1 \<Rightarrow> (case executeBatch E idx cert s1 of
          None \<Rightarrow> None
        | Some s2 \<Rightarrow> afterCommitBlock idx (mc_isConfig cert)
            (modCert idx (\<lambda>c. c\<lparr>mc_sentExecute := True\<rparr>)
              (rb_store_update (sm_outstanding_update (gdel (snd (snd idx)))) s2))))"

lemma first_map_filter:
  assumes "first (List.map_filter f xs) = Some y"
  shows "\<exists>x \<in> set xs. f x = Some y"
proof -
  have "y \<in> set (List.map_filter f xs)" using assms by (auto simp: first_def split: list.splits)
  then show ?thesis by (auto simp: List.map_filter_def)
qed

lemma findNextCommitBatch_D:
  assumes "findNextCommitBatch s = Some (idx, cert)"
  shows "idx \<in> fst ` set (sm_committedCert (rb_store s))" "rcert idx s = Some cert"
    "\<not> mc_sentExecute cert" "fst (snd idx) = rb_lastExec s + 1" "committed idx s"
    "\<not> rin SkipInProgress s" "\<not> rin waitCheckpointBatchExecute s" "mc_prePrepare cert \<noteq> None"
    "snd (snd idx) \<noteq> [] \<longrightarrow> ghas (sm_batchStore (rb_store s)) (snd (snd idx))"
  using assms
  by (auto simp: findNextCommitBatch_def dest!: first_map_filter split: if_splits option.splits)
    (force split: option.splits if_splits)+

lemma gdel_shorter: "k \<in> fst ` set m \<Longrightarrow> List.length (gdel k m) < List.length m"
  unfolding gdel_def gkeep_def by (erule imageE, rule length_filter_less) auto

lemma getCert_present: "rcert idx s = Some c \<Longrightarrow> getCert idx s = (c, s)"
  by (simp add: getCert_def)

lemma startT_frame:
  assumes "startT E n ev s = Some s'"
  shows "rb_store s' = rb_store s" "rb_lastExec s' = rb_lastExec s" "rb_out s' = rb_out s" "rb_cc s' = rb_cc s"
    "rb_status s' = rb_status s" "rb_epoch s' = rb_epoch s" "rb_vc s' = rb_vc s" "rb_batch s' = rb_batch s"
  using assms by (auto elim!: startTD)

lemma softRestartBatchTimer_frame:
  assumes "softRestartBatchTimer E s = Some s'"
  shows "rb_store s' = rb_store s" "rb_lastExec s' = rb_lastExec s" "rb_out s' = rb_out s" "rb_cc s' = rb_cc s"
    "rb_status s' = rb_status s" "rb_epoch s' = rb_epoch s" "rb_vc s' = rb_vc s"
  using assms by (auto simp: softRestartBatchTimer_def softStartT_def split: if_splits)

lemma persistCSet_present:
  assumes "rcert idx s = Some c"
  shows "rb_store (persistCSet idx s) = rb_store s" "rb_lastExec (persistCSet idx s) = rb_lastExec s"
    "rb_out (persistCSet idx s) = rb_out s" "rb_cc (persistCSet idx s) = rb_cc s"
    "rb_status (persistCSet idx s) = rb_status s" "rb_epoch (persistCSet idx s) = rb_epoch s"
  using assms by (simp_all add: persistCSet_def getCert_present storeState_def split: prod.split)

definition executeEffect :: "'p env \<Rightarrow> msgID \<Rightarrow> msgCert \<Rightarrow> 'p replica \<Rightarrow> effect option" where
  \<comment> \<open>what the round asks the application to execute\<close>
  "executeEffect E idx cert s =
     (case mc_prePrepare cert of
        None \<Rightarrow> None
      | Some pp \<Rightarrow> (case pp_hashBatch pp of
          None \<Rightarrow> None
        | Some hb \<Rightarrow>
            if snd (snd idx) = [] then Some (Execute [] [] (fst (snd idx)) 0 (hb_proposer hb))
            else (case gget (sm_batchStore (rb_store s)) (snd (snd idx)) of
                None \<Rightarrow> None
              | Some b \<Rightarrow> map_option (\<lambda>(txs, ls). Execute txs ls (fst (snd idx)) (hb_timestamp hb) (hb_proposer hb))
                   (filterExecutableTxs E b (hb_deDuplicate hb)))))"

lemma beforeExecute_D:
  assumes "beforeExecute E idx s = Some s'" "rcert idx s = Some c"
  shows "rb_store s' = rb_store s" "rb_lastExec s' = rb_lastExec s" "rb_out s' = rb_out s" "rb_cc s' = rb_cc s"
    "rb_status s' = rb_status s" "rb_epoch s' = rb_epoch s"
  using assms persistCSet_present [OF assms(2)] softRestartBatchTimer_frame [of E "stopNewViewTimer (persistCSet idx s)" s']
  by (auto simp: beforeExecute_def Let_def stopNewViewTimer_def split: if_splits)

lemma executeBatch_D:
  assumes "executeBatch E idx cert s = Some s'"
  shows "\<exists>ef. executeEffect E idx cert s = Some ef \<and> rb_out s' = rb_out s @ [ef]"
    "rb_store s' = rb_store s" "rb_lastExec s' = rb_lastExec s" "rb_cc s' = rb_cc s" "rb_status s' = rb_status s"
  using assms
  by (auto simp: executeBatch_def executeEffect_def Let_def setConfigBatchToExecute_def
      split: prod.splits if_splits Option.bind_splits)

lemma afterCommitBlock_D:
  assumes "afterCommitBlock idx c s = Some s'"
  shows "rb_out s' = rb_out s" "rb_lastExec s' = fst (snd idx)" "rb_cc s' = rb_cc s"
    "rb_store s' = sm_committedCert_update (gdel idx) (rb_store s)"
    "rb_status s' = rb_status s \<or> rb_status s' = statusOn [waitCheckpointBatchExecute] (rb_status s)"
    "rin waitCheckpointBatchExecute s' \<longleftrightarrow> rin waitCheckpointBatchExecute s \<or> c \<or> fst (snd idx) mod checkpointPeriod s = 0"
  using assms by (auto simp: afterCommitBlock_def Let_def rin_def checkpointPeriod_def split: if_splits)

lemma commitOne_D:
  assumes "commitOne E idx cert s = Some s'" "rcert idx s = Some cert"
  shows "\<exists>ef. executeEffect E idx cert s = Some ef \<and> rb_out s' = rb_out s @ [ef]"
    "rb_lastExec s' = fst (snd idx)"
    "sm_committedCert (rb_store s') = gdel idx (sm_committedCert (rb_store s))"
    "sm_certStore (rb_store s') = gmodify idx (\<lambda>c. c\<lparr>mc_sentExecute := True\<rparr>) (sm_certStore (rb_store s))"
    "rb_cc s' = rb_cc s" "sm_batchStore (rb_store s') = sm_batchStore (rb_store s)"
    "rb_status s' = rb_status s \<or> rb_status s' = statusOn [waitCheckpointBatchExecute] (rb_status s)"
    "rin waitCheckpointBatchExecute s' \<longleftrightarrow> rin waitCheckpointBatchExecute s \<or> mc_isConfig cert
       \<or> fst (snd idx) mod checkpointPeriod s = 0"
proof -
  from assms(1) obtain s1 s2 where b: "beforeExecute E idx s = Some s1" and x: "executeBatch E idx cert s1 = Some s2"
    and a: "afterCommitBlock idx (mc_isConfig cert) (modCert idx (\<lambda>c. c\<lparr>mc_sentExecute := True\<rparr>)
              (rb_store_update (sm_outstanding_update (gdel (snd (snd idx)))) s2)) = Some s'"
    by (auto simp: commitOne_def split: option.splits)
  note f1 = beforeExecute_D [OF b assms(2)] and f2 = executeBatch_D [OF x] and f3 = afterCommitBlock_D [OF a]
  have "executeEffect E idx cert s1 = executeEffect E idx cert s" unfolding executeEffect_def f1(1) ..
  then show "\<exists>ef. executeEffect E idx cert s = Some ef \<and> rb_out s' = rb_out s @ [ef]"
    using f1 f2(1) f3(1) by (simp add: modCert_def)
  show "rb_lastExec s' = fst (snd idx)"
    "sm_committedCert (rb_store s') = gdel idx (sm_committedCert (rb_store s))"
    "sm_certStore (rb_store s') = gmodify idx (\<lambda>c. c\<lparr>mc_sentExecute := True\<rparr>) (sm_certStore (rb_store s))"
    "rb_cc s' = rb_cc s" "sm_batchStore (rb_store s') = sm_batchStore (rb_store s)"
    "rb_status s' = rb_status s \<or> rb_status s' = statusOn [waitCheckpointBatchExecute] (rb_status s)"
    "rin waitCheckpointBatchExecute s' \<longleftrightarrow> rin waitCheckpointBatchExecute s \<or> mc_isConfig cert
       \<or> fst (snd idx) mod checkpointPeriod s = 0"
    using f1 f2 f3 by (auto simp: modCert_def rin_def checkpointPeriod_def)
qed

lemma commitOne_shorter:
  assumes "findNextCommitBatch s = Some (idx, cert)" "commitOne E idx cert s = Some s'"
  shows "List.length (sm_committedCert (rb_store s')) < List.length (sm_committedCert (rb_store s))"
  unfolding commitOne_D(3) [OF assms(2) findNextCommitBatch_D(2) [OF assms(1)]]
  by (rule gdel_shorter) (rule findNextCommitBatch_D(1) [OF assms(1)])

function commitLoop :: "'p env \<Rightarrow> 'p act" where
  "commitLoop E s =
     (case findNextCommitBatch s of
        None \<Rightarrow> Some s
      | Some (idx, cert) \<Rightarrow> (case commitOne E idx cert s of None \<Rightarrow> None | Some s' \<Rightarrow> commitLoop E s'))"
  by pat_completeness auto
termination
  by (relation "measure (\<lambda>(E, s). List.length (sm_committedCert (rb_store s)))")
    (auto intro: commitOne_shorter)

declare commitLoop.simps [simp del]

definition commitPendingBlocks :: "'p env \<Rightarrow> 'p act" where
  "commitPendingBlocks E s = do {
     s1 \<leftarrow> commitLoop E s;
     (if \<not> rin waitCheckpointBatchExecute s1 then startTimerIfOutstandingRequests E s1 else Some s1) }"

section \<open>Execution is contiguous and backed by quorums\<close>

definition exHeight :: "effect \<Rightarrow> u64 option" where
  "exHeight ef = (case ef of Execute _ _ n _ _ \<Rightarrow> Some n | _ \<Rightarrow> None)"

definition unsent :: "msgCert \<Rightarrow> msgCert" where
  "unsent c = c\<lparr>mc_sentExecute := False\<rparr>"

definition sameCerts :: "'p replica \<Rightarrow> 'p replica \<Rightarrow> bool" where
  \<comment> \<open>equal up to the marks of executed certificates\<close>
  "sameCerts s t = (rb_cc s = rb_cc t \<and> sm_batchStore (rb_store s) = sm_batchStore (rb_store t) \<and>
     (\<forall>idx. map_option unsent (rcert idx s) = map_option unsent (rcert idx t)))"

lemma sameCerts_dest:
  assumes "sameCerts s t"
  shows "map_option unsent (rcert idx s) = map_option unsent (rcert idx t)" "rb_cc s = rb_cc t"
    "sm_batchStore (rb_store s) = sm_batchStore (rb_store t)"
  using assms unfolding sameCerts_def by blast+

lemma unsent_eqD:
  assumes "unsent c = unsent c'"
  shows "mc_prePrepare c = mc_prePrepare c'" "mc_prepare c = mc_prepare c'" "mc_commit c = mc_commit c'"
    "mc_isConfig c = mc_isConfig c'"
  using assms by (cases c; cases c'; simp add: unsent_def)+

lemma sameCerts_committed:
  assumes "sameCerts s t"
  shows "committed idx s = committed idx t"
proof -
  note d = sameCerts_dest(1) [OF assms, of idx] sameCerts_dest(2,3) [OF assms]
  show ?thesis
  proof (cases "rcert idx s")
    case None
    then show ?thesis using d by (cases idx) (simp add: committed_def)
  next
    case (Some c)
    then obtain c' where c': "rcert idx t = Some c'" and u: "unsent c = unsent c'"
      using d by (cases "rcert idx t") simp_all
    show ?thesis
      unfolding committed_def prepared_def prePrepared_def Some c' option.case unsent_eqD [OF u] d(2) ..
  qed
qed

lemma sameCerts_effect:
  assumes "sameCerts s t" "rcert idx t = Some c" "rcert idx s = Some c'"
  shows "executeEffect E idx c t = executeEffect E idx c' s"
proof -
  note d = sameCerts_dest(1) [OF assms(1), of idx] sameCerts_dest(2,3) [OF assms(1)]
  then have u: "unsent c = unsent c'" using assms(2,3) by simp
  show ?thesis unfolding executeEffect_def d(3) unsent_eqD(1) [OF u] ..
qed

lemma executeEffect_height: "executeEffect E idx c s = Some ef \<Longrightarrow> exHeight ef = Some (fst (snd idx))"
  by (auto simp: executeEffect_def exHeight_def split: option.splits if_splits)

lemma commitOne_sameCerts:
  assumes "commitOne E idx cert s = Some s'" "rcert idx s = Some cert"
  shows "sameCerts s s'"
proof -
  note od = commitOne_D [OF assms]
  have "map_option unsent (rcert i s) = map_option unsent (rcert i s')" for i
    unfolding rcert_def od(4) gget_gmodify
    by (cases "i = idx"; cases "gget (sm_certStore (rb_store s)) i") (simp_all add: unsent_def)
  then show ?thesis using od(5,6) by (simp add: sameCerts_def)
qed

lemma sameCerts_trans: "sameCerts s t \<Longrightarrow> sameCerts t u \<Longrightarrow> sameCerts s u"
  by (simp add: sameCerts_def)

definition backed :: "'p env \<Rightarrow> 'p replica \<Rightarrow> u64 \<Rightarrow> effect \<Rightarrow> bool" where
  \<comment> \<open>the effect executes a certificate of this height that the replica holds as committed\<close>
  "backed E s n ef = (\<exists>idx cert. fst (snd idx) = n \<and> rcert idx s = Some cert \<and> committed idx s \<and>
     executeEffect E idx cert s = Some ef)"

lemma commitLoop_D:
  assumes "commitLoop E s = Some s'"
  shows "\<exists>efs. rb_out s' = rb_out s @ efs \<and> rb_lastExec s' = rb_lastExec s + of_nat (List.length efs) \<and>
    rb_cc s' = rb_cc s \<and> sameCerts s s' \<and>
    (\<forall>i < List.length efs. exHeight (efs ! i) = Some (rb_lastExec s + 1 + of_nat i)
       \<and> backed E s (rb_lastExec s + 1 + of_nat i) (efs ! i)) \<and>
    (rin waitCheckpointBatchExecute s \<longrightarrow> efs = []) \<and>
    (\<forall>i. i + 1 < List.length efs \<longrightarrow> (rb_lastExec s + 1 + of_nat i) mod checkpointPeriod s \<noteq> 0)"
  using assms
proof (induction E s arbitrary: s' rule: commitLoop.induct)
  case (1 E s)
  show ?case
  proof (cases "findNextCommitBatch s")
    case None
    then have "s' = s" using "1.prems" by (subst (asm) commitLoop.simps) simp
    then show ?thesis by (intro exI [of _ "[]"]) (simp add: sameCerts_def)
  next
    case (Some p)
    then obtain idx cert where f: "findNextCommitBatch s = Some (idx, cert)" by (cases p) auto
    obtain s1 where one: "commitOne E idx cert s = Some s1" and rest: "commitLoop E s1 = Some s'"
      using "1.prems" f by (subst (asm) commitLoop.simps) (auto split: option.splits)
    note fd = findNextCommitBatch_D [OF f] and od = commitOne_D [OF one fd(2)]
    obtain ef where ef: "executeEffect E idx cert s = Some ef" "rb_out s1 = rb_out s @ [ef]" using od(1) by blast
    have same: "sameCerts s s1" by (rule commitOne_sameCerts [OF one fd(2)])
    from "1.IH" [OF f refl one rest] obtain efs where efs:
      "rb_out s' = rb_out s1 @ efs" "rb_lastExec s' = rb_lastExec s1 + of_nat (List.length efs)" "rb_cc s' = rb_cc s1"
      "sameCerts s1 s'"
      "\<forall>i < List.length efs. exHeight (efs ! i) = Some (rb_lastExec s1 + 1 + of_nat i)
         \<and> backed E s1 (rb_lastExec s1 + 1 + of_nat i) (efs ! i)"
      "rin waitCheckpointBatchExecute s1 \<longrightarrow> efs = []"
      "\<forall>i. i + 1 < List.length efs \<longrightarrow> (rb_lastExec s1 + 1 + of_nat i) mod checkpointPeriod s1 \<noteq> 0"
      by blast
    have le: "rb_lastExec s1 = rb_lastExec s + 1" using od(2) fd(4) by simp
    have bk: "backed E s n e" if "backed E s1 n e" for n e
    proof -
      from that obtain i c where i: "fst (snd i) = n" "rcert i s1 = Some c" "committed i s1" "executeEffect E i c s1 = Some e"
        by (auto simp: backed_def)
      obtain c' where "rcert i s = Some c'"
        using sameCerts_dest(1) [OF same, of i] i(2) by (cases "rcert i s") auto
      then show ?thesis
        unfolding backed_def using i sameCerts_committed [OF same, of i] sameCerts_effect [OF same i(2)] by metis
    qed
    have h0: "exHeight ef = Some (rb_lastExec s + 1) \<and> backed E s (rb_lastExec s + 1) ef"
      using executeEffect_height [OF ef(1)] fd ef unfolding backed_def by metis
    have hs: "exHeight ((ef # efs) ! i) = Some (rb_lastExec s + 1 + of_nat i)
         \<and> backed E s (rb_lastExec s + 1 + of_nat i) ((ef # efs) ! i)" if "i < List.length (ef # efs)" for i
      using that h0 efs(5) bk le by (cases i) (auto simp: algebra_simps)
    have stop: "(rb_lastExec s + 1 + of_nat i) mod checkpointPeriod s \<noteq> 0" if "i + 1 < List.length (ef # efs)" for i
    proof (cases i)
      case 0
      then have "\<not> rin waitCheckpointBatchExecute s1" using that efs(6) by auto
      then show ?thesis using od(8) fd(4) 0 by simp
    next
      case (Suc j)
      then show ?thesis using efs(7) that le od(5) by (simp add: checkpointPeriod_def algebra_simps)
    qed
    show ?thesis
      by (rule exI [of _ "ef # efs"])
        (use ef(2) efs(1-4) le od(5) hs stop fd(7) sameCerts_trans [OF same efs(4)] in \<open>simp add: algebra_simps\<close>)
  qed
qed

lemma startTimerIfOutstandingRequests_frame:
  assumes "startTimerIfOutstandingRequests E s = Some s'"
  shows "rb_store s' = rb_store s" "rb_lastExec s' = rb_lastExec s" "rb_out s' = rb_out s" "rb_cc s' = rb_cc s"
    "rb_status s' = rb_status s" "rb_epoch s' = rb_epoch s" "rb_vc s' = rb_vc s" "rb_batch s' = rb_batch s"
  using assms
  by (auto simp: startTimerIfOutstandingRequests_def softStartNewViewTimer_def softStartT_def nullReqTimerReset_def
      startTNew_def Let_def split: if_splits)

text \<open>
  C9. What \<open>commitPendingBlocks\<close> hands to the application continues the chain without a gap: the
  heights are \<open>lastExec + 1\<close>, \<open>lastExec + 2\<close>, and so on; each of them executes a certificate that
  the replica held as committed (a pre-prepare, a quorum of prepares and a quorum of commits);
  nothing is executed while the replica waits for a checkpoint, and nothing after a checkpoint height.
\<close>

theorem commit_contiguous_backed:
  assumes "commitPendingBlocks E s = Some s'"
  shows "\<exists>efs. rb_out s' = rb_out s @ efs \<and> rb_lastExec s' = rb_lastExec s + of_nat (List.length efs) \<and>
    (\<forall>i < List.length efs. exHeight (efs ! i) = Some (rb_lastExec s + 1 + of_nat i) \<and>
       backed E s (rb_lastExec s + 1 + of_nat i) (efs ! i)) \<and>
    (rin waitCheckpointBatchExecute s \<longrightarrow> efs = []) \<and>
    (\<forall>i. i + 1 < List.length efs \<longrightarrow> (rb_lastExec s + 1 + of_nat i) mod checkpointPeriod s \<noteq> 0)"
proof -
  from assms obtain s1 where l: "commitLoop E s = Some s1"
    and f: "s' = s1 \<or> startTimerIfOutstandingRequests E s1 = Some s'"
    by (auto simp: commitPendingBlocks_def split: Option.bind_splits if_splits)
  have "rb_out s' = rb_out s1" "rb_lastExec s' = rb_lastExec s1"
    using f startTimerIfOutstandingRequests_frame [of E s1 s'] by auto
  with commitLoop_D [OF l] show ?thesis by auto
qed

definition sampleBatch :: requestBatch where
  "sampleBatch = \<lparr>rq_hashes = [''a''], rq_txs = [[97]], rq_timestamp = 5, rq_seqNo = 1, rq_local = [True],
     rq_hash = ''d1'', rq_proposer = 2\<rparr>"

definition sampleCert :: msgCert where
  "sampleCert = \<lparr>mc_prePrepare = Some samplePrePrepare, mc_sentPrepare = True,
     mc_prepare = map (\<lambda>i. (pr_ID \<lparr>pr_replicaId = i, pr_view = 1, pr_n = 1, pr_digest = ''d1''\<rparr>,
        \<lparr>pr_replicaId = i, pr_view = 1, pr_n = 1, pr_digest = ''d1''\<rparr>)) [1, 3], mc_sentCommit = True,
     mc_commit = map (\<lambda>i. (cm_ID \<lparr>cm_replicaId = i, cm_view = 1, cm_n = 1, cm_digest = ''d1''\<rparr>,
        \<lparr>cm_replicaId = i, cm_view = 1, cm_n = 1, cm_digest = ''d1''\<rparr>)) [1, 2, 3], mc_sentExecute = False,
     mc_isConfig = False\<rparr>"

definition sampleCommitted :: "unit replica" where
  "sampleCommitted = sampleReplica\<lparr>rb_store := newStoreMgr\<lparr>sm_certStore := [((1, 1, ''d1''), sampleCert)],
     sm_committedCert := [((1, 1, ''d1''), ''d1'')], sm_batchStore := [(''d1'', sampleBatch)]\<rparr>\<rparr>"

lemma sampleCommitted_runs:
  "map_option rb_out (commitPendingBlocks sampleEnv sampleCommitted) = Some [Execute [[97]] [True] 1 5 2]"
  by code_simp

theorem commit_contiguous_backed_witness:
  "\<exists>s'. commitPendingBlocks sampleEnv sampleCommitted = Some s' \<and> rb_out s' = [Execute [[97]] [True] 1 5 2] \<and>
     backed sampleEnv sampleCommitted 1 (Execute [[97]] [True] 1 5 2)"
proof -
  obtain s' where s': "commitPendingBlocks sampleEnv sampleCommitted = Some s'" "rb_out s' = [Execute [[97]] [True] 1 5 2]"
    using sampleCommitted_runs by auto
  have z: "rb_out sampleCommitted = []" "rb_lastExec sampleCommitted = 0" by (simp_all add: sampleCommitted_def)
  from commit_contiguous_backed [OF s'(1)] s' z show ?thesis by auto
qed

end
