(* ===== verification/Normal.thy ===== *)
theory Normal
  imports Execution
begin

text \<open>
  The normal case (\<open>rbft_impl.go\<close>, \<open>batch_mgr.go\<close>, \<open>store_mgr.go\<close>, \<open>recovery_mgr.go\<close>): batching by
  the primary, the phases pre-prepare, prepare and commit, the fetching of missing transactions and
  of missing certificates. The handlers of the three phases return only an encoding error, which
  their callers ignore: they are actions. A view change they start returns an event that is dropped.
\<close>

section \<open>Commit\<close>

definition dropEvent :: "'p handler \<Rightarrow> 'p act" where
  "dropEvent h s = map_option snd (h s)"

definition recvCommit :: "'p env \<Rightarrow> commit \<Rightarrow> 'p act" where
  "recvCommit E c s =
     (if \<not> isCommitLegal c s then
        Some (if isProposerElectionTypeWRF (rb_cc s) \<and> cm_view c > cc_view (rb_cc s) \<and> \<not> beyondRange (cm_n c) s
              then cacheHighView (cm_view c) (wc_commits_update (\<lambda>l. l @ [c])) s else s)
      else let idx = (cm_view c, cm_n c, cm_digest c) in
        case getCert idx s of (cert, s1) \<Rightarrow>
          if ghas (mc_commit cert) (cm_ID c) \<and> cm_n c \<le> rb_lastExec s1 then Some s1
          else let s2 = (if \<not> risValidator s1 \<and> cm_replicaId c = selfID s1 then s1
                         else modCert idx (mc_commit_update (gput (cm_ID c) c)) s1) in
            if \<not> committed idx s2 then Some s2
            else if mc_sentExecute cert \<or> \<not> mc_sentCommit cert then Some s2
            else do {
              s3 \<leftarrow> commitPendingBlocks E
                     (rb_store_update (sm_committedCert_update (gput idx (cm_digest c))) s2);
              (if rin waitCheckpointBatchExecute s3 then Some s3
               else let s4 = rb_vc_update (vm_lastNewViewTimeout_update (\<lambda>_. timeoutOf newViewTimer s3)) s3 in
                 if cm_n c = vm_viewChangeSeqNo (rb_vc s4) then dropEvent (sendViewChange E False) s4
                 else Some s4) })"

definition sendCommit :: "'p env \<Rightarrow> msgID \<Rightarrow> 'p act" where
  "sendCommit E idx s =
     (case idx of (v, n, d) \<Rightarrow>
        let s1 = modCert idx (\<lambda>c. c\<lparr>mc_sentCommit := True\<rparr>) (snd (getCert idx s));
            c = \<lparr>cm_replicaId = selfID s1, cm_view = v, cm_n = n, cm_digest = d\<rparr>;
            s2 = persistPSet idx s1;
            s3 = (if risValidator s2 then broadcast (MCommit c) s2 else s2)
        in recvCommit E c s3)"

definition maybeSendCommit :: "'p env \<Rightarrow> msgID \<Rightarrow> 'p act" where
  "maybeSendCommit E idx s =
     (if rin SkipInProgress s then Some s
      else case getCert idx s of (cert, s1) \<Rightarrow>
        if \<not> prepared idx s1 then Some s1
        else if \<not> isPrimary (selfID s1) s1 \<and> \<not> mc_sentPrepare cert then Some s1
        else if mc_sentCommit cert then Some s1
        else sendCommit E idx s1)"

section \<open>Prepare\<close>

definition recvPrepare :: "'p env \<Rightarrow> prepare \<Rightarrow> 'p act" where
  "recvPrepare E p s =
     (if \<not> isPrepareLegal p s then
        Some (if isProposerElectionTypeWRF (rb_cc s) \<and> pr_view p > cc_view (rb_cc s) \<and> \<not> beyondRange (pr_n p) s
              then cacheHighView (pr_view p) (wc_prepares_update (\<lambda>l. l @ [p])) s else s)
      else let idx = (pr_view p, pr_n p, pr_digest p) in
        case getCert idx s of (cert, s1) \<Rightarrow>
          if ghas (mc_prepare cert) (pr_ID p) then Some s1
          else let s2 = (if \<not> risValidator s1 \<and> pr_replicaId p = selfID s1 then s1
                         else modCert idx (mc_prepare_update (gput (pr_ID p) p)) s1)
            in maybeSendCommit E idx s2)"

definition sendPrepare :: "'p env \<Rightarrow> msgID \<Rightarrow> 'p act" where
  "sendPrepare E idx s =
     (case idx of (v, n, d) \<Rightarrow>
        let s1 = modCert idx (\<lambda>c. c\<lparr>mc_sentPrepare := True\<rparr>) (snd (getCert idx s));
            p = \<lparr>pr_replicaId = selfID s1, pr_view = v, pr_n = n, pr_digest = d\<rparr>;
            s2 = (if risValidator s1 then broadcast (MPrepare p) s1 else s1)
        in recvPrepare E p s2)"

definition fetchMissingTxs :: "'p env \<Rightarrow> prePrepare \<Rightarrow> (u64, string) gomap \<Rightarrow> 'p replica \<Rightarrow> 'p replica" where
  "fetchMissingTxs E pp missing s =
     (if ghas (sm_missingInFetching (rb_store s)) (pp_digest pp) then s
      else let fetch = \<lparr>fm_replicaId = selfID s, fm_view = pp_view pp, fm_n = pp_n pp, fm_digest = pp_digest pp,
                  fm_hashes = missing\<rparr>
        in unicast E (MFetchMissingRequest fetch) (pp_replicaId pp)
             (rb_store_update (sm_missingInFetching_update
                (gput (pp_digest pp) (pp_view pp, pp_n pp, pp_digest pp))) s))"

section \<open>Pre-prepare\<close>

definition withPool :: "'p \<Rightarrow> 'p replica \<Rightarrow> 'p replica" where
  "withPool p s = s\<lparr>rb_pool := p\<rparr>"

definition storeBatch :: "string \<Rightarrow> requestBatch \<Rightarrow> 'p act" where
  \<comment> \<open>the batch becomes outstanding, known and durable\<close>
  "storeBatch d b s =
     persistBatch d (rb_store_update (\<lambda>m. m\<lparr>sm_outstanding := gput d b (sm_outstanding m),
       sm_batchStore := gput d b (sm_batchStore m)\<rparr>) s)"

definition noticeConfigBatch :: "msgID \<Rightarrow> requestBatch \<Rightarrow> 'p replica \<Rightarrow> 'p replica" where
  "noticeConfigBatch idx b s =
     (if risConfigBatch (rq_seqNo b) s
      then rb_epoch_update (em_configBatchInOrder_update (\<lambda>_. fst (snd idx)))
             (modCert idx (\<lambda>c. c\<lparr>mc_isConfig := True\<rparr>) (raOn InConfChange s))
      else s)"

definition assembleBatch :: "'p env \<Rightarrow> msgID \<Rightarrow> prePrepare \<Rightarrow> 'p act" where
  \<comment> \<open>\<open>findNextPrepareBatch\<close> for a batch that is not stored: its transactions come from the pool\<close>
  "assembleBatch E idx pp s =
     (case pp_hashBatch pp of
        None \<Rightarrow> None
      | Some hb \<Rightarrow>
          (case en_poolGetRequests E (snd (snd idx)) (hb_timestamp hb) (hb_hashes hb) (hb_deDuplicate hb) (rb_pool s) of
             (PoolError, q) \<Rightarrow> dropEvent (sendViewChange E False) (withPool q s)
           | (PoolMissing missing, q) \<Rightarrow> Some (fetchMissingTxs E pp missing (withPool q s))
           | (PoolFound txs ls, q) \<Rightarrow>
               let b = \<lparr>rq_hashes = hb_hashes hb, rq_txs = txs, rq_timestamp = hb_timestamp hb,
                        rq_seqNo = pp_n pp, rq_local = ls, rq_hash = snd (snd idx), rq_proposer = hb_proposer hb\<rparr>
               in do { s2 \<leftarrow> storeBatch (snd (snd idx)) b (withPool q s);
                       sendPrepare E idx (noticeConfigBatch idx b s2) }))"

definition findNextPrepareBatch :: "'p env \<Rightarrow> msgID \<Rightarrow> 'p act" where
  "findNextPrepareBatch E idx s =
     (case idx of (v, n, d) \<Rightarrow>
      if v \<noteq> cc_view (rb_cc s) then Some s
      else case getCert idx s of (cert, s1) \<Rightarrow>
        case mc_prePrepare cert of
          None \<Rightarrow> Some s1
        | Some pp \<Rightarrow>
            if rin SkipInProgress s1 then Some s1
            else if d = [] then sendPrepare E idx s1
            else case gget (sm_batchStore (rb_store s1)) d of
                Some b \<Rightarrow> sendPrepare E idx (noticeConfigBatch idx b s1)
              | None \<Rightarrow> assembleBatch E idx pp s1)"

definition digestOk :: "'p env \<Rightarrow> prePrepare \<Rightarrow> bool option" where
  \<comment> \<open>the digest check of \<open>recvPrePrepare\<close>; a nil \<open>HashBatch\<close> is dereferenced\<close>
  "digestOk E pp =
     (case pp_hashBatch pp of
        None \<Rightarrow> None
      | Some hb \<Rightarrow>
          if pp_digest pp = [] then Some (hb_hashes hb = [])
          else Some (calculateMD5Hash E (hb_hashes hb) (hb_timestamp hb) = pp_digest pp))"

definition acceptPrePrepare :: "'p env \<Rightarrow> prePrepare \<Rightarrow> 'p act" where
  \<comment> \<open>\<open>recvPrePrepare\<close> from the point where the message is accepted\<close>
  "acceptPrePrepare E pp s =
     (let idx = (pp_view pp, pp_n pp, pp_digest pp);
          s1 = (if pp_n pp > rb_lastExec s then stopT nullRequestTimer s else s);
          s2 = modCert idx (\<lambda>c. c\<lparr>mc_prePrepare := Some pp\<rparr>) (snd (getCert idx s1));
          s3 = rb_store_update (sm_seqMap_update (gput (pp_n pp) (pp_digest pp))) s2
      in do {
        s4 \<leftarrow> (if \<not> rin SkipInProgress s3 \<and> pp_n pp > rb_lastExec s3
               then map_option exitSyncState (softStartNewViewTimer E (timeoutOf requestTimer s3) False s3)
               else Some s3);
        (let s5 = persistQSet (Some pp) s4 in
         case getCert idx s5 of (cert, _) \<Rightarrow>
           if \<not> isPrimary (selfID s5) s5 \<and> \<not> mc_sentPrepare cert then findNextPrepareBatch E idx s5 else Some s5) })"

definition recvPrePrepare :: "'p env \<Rightarrow> prePrepare \<Rightarrow> 'p act" where
  "recvPrePrepare E pp s =
     (if \<not> isPrePrepareLegal pp s then
        Some (if isProposerElectionTypeWRF (rb_cc s) \<and> pp_view pp > cc_view (rb_cc s) \<and> \<not> beyondRange (pp_n pp) s
              then cacheHighView (pp_view pp) (wc_prePrepares_update (\<lambda>l. l @ [pp])) s else s)
      else if gget (sm_seqMap (rb_store s)) (pp_n pp) \<notin> {None, Some (pp_digest pp)}
        then dropEvent (sendViewChange E False) s
      else do {
        s1 \<leftarrow> (if beyondRange (pp_n pp) s then softStartHighWatermarkTimer E s else Some s);
        ok \<leftarrow> digestOk E pp;
        (if ok then acceptPrePrepare E pp s1 else dropEvent (sendViewChange E False) s1) })"

section \<open>Batching by the primary\<close>

definition sendPrePrepare :: "u64 \<Rightarrow> string \<Rightarrow> requestBatch \<Rightarrow> 'p replica \<Rightarrow> 'p replica" where
  "sendPrePrepare n d b s =
     (let hb = \<lparr>hb_hashes = rq_hashes b, hb_deDuplicate = [], hb_timestamp = rq_timestamp b,
                hb_proposer = rq_proposer b\<rparr>;
          v = cc_view (rb_cc s);
          pp = \<lparr>pp_replicaId = selfID s, pp_view = v, pp_n = n, pp_digest = d, pp_hashBatch = Some hb\<rparr>;
          s1 = modCert (v, n, d) (\<lambda>c. c\<lparr>mc_isConfig := risConfigBatch (rq_seqNo b) s, mc_prePrepare := Some pp\<rparr>)
                 (snd (getCert (v, n, d) s));
          s2 = broadcast (MPrePrepare pp) (persistQSet (Some pp) s1);
          s3 = rb_batch_update (bm_seqNo_update (\<lambda>_. n)) s2
      in exitSyncState (rb_store_update (sm_seqMap_update (gput n d)) s3))"

definition sendBatch :: "'p env \<Rightarrow> requestBatch \<Rightarrow> 'p replica \<Rightarrow> (bool \<times> 'p replica) option" where
  \<comment> \<open>\<open>maybeSendPrePrepare\<close> once the batch is chosen; the flag tells whether it goes on with the cache\<close>
  "sendBatch E b0 s =
     (let n = bm_seqNo (rb_batch s) + 1; d = rq_hash b0 in
      if existedDigest (cc_view (rb_cc s)) n d s then Some (False, s)
      else do {
        let b = b0\<lparr>rq_seqNo := n\<rparr>;
        s1 \<leftarrow> storeBatch d b s;
        s2 \<leftarrow> softStartNewViewTimer E (timeoutOf requestTimer s1) False s1;
        let s3 = sendPrePrepare n d b s2;
        Some (sendInW (n + 1) s3 \<and> bm_cacheBatch (rb_batch s3) \<noteq> [], s3) })"

definition maybeSendPrePrepareStep ::
  "'p env \<Rightarrow> requestBatch option \<Rightarrow> 'p replica \<Rightarrow> (bool \<times> 'p replica) option" where
  \<comment> \<open>one activation of \<open>maybeSendPrePrepare\<close>: \<open>None\<close> as batch is the call \<open>(nil, true)\<close>, which takes the
     next batch from the cache\<close>
  "maybeSendPrePrepareStep E ob s =
     (if \<not> risValidator s then Some (False, s)
      else if rin waitCheckpointBatchExecute s then Some (False, s)
      else let n = bm_seqNo (rb_batch s) + 1 in
        if beyondRange n s \<or> \<not> inPrimaryTerm s then
          if \<not> inPrimaryTerm s
          then Some (False, case ob of None \<Rightarrow> s | Some b \<Rightarrow> withPool (en_poolRestoreOne E (rq_hash b) (rb_pool s)) s)
          else map_option (Pair False) (softStartHighWatermarkTimer E
                 (case ob of None \<Rightarrow> s
                  | Some b \<Rightarrow> rb_batch_update (bm_cacheBatch_update (\<lambda>l. l @ [b])) s))
        else case ob of
            Some b \<Rightarrow> sendBatch E b s
          | None \<Rightarrow> (case bm_cacheBatch (rb_batch s) of
              [] \<Rightarrow> None
            | b # rest \<Rightarrow> sendBatch E b (rb_batch_update (bm_cacheBatch_update (\<lambda>_. rest)) s)))"

lemma storeBatch_batch: "storeBatch d b s = Some s' \<Longrightarrow> rb_batch s' = rb_batch s"
  by (auto simp: storeBatch_def persistBatch_def storeState_def)

lemma softStartNewViewTimer_batch: "softStartNewViewTimer E t f s = Some s' \<Longrightarrow> rb_batch s' = rb_batch s"
  by (auto simp: softStartNewViewTimer_def softStartT_def)

lemma exitSyncState_batch [simp]: "rb_batch (exitSyncState s) = rb_batch s"
  by (simp add: exitSyncState_def stopT_def roff_def)

lemma getCert_batch [simp]: "rb_batch (snd (getCert idx s)) = rb_batch s"
  by (simp add: getCert_def split: option.split)

lemma sendPrePrepare_cache [simp]:
  "bm_cacheBatch (rb_batch (sendPrePrepare n d b s)) = bm_cacheBatch (rb_batch s)"
  by (simp add: sendPrePrepare_def Let_def persistQSet_def storeState_def broadcast_def emit_def modCert_def)

lemma sendBatch_cache:
  assumes "sendBatch E b s = Some (again, s')"
  shows "bm_cacheBatch (rb_batch s') = bm_cacheBatch (rb_batch s) \<and> (again \<longrightarrow> bm_cacheBatch (rb_batch s') \<noteq> [])"
  using assms
  by (auto simp: sendBatch_def Let_def split: if_splits Option.bind_splits
      dest!: storeBatch_batch softStartNewViewTimer_batch)

definition batchRank :: "requestBatch option \<Rightarrow> 'p replica \<Rightarrow> nat" where
  "batchRank ob s = 2 * List.length (bm_cacheBatch (rb_batch s)) + (if ob = None then 0 else 1)"

lemma maybeSendPrePrepare_decreases:
  assumes "maybeSendPrePrepareStep E ob s = Some (True, s')"
  shows "batchRank None s' < batchRank ob s"
  using assms
  by (auto simp: maybeSendPrePrepareStep_def Let_def batchRank_def dest!: sendBatch_cache
      split: if_splits option.splits list.splits)

function maybeSendPrePrepare :: "'p env \<Rightarrow> requestBatch option \<Rightarrow> 'p act" where
  "maybeSendPrePrepare E ob s =
     (case maybeSendPrePrepareStep E ob s of
        None \<Rightarrow> None
      | Some (again, s') \<Rightarrow> if again then maybeSendPrePrepare E None s' else Some s')"
  by pat_completeness auto
termination
  by (relation "measure (\<lambda>(E, ob, s). batchRank ob s)") (auto dest: maybeSendPrePrepare_decreases)

declare maybeSendPrePrepare.simps [simp del]

definition recvRequestBatch :: "'p env \<Rightarrow> requestBatch option \<Rightarrow> 'p act" where
  \<comment> \<open>a nil batch is dereferenced at once\<close>
  "recvRequestBatch E ob s =
     (case ob of
        None \<Rightarrow> None
      | Some r \<Rightarrow>
          let b = r\<lparr>rq_seqNo := bm_seqNo (rb_batch s) + 1, rq_proposer := selfID s\<rparr> in
          if isPrimary (selfID s) s \<and> risNormal s \<and> \<not> ratomicIn InConfChange s \<and> inPrimaryTerm s
          then let s1 = stopT nullRequestTimer (if risConfigBatch (rq_seqNo b) s then raOn InConfChange s else s) in
            if bm_cacheBatch (rb_batch s1) \<noteq> []
            then maybeSendPrePrepare E None (rb_batch_update (bm_cacheBatch_update (\<lambda>l. l @ [b])) s1)
            else maybeSendPrePrepare E (Some b) s1
          else Some (withPool (en_poolRestoreOne E (rq_hash r) (rb_pool s)) s))"

definition postBatches :: "'p env \<Rightarrow> requestBatch option list \<Rightarrow> 'p act" where
  "postBatches E = mfold (recvRequestBatch E)"

partial_function (option) resubmitLoop :: "'p env \<Rightarrow> 'p act" where
  \<comment> \<open>the loop of \<open>primaryResubmitTransactions\<close>, which ends only if the pool runs out of pending
     transactions or batches: a run without end is \<open>None\<close>, like a panic\<close>
  [code]: "resubmitLoop E s =
     (if \<not> en_poolHasPending E (rb_pool s) then Some s
      else if \<not> risNormal s then Some s
      else if \<not> inPrimaryTerm s then Some s
      else if \<not> en_poolReady E (rb_pool s) then Some (withPool (en_poolReplySignal E (rb_pool s)) s)
      else (case en_poolGenerate E GenBatchFirst (rb_pool s) of
          (None, q) \<Rightarrow> Some (withPool q s)
        | (Some b, q) \<Rightarrow>
            Option.bind (postBatches E [b] (withPool (if b = None then en_poolReplySignal E q else q) s))
              (\<lambda>s1. if ratomicIn InConfChange s1 then Some s1 else resubmitLoop E s1)))"

definition primaryResubmitTransactions :: "'p env \<Rightarrow> 'p act" where
  "primaryResubmitTransactions E s =
     (if ratomicIn InConfChange s then Some s
      else let s1 = rb_batch_update (bm_lastBatchTime_update (\<lambda>_. 0)) s in
        if \<not> risNormal s1 then Some s1
        else do {
          s2 \<leftarrow> (if bm_cacheBatch (rb_batch s1) \<noteq> []
                 then maybeSendPrePrepare E None (stopT nullRequestTimer s1) else Some s1);
          resubmitLoop E s2 })"

section \<open>Null requests and rebroadcast\<close>

definition sendNullRequest :: "'p env \<Rightarrow> 'p act" where
  "sendNullRequest E s =
     (if ratomicIn InConfChange s then Some s
      else nullReqTimerReset E (broadcast (NullRequest (selfID s)) s))"

definition handleNullRequestTimerEvent :: "'p env \<Rightarrow> 'p act" where
  "handleNullRequestTimerEvent E s =
     (if ratomicIn InViewChange s then Some s
      else if \<not> isPrimary (selfID s) s then dropEvent (sendViewChange E False) s
      else do { s1 \<leftarrow> sendNullRequest E s; trySyncState E s1 })"

definition recvNullRequest :: "'p env \<Rightarrow> u64 \<Rightarrow> 'p handler" where
  "recvNullRequest E sender s =
     (if ratomicIn InViewChange s \<or> ratomicIn InConfChange s \<or> \<not> isPrimary sender s then Some (None, s)
      else let finish = (\<lambda>s. do { s1 \<leftarrow> trySyncState E s; s2 \<leftarrow> nullReqTimerReset E s1; Some (None, s2) }) in
        if vm_lastNullRequestSeqNo (rb_vc s) = bm_seqNo (rb_batch s) \<and> en_poolHasPending E (rb_pool s)
        then let s1 = rb_vc_update (vm_nullRequestCounter_update (\<lambda>k. k + 1)) s;
                 k = vm_nullRequestCounter (rb_vc s1); ps = ei_params (cc_epochInfo (rb_cc s1)) in
          if k > cp_reBroadcastTolerance ps then Some (Some (LocalEvent CoreRebroadcastTxs), s1)
          else if k > cp_continuousNullRequestTolerance ps
          then map_option (Pair None) (dropEvent (sendViewChange E False) s1)
          else finish s1
        else finish (rb_vc_update (\<lambda>m. m\<lparr>vm_nullRequestCounter := 1,
               vm_lastNullRequestSeqNo := bm_seqNo (rb_batch s)\<rparr>) s))"

function requestSets :: "nat \<Rightarrow> 'a list \<Rightarrow> 'a list list option" where
  \<comment> \<open>the sets \<open>processOutOfDateReqs\<close> broadcasts; with a set size of zero its loop has no end\<close>
  "requestSets n xs =
     (if xs = [] then Some []
      else if List.length xs \<le> n then Some [xs]
      else if n = 0 then None
      else map_option ((#) (take n xs)) (requestSets n (drop n xs)))"
  by pat_completeness auto
termination by (relation "measure (\<lambda>(n, xs). List.length xs)") auto

declare requestSets.simps [simp del]

definition processOutOfDateReqs :: "'p env \<Rightarrow> bool \<Rightarrow> 'p act" where
  "processOutOfDateReqs E timeout s =
     (case en_poolOutOfDate E timeout (rb_pool s) of (txs, q) \<Rightarrow>
        map_option (\<lambda>sets. fold (\<lambda>rs t. broadcast (ReBroadcastRequestSet (selfID t) rs) t) sets (withPool q s))
          (requestSets (cf_setSize (rb_config s)) txs))"

definition recvReBroadcastRequestSet :: "'p env \<Rightarrow> tx list \<Rightarrow> 'p replica \<Rightarrow> 'p replica" where
  "recvReBroadcastRequestSet E txs s =
     (if \<forall>t \<in> set txs. en_txDecodes E t then withPool (en_poolAddRebroadcast E txs (rb_pool s)) s else s)"

section \<open>Missing transactions\<close>

definition missingResponse :: "fetchMissingRequest \<Rightarrow> (u64, tx) gomap option \<Rightarrow> 'p replica \<Rightarrow> fetchMissingResponse" where
  \<comment> \<open>a failure leaves the map of requests empty\<close>
  "missingResponse f found s =
     \<lparr>fr_replicaId = selfID s, fr_view = fm_view f, fr_n = fm_n f, fr_digest = fm_digest f,
      fr_hashes = fm_hashes f, fr_requests = (case found of None \<Rightarrow> gempty | Some m \<Rightarrow> m), fr_success = (found \<noteq> None)\<rparr>"

fun collectMissing :: "requestBatch \<Rightarrow> (u64 \<times> string) list \<Rightarrow> (u64, tx) gomap \<Rightarrow> (u64, tx) gomap option option" where
  \<comment> \<open>\<open>Some None\<close>: a hash does not match; \<open>None\<close>: the batch has fewer transactions than hashes\<close>
  "collectMissing b [] acc = Some (Some acc)"
| "collectMissing b ((i, h) # rest) acc =
     (if unat i \<ge> List.length (rq_hashes b) \<or> rq_hashes b ! unat i \<noteq> h then Some None
      else if unat i \<ge> List.length (rq_txs b) then None
      else collectMissing b rest (gput i (rq_txs b ! unat i) acc))"

definition recvFetchMissingRequest :: "'p env \<Rightarrow> fetchMissingRequest \<Rightarrow> 'p act" where
  "recvFetchMissingRequest E f s =
     map_option
       (\<lambda>found. unicast E (MFetchMissingResponse (missingResponse f found s)) (fm_replicaId f) s)
       (case gget (sm_batchStore (rb_store s)) (fm_digest f) of
          Some b \<Rightarrow> collectMissing b (fm_hashes f) gempty
        | None \<Rightarrow> Some (en_poolSendMissing E (fm_digest f) (fm_hashes f) (rb_pool s)))"

definition recvFetchMissingResponse :: "'p env \<Rightarrow> fetchMissingResponse \<Rightarrow> 'p handler" where
  "recvFetchMissingResponse E r s =
     (if \<not> ghas (sm_missingInFetching (rb_store s)) (fr_digest r) then Some (None, s)
      else if fr_n r < rb_lastExec s then Some (None, s)
      else if gsize (fr_requests r) \<noteq> gsize (fr_hashes r) then Some (None, s)
      else if \<not> inV (fr_view r) s then Some (None, s)
      else if \<not> isPrimary (fr_replicaId r) s then Some (None, s)
      else let idx = (fr_view r, fr_n r, fr_digest r) in
        case getCert idx s of (cert, s1) \<Rightarrow>
          if mc_sentCommit cert then Some (None, s1)
          else if mc_prePrepare cert = None then Some (None, s1)
          else if \<not> (\<forall>(i, t) \<in> set (fr_requests r). en_txDecodes E t) then Some (None, s1)
          else (case en_poolReceiveMissing E (fr_digest r) (fr_requests r) (rb_pool s1) of
              (False, q) \<Rightarrow> sendViewChange E False (withPool q s1)
            | (True, q) \<Rightarrow> map_option (Pair None) (findNextPrepareBatch E idx (withPool q s1))))"

section \<open>Missing certificates\<close>

definition fetchRecoveryPQC :: "'p replica \<Rightarrow> 'p replica" where
  "fetchRecoveryPQC s = broadcast (FetchPQCRequest (selfID s) (cc_H (rb_cc s))) s"

definition ownPQC :: "u64 \<Rightarrow> 'p replica \<Rightarrow> (msgID, msgCert) gomap \<Rightarrow>
    prePrepare list \<times> prepare list \<times> commit list" where
  \<comment> \<open>\<open>findPQC\<close>: what this replica itself sent above a height in the current view\<close>
  "ownPQC h s certs =
     (let own = filter (\<lambda>((v, n, d), c). n > h \<and> v = cc_view (rb_cc s)) certs in
      (concat (map (\<lambda>(_, c). case mc_prePrepare c of None \<Rightarrow> []
                     | Some p \<Rightarrow> if pp_replicaId p = selfID s then [p] else []) own),
       concat (map (\<lambda>(_, c). filter (\<lambda>p. pr_replicaId p = selfID s) (map snd (mc_prepare c))) own),
       concat (map (\<lambda>(_, c). filter (\<lambda>p. cm_replicaId p = selfID s) (map snd (mc_commit c))) own)))"

definition recvFetchPQCRequest :: "'p env \<Rightarrow> u64 \<Rightarrow> u64 \<Rightarrow> 'p replica \<Rightarrow> 'p replica" where
  "recvFetchPQCRequest E requester h s =
     (if \<not> risValidator s then s
      else if h \<ge> cc_H (rb_cc s) + cc_L (rb_cc s) then s
      else case ownPQC h s (sm_certStore (rb_store s)) of (q1, p1, c1) \<Rightarrow>
           case ownPQC h s (sm_committedCertCache (rb_store s)) of (q2, p2, c2) \<Rightarrow>
             unicast E (MFetchPQCResponse \<lparr>fp_replicaId = selfID s, fp_prepre = q1 @ q2, fp_pre = p1 @ p2,
               fp_cmt = c1 @ c2\<rparr>) requester s)"

definition recvFetchPQCResponse :: "'p env \<Rightarrow> fetchPQCResponse \<Rightarrow> 'p act" where
  "recvFetchPQCResponse E r s = do {
     s1 \<leftarrow> (if \<not> isPrimary (selfID s) s then mfold (recvPrePrepare E) (fp_prepre r) s else Some s);
     s2 \<leftarrow> mfold (recvPrepare E) (fp_pre r) s1;
     mfold (recvCommit E) (fp_cmt r) s2 }"

definition processWRFHighView :: "'p env \<Rightarrow> u64 \<Rightarrow> 'p act" where
  "processWRFHighView E v s =
     (case gget (sm_wrfHighViewMsgCache (rb_store s)) v of
        None \<Rightarrow> Some s
      | Some c \<Rightarrow>
          if v < cc_view (rb_cc s) then Some (rb_store_update (sm_wrfHighViewMsgCache_update (gdel v)) s)
          else if v = cc_view (rb_cc s) then do {
            s1 \<leftarrow> mfold (recvPrePrepare E) (wc_prePrepares c) s;
            s2 \<leftarrow> mfold (recvPrepare E) (wc_prepares c) s1;
            mfold (recvCommit E) (wc_commits c) s2 }
          else Some s)"

definition processWRFHighViewMsgs :: "'p env \<Rightarrow> 'p act" where
  \<comment> \<open>entries made while ranging over the cache are left to the next call, as Go allows\<close>
  "processWRFHighViewMsgs E s =
     mfold (processWRFHighView E) (map fst (sm_wrfHighViewMsgCache (rb_store s))) s"

end
