(* ===== verification/Certificates.thy ===== *)
theory Certificates
  imports Normal
begin

text \<open>
  Well-formed certificates, the commits and view changes a replica has sent, and the relations between the
  states before and after a part of a handler: quiet ones, ones that only drop certificates, and the
  relation \<open>evolves\<close> that every handler of the normal case keeps after a message is accepted.
\<close>


section \<open>Well-formed certificates\<close>

definition certWf :: "msgID \<Rightarrow> msgCert \<Rightarrow> bool" where
  "certWf idx c =
     ((\<forall>p. mc_prePrepare c = Some p \<longrightarrow> (pp_view p, pp_n p, pp_digest p) = idx) \<and>
      gwf (mc_prepare c) \<and>
      (\<forall>k p. gget (mc_prepare c) k = Some p \<longrightarrow> k = pr_ID p \<and> (pr_view p, pr_n p, pr_digest p) = idx) \<and>
      gwf (mc_commit c) \<and>
      (\<forall>k p. gget (mc_commit c) k = Some p \<longrightarrow> k = cm_ID p \<and> (cm_view p, cm_n p, cm_digest p) = idx))"

definition certsWf :: "'p replica \<Rightarrow> bool" where
  "certsWf s = (gwf (sm_certStore (rb_store s)) \<and> (\<forall>idx c. rcert idx s = Some c \<longrightarrow> certWf idx c))"

definition ppOf :: "'p replica \<Rightarrow> msgID \<Rightarrow> prePrepare option" where
  "ppOf s idx = Option.bind (rcert idx s) mc_prePrepare"

definition view :: "'p replica \<Rightarrow> u64" where
  "view s = cc_view (rb_cc s)"

definition normalOk :: "'p replica \<Rightarrow> bool" where
  "normalOk s = (certsWf s \<and>
     (\<forall>idx p. ppOf s idx = Some p \<longrightarrow> fst idx \<le> view s) \<and>
     (\<forall>idx p. ppOf s idx = Some p \<longrightarrow> fst idx = view s \<longrightarrow>
        gget (sm_seqMap (rb_store s)) (fst (snd idx)) = Some (snd (snd idx))) \<and>
     (isPrimary (selfID s) s \<longrightarrow> (\<forall>idx p. ppOf s idx = Some p \<longrightarrow> fst idx = view s \<longrightarrow>
        fst (snd idx) \<le> bm_seqNo (rb_batch s))))"

lemma newCert_wf [simp]: "certWf idx newCert"
  by (simp add: certWf_def newCert_def)

section \<open>The commits a replica has sent\<close>

definition commitOf :: "effect \<Rightarrow> commit option" where
  "commitOf e = (case e of
     Broadcast m \<Rightarrow> (case m_payload m of MCommit c \<Rightarrow> Some c | _ \<Rightarrow> None)
   | _ \<Rightarrow> None)"

definition sentCommits :: "'p replica \<Rightarrow> commit list" where
  "sentCommits s = List.map_filter commitOf (rb_out s)"

lemma sentCommits_emit [simp]:
  "sentCommits (emit e s) = sentCommits s @ (case commitOf e of None \<Rightarrow> [] | Some c \<Rightarrow> [c])"
  by (cases "commitOf e") (simp_all add: sentCommits_def List.map_filter_def)

lemma commitOf_simps [simp]:
  "commitOf (Broadcast (mkMsg p s)) = (case p of MCommit c \<Rightarrow> Some c | _ \<Rightarrow> None)" "commitOf (Unicast m to) = None"
  "commitOf StopNamespace = None" "commitOf (Execute txs ls n t i) = None"
  by (simp_all add: commitOf_def mkMsg_def)

lemma sentCommits_update [simp]:
  "sentCommits (rb_cc_update f1 s) = sentCommits s" "sentCommits (rb_status_update f2 s) = sentCommits s"
  "sentCommits (rb_timer_update f3 s) = sentCommits s" "sentCommits (rb_store_update f4 s) = sentCommits s"
  "sentCommits (rb_vc_update f5 s) = sentCommits s" "sentCommits (rb_batch_update f6 s) = sentCommits s"
  "sentCommits (rb_epoch_update f7 s) = sentCommits s" "sentCommits (rb_storage_update f8 s) = sentCommits s"
  "sentCommits (rb_pool_update f9 s) = sentCommits s" "sentCommits (rb_lastExec_update f10 s) = sentCommits s"
  by (simp_all add: sentCommits_def)

lemma sentCommits_cong: "rb_out t = rb_out s \<Longrightarrow> sentCommits t = sentCommits s"
  by (simp add: sentCommits_def)

lemma persist_out [simp]:
  "rb_out (storeState k x s) = rb_out s" "rb_out (delState k s) = rb_out s" "rb_out (persistDelQPCSet i s) = rb_out s"
  "rb_out (persistQList q s) = rb_out s" "rb_out (persistPList p s) = rb_out s"
  by (simp_all add: storeState_def delState_def persistDelQPCSet_def persistDelQSet_def persistDelPSet_def
      persistDelCSet_def persistQList_eq persistPList_eq split: prod.split)

lemma persistDelQPList_out [simp]: "rb_out (persistDelQPList E s) = rb_out s"
  using persistDelQPList_eq [of E s] by auto

lemma dropOldCerts_out [simp]: "rb_out (dropOldCerts s) = rb_out s"
  unfolding dropOldCerts_def by (rule fold_frame) (simp split: prod.split)

lemma cleanCache_out [simp]: "rb_out (cleanCommittedCertCache h s) = rb_out s"
  by (simp add: cleanCommittedCertCache_def Let_def)

lemma cert_out [simp]: "rb_out (snd (getCert i s)) = rb_out s" "rb_out (modCert i f s) = rb_out s"
  "rb_out (cacheHighView v g s) = rb_out s"
  by (simp_all add: getCert_def modCert_def cacheHighView_def split: option.split)

lemma sentCommits_frame [simp]:
  "sentCommits (storeState k x s) = sentCommits s" "sentCommits (delState k s) = sentCommits s"
  "sentCommits (persistQList q s) = sentCommits s" "sentCommits (persistPList p s) = sentCommits s"
  "sentCommits (persistDelQPList E s) = sentCommits s" "sentCommits (cleanCommittedCertCache h s) = sentCommits s"
  "sentCommits (modCert idx f s) = sentCommits s" "sentCommits (snd (getCert idx s)) = sentCommits s"
  "sentCommits (cacheHighView v g s) = sentCommits s" "sentCommits (stopT n s) = sentCommits s"
  "sentCommits (setAbNormal s) = sentCommits s"
  by (rule sentCommits_cong, simp)+

lemma sentCommits_acts [simp]:
  "sentCommits (raOn p s) = sentCommits s" "sentCommits (raOff p s) = sentCommits s"
  "sentCommits (ron p s) = sentCommits s" "sentCommits (roff p s) = sentCommits s"
  "sentCommits (stopNamespace s) = sentCommits s" "sentCommits (withPool q s) = sentCommits s"
  "sentCommits (broadcast m s) = sentCommits s @ (case m of MCommit c \<Rightarrow> [c] | _ \<Rightarrow> [])"
  by (simp_all add: raOn_def raOff_def ron_def roff_def stopNamespace_def withPool_def broadcast_def split: payload.split)

section \<open>The view changes a replica has sent\<close>

definition basisOf :: "effect \<Rightarrow> vcBasis option" where
  "basisOf e = (case e of
     Broadcast m \<Rightarrow> (case m_payload m of MViewChange vc \<Rightarrow> vc_basis vc | _ \<Rightarrow> None)
   | _ \<Rightarrow> None)"

definition sentBases :: "'p replica \<Rightarrow> vcBasis list" where
  "sentBases s = List.map_filter basisOf (rb_out s)"

lemma sentBases_emit [simp]:
  "sentBases (emit e s) = sentBases s @ (case basisOf e of None \<Rightarrow> [] | Some b \<Rightarrow> [b])"
  by (cases "basisOf e") (simp_all add: sentBases_def List.map_filter_def)

lemma basisOf_simps [simp]:
  "basisOf (Broadcast (mkMsg p s)) = (case p of MViewChange vc \<Rightarrow> vc_basis vc | _ \<Rightarrow> None)" "basisOf (Unicast m to) = None"
  "basisOf StopNamespace = None" "basisOf (Execute txs ls n t i) = None"
  by (simp_all add: basisOf_def mkMsg_def)

lemma sentBases_cong: "rb_out t = rb_out s \<Longrightarrow> sentBases t = sentBases s"
  by (simp add: sentBases_def)

lemma sentBases_update [simp]:
  "sentBases (rb_cc_update f1 s) = sentBases s" "sentBases (rb_status_update f2 s) = sentBases s"
  "sentBases (rb_timer_update f3 s) = sentBases s" "sentBases (rb_store_update f4 s) = sentBases s"
  "sentBases (rb_vc_update f5 s) = sentBases s" "sentBases (rb_batch_update f6 s) = sentBases s"
  "sentBases (rb_epoch_update f7 s) = sentBases s" "sentBases (rb_storage_update f8 s) = sentBases s"
  "sentBases (rb_pool_update f9 s) = sentBases s" "sentBases (rb_lastExec_update f10 s) = sentBases s"
  by (simp_all add: sentBases_def)

lemma sentBases_frame [simp]:
  "sentBases (storeState k x s) = sentBases s" "sentBases (delState k s) = sentBases s"
  "sentBases (persistQList q s) = sentBases s" "sentBases (persistPList p s) = sentBases s"
  "sentBases (persistDelQPList E s) = sentBases s" "sentBases (cleanCommittedCertCache h s) = sentBases s"
  "sentBases (modCert idx f s) = sentBases s" "sentBases (snd (getCert idx s)) = sentBases s"
  "sentBases (cacheHighView v g s) = sentBases s" "sentBases (stopT n s) = sentBases s"
  "sentBases (setAbNormal s) = sentBases s"
  by (rule sentBases_cong, simp)+

lemma sentBases_acts [simp]:
  "sentBases (raOn p s) = sentBases s" "sentBases (raOff p s) = sentBases s"
  "sentBases (ron p s) = sentBases s" "sentBases (roff p s) = sentBases s"
  "sentBases (stopNamespace s) = sentBases s" "sentBases (withPool q s) = sentBases s"
  "sentBases (broadcast m s) = sentBases s @ (case m of MViewChange vc \<Rightarrow> (case vc_basis vc of None \<Rightarrow> [] | Some b \<Rightarrow> [b]) | _ \<Rightarrow> [])"
  by (simp_all add: raOn_def raOff_def ron_def roff_def stopNamespace_def withPool_def broadcast_def split: payload.split)

section \<open>The votes of a replica are kept\<close>

definition higherEntry :: "vcPq \<Rightarrow> commit \<Rightarrow> bool" where
  \<comment> \<open>an entry for the height of the commit, from a higher view or for the very same digest\<close>
  "higherEntry e c = (pq_n e = cm_n c \<and> (cm_view c < pq_v e \<or> pq_v e = cm_view c \<and> pq_d e = cm_digest c))"

definition kept :: "'p replica \<Rightarrow> commit \<Rightarrow> bool" where
  "kept s c = (prepared (cm_view c, cm_n c, cm_digest c) s \<or> cm_n c < cc_H (rb_cc s) \<or>
     (\<exists>e. gget (vm_plist (rb_vc s)) (cm_n c) = Some e \<and> higherEntry e c))"

definition covers :: "vcBasis \<Rightarrow> commit \<Rightarrow> bool" where
  "covers b c = (cm_n c < vb_h b \<or> (\<exists>e \<in> set (vb_pset b). higherEntry e c))"

definition plistOk :: "'p replica \<Rightarrow> bool" where
  \<comment> \<open>entries of lower views, below every certificate of the log\<close>
  "plistOk s = (\<forall>n e. gget (vm_plist (rb_vc s)) n = Some e \<longrightarrow>
     pq_n e = n \<and> pq_v e < view s \<and> (\<forall>idx. ppOf s idx \<noteq> None \<longrightarrow> pq_v e < fst idx))"

definition oneDigest :: "'p replica \<Rightarrow> bool" where
  "oneDigest s = (\<forall>v n d d'. ppOf s (v, n, d) \<noteq> None \<longrightarrow> ppOf s (v, n, d') \<noteq> None \<longrightarrow> d = d')"

definition votesKept :: "'p replica \<Rightarrow> bool" where
  \<comment> \<open>every commit that was sent is kept by the certificates or the P list, and covered by every later view change\<close>
  "votesKept s = (plistOk s \<and> oneDigest s \<and> (\<forall>idx. ppOf s idx \<noteq> None \<longrightarrow> fst idx \<le> view s) \<and>
     gwf (sm_certStore (rb_store s)) \<and>
     (\<forall>c \<in> set (sentCommits s). kept s c \<and> cm_view c \<le> view s) \<and>
     (\<forall>b \<in> set (sentBases s). vb_view b \<le> view s \<and> vb_replicaId b = selfID s) \<and>
     (\<forall>b \<in> set (sentBases s). \<forall>c \<in> set (sentCommits s). cm_view c < vb_view b \<longrightarrow> covers b c))"

definition sameVotes :: "'p replica \<Rightarrow> 'p replica \<Rightarrow> bool" where
  "sameVotes s t = (vm_plist (rb_vc t) = vm_plist (rb_vc s) \<and> cc_H (rb_cc t) = cc_H (rb_cc s) \<and>
     cc_N (rb_cc t) = cc_N (rb_cc s) \<and> cc_F (rb_cc t) = cc_F (rb_cc s) \<and> selfID t = selfID s \<and>
     sentBases t = sentBases s)"

lemma sameVotes_quorum: "sameVotes s t \<Longrightarrow> commonCaseQuorum (rb_cc t) = commonCaseQuorum (rb_cc s)"
  by (simp add: sameVotes_def commonCaseQuorum_def)

lemma sameVotes_refl [simp]: "sameVotes s s"
  by (simp add: sameVotes_def)

lemma preparedE:
  assumes "prepared i s"
  obtains c where "rcert i s = Some c" "int (commonCaseQuorum (rb_cc s)) - 1 \<le> int (gsize (mc_prepare c))"
    "prePrepared i s" "ppOf s i \<noteq> None"
  using assms by (cases "rcert i s"; cases i) (auto simp: prepared_def prePrepared_def ppOf_def split: option.splits)

lemma votesKeptD:
  assumes "votesKept s"
  shows "plistOk s" "oneDigest s" "ppOf s idx \<noteq> None \<Longrightarrow> fst idx \<le> view s" "gwf (sm_certStore (rb_store s))"
    "c \<in> set (sentCommits s) \<Longrightarrow> kept s c" "c \<in> set (sentCommits s) \<Longrightarrow> cm_view c \<le> view s"
    "b \<in> set (sentBases s) \<Longrightarrow> vb_view b \<le> view s" "b \<in> set (sentBases s) \<Longrightarrow> vb_replicaId b = selfID s"
    "b \<in> set (sentBases s) \<Longrightarrow> c \<in> set (sentCommits s) \<Longrightarrow> cm_view c < vb_view b \<Longrightarrow> covers b c"
  using assms unfolding votesKept_def by blast+

text \<open>The votes stay kept when certificates only lose nothing that was prepared and gain no pre-prepare, and
  commits are added for prepared certificates of the view.\<close>

lemma votesKept_grow:
  assumes "votesKept s" "sameVotes s t" "view s \<le> view t" "gwf (sm_certStore (rb_store t))"
    and pp: "\<And>idx. ppOf t idx \<noteq> None \<Longrightarrow> ppOf s idx \<noteq> None"
    and prep: "\<And>idx. prepared idx s \<Longrightarrow> prepared idx t"
    and sent: "sentCommits t = sentCommits s @ cs"
    and new: "\<And>c. c \<in> set cs \<Longrightarrow> cm_view c = view s \<and> prepared (cm_view c, cm_n c, cm_digest c) s"
  shows "votesKept t"
proof -
  note k = votesKeptD [OF assms(1)]
  have same: "vm_plist (rb_vc t) = vm_plist (rb_vc s)" "cc_H (rb_cc t) = cc_H (rb_cc s)" "selfID t = selfID s" "sentBases t = sentBases s"
    using assms(2) by (simp_all add: sameVotes_def)
  have "plistOk t"
    using k(1) pp assms(3) unfolding plistOk_def same(1) by (meson order_less_le_trans)
  moreover have "oneDigest t" using k(2) pp unfolding oneDigest_def by blast
  moreover have "fst idx \<le> view t" if "ppOf t idx \<noteq> None" for idx
    using k(3) [OF pp [OF that]] assms(3) by (rule order_trans)
  moreover have "kept t c" "cm_view c \<le> view t" if "c \<in> set (sentCommits t)" for c
  proof -
    have "(kept s c \<and> cm_view c \<le> view s)" using that sent new k(5,6) by (auto simp: kept_def)
    then show "kept t c" "cm_view c \<le> view t" using prep assms(3) by (auto simp: kept_def same)
  qed
  moreover have "vb_view b \<le> view t" "vb_replicaId b = selfID t" if "b \<in> set (sentBases t)" for b
    using that k(7,8) assms(3) order_trans unfolding same by blast+
  moreover have "covers b c" if "b \<in> set (sentBases t)" "c \<in> set (sentCommits t)" "cm_view c < vb_view b" for b c
  proof -
    have b: "b \<in> set (sentBases s)" using that(1) by (simp add: same)
    have "c \<notin> set cs"
    proof
      assume "c \<in> set cs"
      then have "view s < vb_view b" using new that(3) by metis
      then show False using k(7) [OF b] by simp
    qed
    then show ?thesis using k(9) [OF b _ that(3)] that(2) sent by auto
  qed
  ultimately show ?thesis using assms(4) unfolding votesKept_def by blast
qed

lemma prepared_cong:
  "rcert idx t = rcert idx s \<Longrightarrow> commonCaseQuorum (rb_cc t) = commonCaseQuorum (rb_cc s) \<Longrightarrow> prepared idx t = prepared idx s"
  by (cases idx; cases "rcert idx s") (simp_all add: prepared_def prePrepared_def)

lemma votesKept_same:
  assumes "votesKept s" "sameVotes s t" "view s \<le> view t" "sm_certStore (rb_store t) = sm_certStore (rb_store s)"
    "sentCommits t = sentCommits s"
  shows "votesKept t"
proof (rule votesKept_grow [where cs = "[]", OF assms(1-3)])
  have r: "rcert idx t = rcert idx s" for idx by (simp add: rcert_def assms(4))
  show "ppOf s idx \<noteq> None" if "ppOf t idx \<noteq> None" for idx using that by (simp add: ppOf_def r)
  show "prepared idx t" if "prepared idx s" for idx
    using that prepared_cong [OF r sameVotes_quorum [OF assms(2)]] by simp
  show "gwf (sm_certStore (rb_store t))" using votesKeptD(4) [OF assms(1)] assms(4) by simp
qed (use assms(5) in simp_all)

section \<open>How the certificates evolve after a message is accepted\<close>

definition sameFrame :: "'p replica \<Rightarrow> 'p replica \<Rightarrow> bool" where
  "sameFrame s t = (view t = view s \<and> cc_primaryID (rb_cc t) = cc_primaryID (rb_cc s) \<and> selfID t = selfID s \<and>
     sm_seqMap (rb_store t) = sm_seqMap (rb_store s) \<and> bm_seqNo (rb_batch t) = bm_seqNo (rb_batch s))"

definition backedCommit :: "'p replica \<Rightarrow> commit \<Rightarrow> bool" where
  "backedCommit s c = (cm_replicaId c = selfID s \<and> cm_view c = view s \<and>
     ppOf s (cm_view c, cm_n c, cm_digest c) \<noteq> None)"

definition evolves :: "'p replica \<Rightarrow> 'p replica \<Rightarrow> bool" where
  \<comment> \<open>no pre-prepare is added, certificates stay well formed, either view, primary, sequence map and
     sequence number are the same or the view is higher, commits are sent only for pre-prepares
     of the view, and the votes stay kept\<close>
  "evolves s t = ((certsWf s \<longrightarrow> certsWf t \<and> (\<forall>idx p. ppOf t idx = Some p \<longrightarrow> ppOf s idx = Some p)) \<and>
     (sameFrame s t \<or> view s < view t) \<and> selfID t = selfID s \<and>
     (normalOk s \<longrightarrow> (\<exists>cs. sentCommits t = sentCommits s @ cs \<and> (\<forall>c \<in> set cs. backedCommit s c))) \<and>
     (votesKept s \<longrightarrow> votesKept t))"

definition quiet :: "'p replica \<Rightarrow> 'p replica \<Rightarrow> bool" where
  \<comment> \<open>nothing that concerns certificates changes\<close>
  "quiet s t = (sm_certStore (rb_store t) = sm_certStore (rb_store s) \<and> sameFrame s t \<and> sentCommits t = sentCommits s \<and>
     sameVotes s t)"

lemma evolves_refl [simp]: "evolves s s"
  by (simp add: evolves_def sameFrame_def)

lemma evolvesD:
  assumes "evolves s t"
  shows "certsWf s \<Longrightarrow> certsWf t" "certsWf s \<Longrightarrow> ppOf t idx = Some p \<Longrightarrow> ppOf s idx = Some p"
    "sameFrame s t \<or> view s < view t" "selfID t = selfID s"
    "normalOk s \<Longrightarrow> \<exists>cs. sentCommits t = sentCommits s @ cs \<and> (\<forall>c \<in> set cs. backedCommit s c)"
    "votesKept s \<Longrightarrow> votesKept t"
  using assms unfolding evolves_def by blast+

lemma normalOkD:
  assumes "normalOk s"
  shows "certsWf s" "ppOf s idx = Some p \<Longrightarrow> fst idx \<le> view s"
    "ppOf s idx = Some p \<Longrightarrow> fst idx = view s \<Longrightarrow> gget (sm_seqMap (rb_store s)) (fst (snd idx)) = Some (snd (snd idx))"
    "isPrimary (selfID s) s \<Longrightarrow> ppOf s idx = Some p \<Longrightarrow> fst idx = view s \<Longrightarrow> fst (snd idx) \<le> bm_seqNo (rb_batch s)"
  using assms unfolding normalOk_def by blast+

lemma evolves_normalOk:
  assumes "normalOk s" "evolves s t"
  shows "normalOk t"
proof -
  have old: "fst idx \<le> view s" if "ppOf t idx = Some p" for idx p
    using normalOkD(2) [OF assms(1)] evolvesD(2) [OF assms(2) normalOkD(1) [OF assms(1)] that] by blast
  show ?thesis
  proof (cases "sameFrame s t")
    case True
    then show ?thesis
      using assms by (auto simp: normalOk_def evolves_def sameFrame_def isPrimary_def simp del: split_paired_All)
  next
    case False
    then have lt: "view s < view t" using assms(2) by (simp add: evolves_def)
    have "fst idx < view t" if "ppOf t idx = Some p" for idx p
      using old [OF that] lt by (rule order_le_less_trans)
    then show ?thesis
      using assms unfolding normalOk_def evolves_def by (blast dest: less_imp_le order_less_imp_not_eq)
  qed
qed

lemma backedCommit_back:
  assumes "normalOk s" "evolves s t" "backedCommit t c"
  shows "backedCommit s c"
proof -
  obtain p where p: "ppOf s (cm_view c, cm_n c, cm_digest c) = Some p"
    using assms evolvesD(2) [OF assms(2) normalOkD(1) [OF assms(1)]] by (auto simp: backedCommit_def)
  then have "cm_view c \<le> view s" using normalOkD(2) [OF assms(1) p] by simp
  then show ?thesis
    using p assms(3) evolvesD(3,4) [OF assms(2)] by (auto simp: backedCommit_def sameFrame_def)
qed

lemma evolves_trans:
  assumes "evolves s t" "evolves t u"
  shows "evolves s u"
proof -
  have frame: "sameFrame s u \<or> view s < view u"
    using evolvesD(3) [OF assms(1)] evolvesD(3) [OF assms(2)]
    by (auto simp: sameFrame_def dest: order_less_trans)
  have sent: "\<exists>cs. sentCommits u = sentCommits s @ cs \<and> (\<forall>c \<in> set cs. backedCommit s c)" if n: "normalOk s"
  proof -
    obtain cs cs' where "sentCommits t = sentCommits s @ cs" "\<forall>c \<in> set cs. backedCommit s c"
      "sentCommits u = sentCommits t @ cs'" "\<forall>c \<in> set cs'. backedCommit t c"
      using evolvesD(5) [OF assms(1) n] evolvesD(5) [OF assms(2) evolves_normalOk [OF n assms(1)]] by blast
    then show ?thesis using backedCommit_back [OF n assms(1)] by (intro exI [of _ "cs @ cs'"]) auto
  qed
  show ?thesis
    unfolding evolves_def using frame sent evolvesD(1,2,4,6) [OF assms(1)] evolvesD(1,2,4,6) [OF assms(2)]
    by (metis (no_types))
qed

lemma quiet_refl [simp]: "quiet s s"
  by (simp add: quiet_def sameFrame_def sameVotes_def)

lemma quiet_trans: "quiet s t \<Longrightarrow> quiet t u \<Longrightarrow> quiet s u"
  by (simp add: quiet_def sameFrame_def sameVotes_def)

lemma quiet_cert: "quiet s t \<Longrightarrow> rcert idx t = rcert idx s"
  by (simp add: quiet_def rcert_def)

lemma quiet_votes: "quiet s t \<Longrightarrow> votesKept s \<Longrightarrow> votesKept t"
  by (rule votesKept_same) (simp_all add: quiet_def sameFrame_def)

lemma quiet_evolves: "quiet s t \<Longrightarrow> evolves s t"
  using quiet_votes [of s t] by (simp add: quiet_def evolves_def certsWf_def ppOf_def rcert_def sameFrame_def)

lemma rcert_getCert:
  "rcert i (snd (getCert idx s)) = (if i = idx \<and> rcert idx s = None then Some newCert else rcert i s)"
  by (simp add: getCert_def rcert_def split: option.split)

lemma rcert_modCert:
  "rcert i (modCert idx f s) = (if i = idx then map_option f (rcert i s) else rcert i s)"
  by (simp add: modCert_def rcert_def gget_gmodify)

lemma gwf_certs [simp]:
  "gwf (sm_certStore (rb_store (modCert idx f s))) = gwf (sm_certStore (rb_store s))"
  "gwf (sm_certStore (rb_store s)) \<Longrightarrow> gwf (sm_certStore (rb_store (snd (getCert idx s))))"
  by (simp_all add: modCert_def getCert_def split: option.split)

lemma cert_self [simp]:
  "selfID (modCert idx f s) = selfID s" "selfID (snd (getCert idx s)) = selfID s"
  by (simp_all add: selfID_def modCert_def getCert_def split: option.split)

lemma getCert_cc: "rb_cc (snd (getCert idx s)) = rb_cc s" "rb_vc (snd (getCert idx s)) = rb_vc s"
    "view (snd (getCert idx s)) = view s"
  and modCert_cc: "rb_cc (modCert idx f s) = rb_cc s" "rb_vc (modCert idx f s) = rb_vc s" "view (modCert idx f s) = view s"
  by (simp_all add: getCert_def modCert_def view_def split: option.split)

lemma cert_sameFrame [simp]: "sameFrame s (modCert idx f s)" "sameFrame s (snd (getCert idx s))"
  by (simp_all add: sameFrame_def modCert_def getCert_def view_def selfID_def split: option.split)

lemma getCert_evolves: "evolves s (snd (getCert idx s))"
proof -
  have "certsWf s \<longrightarrow> certsWf (snd (getCert idx s))"
    by (auto simp: certsWf_def rcert_getCert simp del: split_paired_All split: if_splits)
  moreover have pp: "ppOf (snd (getCert idx s)) i = ppOf s i" for i
    by (simp add: ppOf_def rcert_getCert newCert_def)
  moreover have "votesKept (snd (getCert idx s))" if v: "votesKept s"
  proof (rule votesKept_grow [where cs = "[]", OF v])
    show "prepared i (snd (getCert idx s))" if "prepared i s" for i
    proof -
      have "rcert i s \<noteq> None" using that by (elim preparedE) simp
      then have "rcert i (snd (getCert idx s)) = rcert i s" by (auto simp: rcert_getCert)
      then show ?thesis using that prepared_cong [of i "snd (getCert idx s)" s] by (simp add: getCert_cc)
    qed
  qed (use pp votesKeptD(4) [OF v] in \<open>simp_all add: sameVotes_def getCert_cc\<close>)
  ultimately show ?thesis by (simp add: evolves_def)
qed

lemma modCert_evolves:
  assumes "\<And>c. certWf idx c \<Longrightarrow> certWf idx (f c)" "\<And>c. mc_prePrepare (f c) = mc_prePrepare c"
    "\<And>c. gsize (mc_prepare c) \<le> gsize (mc_prepare (f c))"
  shows "evolves s (modCert idx f s)"
proof -
  have "certsWf s \<longrightarrow> certsWf (modCert idx f s)"
    using assms(1) by (auto simp: certsWf_def rcert_modCert simp del: split_paired_All split: if_splits)
  moreover have pp: "ppOf (modCert idx f s) i = ppOf s i" for i
    by (cases "rcert i s") (auto simp: ppOf_def rcert_modCert assms(2))
  moreover have "votesKept (modCert idx f s)" if v: "votesKept s"
  proof (rule votesKept_grow [where cs = "[]", OF v])
    show "prepared i (modCert idx f s)" if p: "prepared i s" for i
    proof -
      obtain c where "rcert i s = Some c" "int (commonCaseQuorum (rb_cc s)) - 1 \<le> int (gsize (mc_prepare c))" "prePrepared i s"
        using p by (elim preparedE)
      then show ?thesis using assms(3) [of c] assms(2)
        by (cases i) (auto simp: prepared_def prePrepared_def rcert_modCert modCert_cc split: option.splits)
    qed
  qed (use pp votesKeptD(4) [OF v] in \<open>simp_all add: sameVotes_def modCert_cc\<close>)
  ultimately show ?thesis by (simp add: evolves_def)
qed

lemma certWf_flags [simp]:
  "certWf idx (c\<lparr>mc_sentPrepare := b\<rparr>) = certWf idx c" "certWf idx (c\<lparr>mc_sentCommit := b\<rparr>) = certWf idx c"
  "certWf idx (c\<lparr>mc_sentExecute := b\<rparr>) = certWf idx c" "certWf idx (c\<lparr>mc_isConfig := b\<rparr>) = certWf idx c"
  by (simp_all add: certWf_def)

section \<open>A view change only drops certificates\<close>

definition thinner :: "'p replica \<Rightarrow> 'p replica \<Rightarrow> bool" where
  "thinner s t = ((\<exists>P. sm_certStore (rb_store t) = gkeep P (sm_certStore (rb_store s))) \<and> selfID t = selfID s \<and>
     sentCommits t = sentCommits s)"

lemma gkeep_gkeep [simp]: "gkeep P (gkeep Q m) = gkeep (\<lambda>k v. P k v \<and> Q k v) m"
  by (simp add: gkeep_def) (rule arg_cong [where f = "\<lambda>p. filter p m"], auto)

lemma gkeep_all: "m = gkeep (\<lambda>_ _. True) m"
  by (simp add: gkeep_def case_prod_unfold)

lemma thinnerI [intro]: "sm_certStore (rb_store t) = sm_certStore (rb_store s) \<Longrightarrow> selfID t = selfID s \<Longrightarrow>
    sentCommits t = sentCommits s \<Longrightarrow> thinner s t"
  unfolding thinner_def by (metis gkeep_all)

lemma thinner_trans: "thinner s t \<Longrightarrow> thinner t u \<Longrightarrow> thinner s u"
  by (auto simp: thinner_def)

lemma thinner_evolves:
  assumes "thinner s t" "view s < view t" "votesKept s \<Longrightarrow> votesKept t"
  shows "evolves s t"
proof -
  obtain P where P: "sm_certStore (rb_store t) = gkeep P (sm_certStore (rb_store s))"
    using assms(1) by (auto simp: thinner_def)
  have sub: "rcert idx s = Some c" if "rcert idx t = Some c" "gwf (sm_certStore (rb_store s))" for idx c
    using that by (auto simp: rcert_def P gget_gkeep split: option.splits if_splits)
  show ?thesis
    using assms(2,3) sub P assms(1) by (auto simp: evolves_def thinner_def certsWf_def ppOf_def bind_eq_Some_conv simp del: split_paired_All)
qed

lemma thinner_refl [simp]: "thinner s s"
  by (rule thinnerI) simp_all

lemma thinner_rule:
  assumes "sm_certStore (rb_store t) = gdel k (sm_certStore (rb_store s))" "selfID t = selfID s" "rb_out t = rb_out s"
  shows "thinner s t"
  using assms sentCommits_cong [OF assms(3)] by (auto simp: thinner_def gdel_def)

lemma dropOldCerts_thinner: "thinner s (dropOldCerts s)"
proof -
  define f where "f = (\<lambda>((v, n, d), cert) (s :: 'a replica).
     if v < cc_view (rb_cc s)
     then persistDelQPCSet (v, n, d) (rb_store_update (\<lambda>m.
            m\<lparr>sm_committedCertCache := gput (v, n, d) cert (sm_committedCertCache m),
              sm_certStore := gdel (v, n, d) (sm_certStore m),
              sm_seqMap := gdel n (sm_seqMap m)\<rparr>) s)
     else s)"
  have step: "thinner t (f x t)" for x t
  proof -
    obtain v n d cert where fields: "x = ((v, n, d), cert)" by (metis surj_pair)
    show ?thesis
    proof (cases "v < cc_view (rb_cc t)")
      case True
      then show ?thesis
        by (intro thinner_rule [where k = "(v, n, d)"]) (simp_all add: f_def fields selfID_def)
    qed (simp add: f_def fields)
  qed
  have "thinner t (fold f xs t)" for xs t
  proof (induction xs arbitrary: t)
    case (Cons x xs)
    show ?case using thinner_trans [OF step [of t x] Cons.IH] by simp
  qed simp
  then show ?thesis unfolding dropOldCerts_def f_def .
qed

lemma getVcBasis_thinner:
  assumes "getVcBasis E s = Some (b, s')"
  shows "thinner s s'"
proof -
  define s4 where "s4 = (let s1 = persistDelQPList E s;
          s2 = rb_vc_update (vm_plist_update (\<lambda>_. calcPSet s1)) s1;
          s3 = rb_vc_update (vm_qlist_update (\<lambda>_. calcQSet s2)) s2
      in persistQList (vm_qlist (rb_vc s3)) (persistPList (vm_plist (rb_vc s3)) s3))"
  have s': "s' = cleanCommittedCertCache (cc_H (rb_cc (dropOldCerts s4))) (dropOldCerts s4)"
    using assms by (auto simp: getVcBasis_def s4_def Let_def split: prod.splits Option.bind_splits)
  have "thinner s s4" by (rule thinnerI) (simp_all add: s4_def Let_def selfID_def)
  moreover have "thinner (dropOldCerts s4) s'"
    unfolding s' by (rule thinnerI) (simp_all add: cleanCommittedCertCache_def Let_def selfID_def)
  ultimately show ?thesis using dropOldCerts_thinner thinner_trans by blast
qed

lemma beforeSendVC_store:
  assumes "beforeSendVC E r s = Some s'"
  shows "rb_store s' = rb_store s" "rb_out s' = rb_out s"
  using assms
  by (auto simp: beforeSendVC_def Let_def setView_def setViewWithRecovery_def stopHighWatermarkTimer_def
      stopFetchCheckpointTimer_def stopNewViewTimer_def split: option.splits if_splits elim!: setViewGenD)

lemma sendViewChangeStart_thinner:
  assumes "sendViewChangeStart E r s = Some (o', s')"
  shows "thinner s s'"
proof (cases "vcGated r s")
  case True
  then show ?thesis using assms by (auto simp: sendViewChangeStart_def vcGated_def split: if_splits)
next
  case False
  then obtain s1 where s1: "beforeSendVC E r s = Some s1"
    using assms by (auto simp: sendViewChangeStart_def vcGated_def split: if_splits Option.bind_splits)
  define s2 where "s2 = (if r then raOn InRecovery s1 else s1)"
  obtain b s3 where b: "getVcBasis E s2 = Some (b, s3)"
    using assms s1 False
    by (auto simp: sendViewChangeStart_def vcGated_def Let_def s2_def split: if_splits Option.bind_splits)
  have "thinner s s2"
    by (rule thinnerI) (simp_all add: s2_def beforeSendVC_store(1) [OF s1] sentCommits_cong [OF beforeSendVC_store(2) [OF s1]] beforeSendVC_D [OF s1] selfID_def)
  moreover have "rb_store s' = rb_store s3 \<and> selfID s' = selfID s3 \<and> sentCommits s' = sentCommits s3"
    using assms s1 False b
    by (auto simp: sendViewChangeStart_def vcGated_def Let_def s2_def signViewChange_def selfID_def stopNamespace_def
        startFetchViewTimer_def split: if_splits Option.bind_splits option.splits prod.splits elim!: startTD)
  then have "thinner s3 s'" by (intro thinnerI) simp_all
  ultimately show ?thesis using getVcBasis_thinner [OF b] thinner_trans by blast
qed

lemma unicast_quiet: "quiet s (unicast E p i s)" "rb_store (unicast E p i s) = rb_store s" "selfID (unicast E p i s) = selfID s"
  "sentCommits (unicast E p i s) = sentCommits s"
  by (auto simp: unicast_def getNodeInfo_def unicastByP2PID_def quiet_def sameFrame_def sameVotes_def view_def selfID_def
      split: option.splits prod.splits)

lemma recvStep_thinner:
  assumes "recvViewChangeStep E vc v s = Some (n, s')"
  shows "rb_store s' = rb_store s \<and> selfID s' = selfID s \<and> sentCommits s' = sentCommits s"
proof -
  have st: "rb_store (recvStored E vc b s) = rb_store s" "selfID (recvStored E vc b s) = selfID s"
    "sentCommits (recvStored E vc b s) = sentCommits s" for b
    by (simp_all add: recvStored_def dropExpired_def storeVC_def selfID_def)
  have q: "rb_store t' = rb_store t \<and> selfID t' = selfID t \<and> sentCommits t' = sentCommits t"
    if "quorumReached E w t = Some t'" for w and t t' :: "'a replica"
    using that by (auto simp: quorumReached_def softStartNewViewTimer_def softStartT_def selfID_def split: Option.bind_splits)
  have sv: "rb_store t' = rb_store t \<and> selfID t' = selfID t \<and> sentCommits t' = sentCommits t"
    if "setView E w t = Some t'" for w and t t' :: "'a replica"
    using that unfolding setView_def by (elim setViewGenD) (simp add: selfID_def)
  from assms show ?thesis
    by (auto elim!: recvStepE simp: Let_def sendRecoveryResponse_def unicast_quiet st dest!: q sv)
qed

lemma sendViewChange_thinner:
  assumes "sendViewChange E r s = Some (e, s')"
  shows "thinner s s'"
  using assms
proof (rule sendViewChange_rel)
  fix vc n and s t :: "'a replica"
  assume "recvViewChangeStep E vc True s = Some (n, t)"
  from recvStep_thinner [OF this] show "thinner s t" by (intro thinnerI) simp_all
qed (fact sendViewChangeStart_thinner, fact thinner_trans)

section \<open>A view change carries the votes over\<close>

lemma calcP_fold:
  fixes s :: "'p replica"
  defines "f \<equiv> (\<lambda>((v, n, d), _ :: msgCert) p. if \<not> prepared (v, n, d) s then p
     else (case gget p n of
             Some e \<Rightarrow> if pq_v e > v then p else gput n \<lparr>pq_n = n, pq_d = d, pq_v = v\<rparr> p
           | None \<Rightarrow> gput n \<lparr>pq_n = n, pq_d = d, pq_v = v\<rparr> p))"
  shows "(\<forall>n e. gget (fold f xs p) n = Some e \<longrightarrow> gget p n = Some e \<or> pq_n e = n \<and> prepared (pq_v e, n, pq_d e) s) \<and>
    (\<forall>n. \<forall>e. gget p n = Some e \<longrightarrow> (\<exists>e'. gget (fold f xs p) n = Some e' \<and> pq_v e \<le> pq_v e')) \<and>
    (\<forall>v n d c. ((v, n, d), c) \<in> set xs \<longrightarrow> prepared (v, n, d) s \<longrightarrow>
       (\<exists>e'. gget (fold f xs p) n = Some e' \<and> v \<le> pq_v e'))"
proof (induction xs arbitrary: p)
  case (Cons x xs)
  obtain v n d c where x: "x = ((v, n, d), c)" by (metis surj_pair)
  define q where "q = f x p"
  note IH = Cons.IH [of q]
  have fold: "fold f (x # xs) p = fold f xs q" by (simp add: q_def)
  have q: "gget q m = Some e \<Longrightarrow> gget p m = Some e \<or> pq_n e = m \<and> prepared (pq_v e, m, pq_d e) s" for m e
    by (auto simp: q_def f_def x split: if_splits option.splits)
  have up: "gget p m = Some e \<Longrightarrow> \<exists>e'. gget q m = Some e' \<and> pq_v e \<le> pq_v e'" for m e
    by (auto simp: q_def f_def x split: if_splits option.splits)
  have here: "prepared (v, n, d) s \<Longrightarrow> \<exists>e'. gget q n = Some e' \<and> v \<le> pq_v e'"
    by (auto simp: q_def f_def x split: option.splits)
  show ?case
    unfolding fold
  proof (intro conjI allI impI)
    fix m e assume "gget (fold f xs q) m = Some e"
    then show "gget p m = Some e \<or> pq_n e = m \<and> prepared (pq_v e, m, pq_d e) s" using IH q by blast
  next
    fix m e assume "gget p m = Some e"
    then obtain e' where "gget q m = Some e'" "pq_v e \<le> pq_v e'" using up by blast
    then show "\<exists>e'. gget (fold f xs q) m = Some e' \<and> pq_v e \<le> pq_v e'" using IH order_trans by blast
  next
    fix v' n' d' c' assume mem: "((v', n', d'), c') \<in> set (x # xs)" and p: "prepared (v', n', d') s"
    show "\<exists>e'. gget (fold f xs q) n' = Some e' \<and> v' \<le> pq_v e'"
    proof (cases "((v', n', d'), c') \<in> set xs")
      case True
      then show ?thesis using IH p by blast
    next
      case False
      then obtain e' where "gget q n' = Some e'" "v' \<le> pq_v e'" using mem p here by (auto simp: x)
      then show ?thesis using IH order_trans by blast
    qed
  qed
qed simp

lemma calcPSet_entries:
  assumes "gget (calcPSet s) n = Some e"
  shows "gget (vm_plist (rb_vc s)) n = Some e \<or> pq_n e = n \<and> prepared (pq_v e, n, pq_d e) s"
  using assms calcP_fold [of s "sm_certStore (rb_store s)" "vm_plist (rb_vc s)"] unfolding calcPSet_def by blast

lemma calcPSet_plist:
  assumes "gget (vm_plist (rb_vc s)) n = Some e"
  shows "\<exists>e'. gget (calcPSet s) n = Some e' \<and> pq_v e \<le> pq_v e'"
  using assms calcP_fold [of s "sm_certStore (rb_store s)" "vm_plist (rb_vc s)"] unfolding calcPSet_def by blast

lemma calcPSet_prepared:
  assumes "prepared (v, n, d) s"
  shows "\<exists>e'. gget (calcPSet s) n = Some e' \<and> v \<le> pq_v e'"
proof -
  obtain c where "rcert (v, n, d) s = Some c" using assms by (rule preparedE)
  then have "((v, n, d), c) \<in> set (sm_certStore (rb_store s))" by (simp add: rcert_def gget_def map_of_SomeD)
  then show ?thesis
    using assms calcP_fold [of s "sm_certStore (rb_store s)" "vm_plist (rb_vc s)"] unfolding calcPSet_def by blast
qed

lemma calcPSet_kept:
  assumes "plistOk s" "oneDigest s" "kept s c"
  shows "cm_n c < cc_H (rb_cc s) \<or> (\<exists>e. gget (calcPSet s) (cm_n c) = Some e \<and> higherEntry e c)"
proof -
  have one: "higherEntry e c" if p: "prepared (cm_view c, cm_n c, cm_digest c) s"
    and e: "gget (calcPSet s) (cm_n c) = Some e" "cm_view c \<le> pq_v e" for e
  proof -
    have ppc: "ppOf s (cm_view c, cm_n c, cm_digest c) \<noteq> None" using p by (rule preparedE)
    from calcPSet_entries [OF e(1)] show ?thesis
    proof
      assume "gget (vm_plist (rb_vc s)) (cm_n c) = Some e"
      then have "pq_v e < cm_view c" using assms(1) ppc unfolding plistOk_def by fastforce
      then show ?thesis using e(2) by simp
    next
      assume q: "pq_n e = cm_n c \<and> prepared (pq_v e, cm_n c, pq_d e) s"
      then have "ppOf s (pq_v e, cm_n c, pq_d e) \<noteq> None" by (auto elim: preparedE)
      then have "pq_v e = cm_view c \<Longrightarrow> pq_d e = cm_digest c" using assms(2) ppc unfolding oneDigest_def by metis
      then show ?thesis using q e(2) by (auto simp: higherEntry_def)
    qed
  qed
  have two: "higherEntry e' c" if e: "gget (vm_plist (rb_vc s)) (cm_n c) = Some e" "higherEntry e c"
    and e': "gget (calcPSet s) (cm_n c) = Some e'" for e e'
  proof -
    from calcPSet_entries [OF e'] show ?thesis
    proof
      assume "gget (vm_plist (rb_vc s)) (cm_n c) = Some e'"
      then show ?thesis using e by simp
    next
      assume q: "pq_n e' = cm_n c \<and> prepared (pq_v e', cm_n c, pq_d e') s"
      then have "ppOf s (pq_v e', cm_n c, pq_d e') \<noteq> None" by (auto elim: preparedE)
      then have "pq_v e < pq_v e'" using assms(1) e(1) unfolding plistOk_def by fastforce
      then show ?thesis using q e(2) by (auto simp: higherEntry_def intro: order_less_trans)
    qed
  qed
  from assms(3) show ?thesis
    unfolding kept_def using one two calcPSet_prepared calcPSet_plist by blast
qed

lemma dropOldCerts_store:
  "sm_certStore (rb_store (dropOldCerts s)) =
     gkeep (\<lambda>k _. k \<notin> fst ` set (sm_certStore (rb_store s)) \<or> \<not> fst k < cc_view (rb_cc s)) (sm_certStore (rb_store s))"
proof -
  define f where "f = (\<lambda>((v, n, d), cert) (s :: 'a replica).
     if v < cc_view (rb_cc s)
     then persistDelQPCSet (v, n, d) (rb_store_update (\<lambda>m.
            m\<lparr>sm_committedCertCache := gput (v, n, d) cert (sm_committedCertCache m),
              sm_certStore := gdel (v, n, d) (sm_certStore m),
              sm_seqMap := gdel n (sm_seqMap m)\<rparr>) s)
     else s)"
  have "sm_certStore (rb_store (fold f xs t)) =
     gkeep (\<lambda>k _. k \<notin> fst ` set xs \<or> \<not> fst k < cc_view (rb_cc t)) (sm_certStore (rb_store t))" for xs and t :: "'a replica"
  proof (induction xs arbitrary: t)
    case Nil
    then show ?case by (simp flip: gkeep_all)
  next
    case (Cons x xs)
    obtain v n d c where x: "x = ((v, n, d), c)" by (metis surj_pair)
    have cc: "rb_cc (f x t) = rb_cc t" by (simp add: f_def x)
    have st: "sm_certStore (rb_store (f x t)) = gkeep (\<lambda>k _. k \<noteq> (v, n, d) \<or> \<not> fst k < cc_view (rb_cc t)) (sm_certStore (rb_store t))"
      by (auto simp: f_def x gdel_def gkeep_def intro!: filter_cong)
    show ?case
      using Cons.IH [of "f x t"] unfolding cc st by (simp add: x) (rule arg_cong [where f = "\<lambda>P. gkeep P _"], intro ext, auto)
  qed
  then show ?thesis unfolding dropOldCerts_def f_def .
qed

lemma beforeSendVC_votes:
  assumes "beforeSendVC E r s = Some s'"
  shows "sameVotes s s'"
  using assms
  by (auto simp: beforeSendVC_def Let_def setView_def setViewWithRecovery_def stopHighWatermarkTimer_def sameVotes_def
      stopFetchCheckpointTimer_def stopNewViewTimer_def selfID_def split: option.splits if_splits elim!: setViewGenD)

lemma getVcBasis_votes:
  assumes "getVcBasis E s = Some (b, s')"
  shows "vm_plist (rb_vc s') = calcPSet s" "rb_cc s' = rb_cc s" "sentBases s' = sentBases s" "sentCommits s' = sentCommits s"
    "vb_pset b = filter (\<lambda>p. \<not> pq_n p < cc_H (rb_cc s)) (map snd (calcPSet s))"
    "sm_certStore (rb_store s') = gkeep (\<lambda>k _. k \<notin> fst ` set (sm_certStore (rb_store s)) \<or> \<not> fst k < cc_view (rb_cc s)) (sm_certStore (rb_store s))"
proof -
  define s2 where "s2 = rb_vc_update (vm_plist_update (\<lambda>_. calcPSet (persistDelQPList E s))) (persistDelQPList E s)"
  define s4 where "s4 = (let s3 = rb_vc_update (vm_qlist_update (\<lambda>_. calcQSet s2)) s2
      in persistQList (vm_qlist (rb_vc s3)) (persistPList (vm_plist (rb_vc s3)) s3))"
  have "rcert idx (persistDelQPList E s) = rcert idx s" for idx by (simp add: rcert_def)
  then have "prepared idx (persistDelQPList E s) = prepared idx s" for idx by (rule prepared_cong) simp
  then have calc: "calcPSet (persistDelQPList E s) = calcPSet s" by (simp add: calcPSet_def)
  have s4: "vm_plist (rb_vc s4) = calcPSet s" "rb_cc s4 = rb_cc s" "rb_store s4 = rb_store s" "sentBases s4 = sentBases s"
    "sentCommits s4 = sentCommits s"
    by (simp_all add: s4_def s2_def Let_def calc)
  have s': "s' = cleanCommittedCertCache (cc_H (rb_cc (dropOldCerts s4))) (dropOldCerts s4)"
    and b: "vb_pset b = fst (gatherPQC s')"
    using assms by (auto simp: getVcBasis_def s4_def s2_def Let_def split: prod.splits Option.bind_splits)
  show "vm_plist (rb_vc s') = calcPSet s" "rb_cc s' = rb_cc s" by (simp_all add: s' s4)
  then show "vb_pset b = filter (\<lambda>p. \<not> pq_n p < cc_H (rb_cc s)) (map snd (calcPSet s))"
    by (simp add: b gatherPQC_def Let_def)
  show "sentBases s' = sentBases s" "sentCommits s' = sentCommits s"
    using sentBases_cong [of "dropOldCerts s4" s4] sentCommits_cong [of "dropOldCerts s4" s4] by (simp_all add: s' s4)
  show "sm_certStore (rb_store s') = gkeep (\<lambda>k _. k \<notin> fst ` set (sm_certStore (rb_store s)) \<or> \<not> fst k < cc_view (rb_cc s)) (sm_certStore (rb_store s))"
    using dropOldCerts_store [of s4] by (simp add: s' s4 cleanCommittedCertCache_def Let_def)
qed

lemma getVcBasis_kept:
  assumes v: "votesKept s" and b: "getVcBasis E s2 = Some (b, s3)"
    and same: "sameVotes s s2" "rb_store s2 = rb_store s" "sentCommits s2 = sentCommits s" and up: "view s < view s2"
  shows "votesKept s3" "\<forall>c \<in> set (sentCommits s3). covers b c" "vb_view b = view s3" "vb_replicaId b = selfID s3"
proof -
  note k = votesKeptD [OF v] and f = getVcBasis_votes [OF b] and d = getVcBasis_D [OF b]
  have r: "rcert idx s2 = rcert idx s" for idx by (simp add: rcert_def same(2))
  have pr: "prepared idx s2 = prepared idx s" for idx using prepared_cong [OF r sameVotes_quorum [OF same(1)]] .
  have sv: "vm_plist (rb_vc s2) = vm_plist (rb_vc s)" "cc_H (rb_cc s2) = cc_H (rb_cc s)" "selfID s2 = selfID s" "sentBases s2 = sentBases s"
    using same(1) by (simp_all add: sameVotes_def)
  have pp2: "ppOf s2 idx = ppOf s idx" for idx by (simp add: ppOf_def r)
  have ok2: "plistOk s2" "oneDigest s2" "\<And>c. c \<in> set (sentCommits s) \<Longrightarrow> kept s2 c"
    using k(1,2,5) up by (auto simp: plistOk_def oneDigest_def kept_def pp2 pr sv intro: order_less_trans)
  have none: "ppOf s3 idx = None" for idx
  proof (rule ccontr)
    assume "ppOf s3 idx \<noteq> None"
    then obtain c p where c: "rcert idx s3 = Some c" "mc_prePrepare c = Some p" by (auto simp: ppOf_def bind_eq_Some_conv)
    then have "rcert idx s2 = Some c" "idx \<notin> fst ` set (sm_certStore (rb_store s2)) \<or> \<not> fst idx < view s2"
      using k(4) same(2) by (auto simp: rcert_def f(6) gget_gkeep view_def split: option.splits if_splits)
    moreover have "idx \<in> fst ` set (sm_certStore (rb_store s2))"
      using calculation(1) by (auto simp: rcert_def gget_def dest: map_of_SomeD intro: rev_image_eqI)
    moreover have "ppOf s idx \<noteq> None" using calculation(1) c(2) r by (simp add: ppOf_def)
    ultimately show False using k(3) [of idx] up by auto
  qed
  have v3: "view s3 = view s2" "selfID s3 = selfID s" "cc_H (rb_cc s3) = cc_H (rb_cc s)" using sv by (simp_all add: view_def selfID_def f(2))
  have entries: "pq_n e = n \<and> pq_v e < view s3" if "gget (calcPSet s2) n = Some e" for n e
    using calcPSet_entries [OF that]
  proof
    assume "gget (vm_plist (rb_vc s2)) n = Some e"
    then show ?thesis using ok2(1) v3(1) by (simp add: plistOk_def)
  next
    assume p: "pq_n e = n \<and> prepared (pq_v e, n, pq_d e) s2"
    then have "ppOf s (pq_v e, n, pq_d e) \<noteq> None" unfolding pr by (auto elim: preparedE)
    then show ?thesis using k(3) p up v3(1) by fastforce
  qed
  have low: "cm_n c < cc_H (rb_cc s) \<or> (\<exists>e. gget (calcPSet s2) (cm_n c) = Some e \<and> higherEntry e c)"
    if "c \<in> set (sentCommits s)" for c
    using calcPSet_kept [OF ok2(1,2) ok2(3) [OF that]] sv by simp
  show cov: "\<forall>c \<in> set (sentCommits s3). covers b c"
  proof
    fix c assume "c \<in> set (sentCommits s3)"
    then have "c \<in> set (sentCommits s)" using f(4) same(3) by simp
    from low [OF this] show "covers b c"
    proof
      assume "\<exists>e. gget (calcPSet s2) (cm_n c) = Some e \<and> higherEntry e c"
      then obtain e where e: "gget (calcPSet s2) (cm_n c) = Some e" "higherEntry e c" by blast
      then have "e \<in> set (map snd (calcPSet s2))" by (force simp: gget_def dest: map_of_SomeD)
      then have "\<not> pq_n e < cc_H (rb_cc s2) \<Longrightarrow> e \<in> set (vb_pset b)" using f(5) by simp
      then show ?thesis using e(2) d(3) unfolding covers_def by (cases "pq_n e < cc_H (rb_cc s2)") (auto simp: higherEntry_def)
    qed (use d(3) sv in \<open>simp add: covers_def\<close>)
  qed
  show "vb_view b = view s3" "vb_replicaId b = selfID s3" using d v3 sv by (simp_all add: view_def selfID_def)
  have "plistOk s3" using entries by (simp add: plistOk_def f(1) none)
  moreover have "oneDigest s3" by (simp add: oneDigest_def none)
  moreover have "gwf (sm_certStore (rb_store s3))" using k(4) by (simp add: f(6) same(2))
  moreover have "kept s3 c \<and> cm_view c \<le> view s3" if "c \<in> set (sentCommits s3)" for c
  proof -
    have c: "c \<in> set (sentCommits s)" using that f(4) same(3) by simp
    have "cm_view c \<le> view s3" using k(6) [OF c] up v3(1) by simp
    then show ?thesis using low [OF c] by (auto simp: kept_def f(1) v3)
  qed
  moreover have "vb_view b' \<le> view s3 \<and> vb_replicaId b' = selfID s3" if "b' \<in> set (sentBases s3)" for b'
    using that k(7,8) [of b'] up v3 sv f(3) by auto
  moreover have "covers b' c" if "b' \<in> set (sentBases s3)" "c \<in> set (sentCommits s3)" "cm_view c < vb_view b'" for b' c
    using that k(9) sv f(3,4) same(3) by simp
  ultimately show "votesKept s3" unfolding votesKept_def by (simp add: none)
qed

lemma votesKept_send:
  assumes "votesKept s" "\<forall>c \<in> set (sentCommits s). covers b c" "vb_view b = view s" "vb_replicaId b = selfID s"
    and "sentBases t = sentBases s @ [b]" "sentCommits t = sentCommits s" "rb_store t = rb_store s" "rb_vc t = rb_vc s" "rb_cc t = rb_cc s"
  shows "votesKept t"
proof -
  have r: "rcert idx t = rcert idx s" for idx by (simp add: rcert_def assms(7))
  have "prepared idx t = prepared idx s" for idx using prepared_cong [OF r] assms(9) by simp
  then have "kept t c = kept s c" for c by (simp add: kept_def assms(8,9))
  moreover have "plistOk t = plistOk s" "oneDigest t = oneDigest s"
    by (simp_all add: plistOk_def oneDigest_def ppOf_def r assms(8,9) view_def)
  ultimately show ?thesis
    using assms(1-4) by (auto simp: votesKept_def ppOf_def r assms(5-9) view_def selfID_def simp del: split_paired_All)
qed

lemma sendViewChangeStart_votes:
  assumes "sendViewChangeStart E r s = Some (o', s')" "votesKept s" "view s \<noteq> - 1"
  shows "votesKept s'"
proof (cases "vcGated r s")
  case True
  then show ?thesis using assms by (auto simp: sendViewChangeStart_def vcGated_def split: if_splits)
next
  case False
  then obtain s1 where s1: "beforeSendVC E r s = Some s1"
    using assms by (auto simp: sendViewChangeStart_def vcGated_def split: if_splits Option.bind_splits)
  define s2 where "s2 = (if r then raOn InRecovery s1 else s1)"
  obtain b s3 where b: "getVcBasis E s2 = Some (b, s3)"
    using assms s1 False
    by (auto simp: sendViewChangeStart_def vcGated_def Let_def s2_def split: if_splits Option.bind_splits)
  have same: "sameVotes s s2" using beforeSendVC_votes [OF s1] by (simp add: s2_def sameVotes_def selfID_def)
  have st: "rb_store s2 = rb_store s" "sentCommits s2 = sentCommits s"
    using beforeSendVC_store [OF s1] sentCommits_cong [OF beforeSendVC_store(2) [OF s1]] by (simp_all add: s2_def)
  have "view s2 = view s + 1" using beforeSendVC_D(1) [OF s1] by (simp add: s2_def view_def)
  then have "view s < view s2" using word_succ_less [OF assms(3)] by simp
  note k = getVcBasis_kept [OF assms(2) b same st this]
  have sign: "t = stopNamespace s3 \<or> t = s3" if "signViewChange E b s3 = (o1, t)" for o1 t
    using that by (auto simp: signViewChange_def split: option.splits)
  consider "s' = stopNamespace s3" | sig t' where
    "s' = (broadcast (MViewChange (ViewChange (Some b) sig 0 r)) s3)\<lparr>rb_timer := t'\<rparr>"
    using assms(1) s1 False b
    by (auto simp: sendViewChangeStart_def vcGated_def Let_def s2_def signViewChange_def startFetchViewTimer_def
        split: if_splits Option.bind_splits option.splits prod.splits elim!: startTD)
  then show ?thesis
  proof cases
    case 1
    have "sameVotes s3 s'" unfolding 1 by (simp add: sameVotes_def stopNamespace_def selfID_def)
    then show ?thesis by (rule votesKept_same [OF k(1)]) (simp_all add: 1 stopNamespace_def view_def)
  next
    case 2
    show ?thesis by (rule votesKept_send [OF k]) (simp_all add: 2)
  qed
qed

lemma recvStep_votes:
  assumes "recvViewChangeStep E vc v s = Some (n, s')" "votesKept s"
  shows "votesKept s'"
proof -
  have u: "sameVotes t (unicast E p i t) \<and> view (unicast E p i t) = view t" for p i and t :: "'a replica"
    using unicast_quiet(1) [of t E p i] by (simp add: quiet_def sameFrame_def)
  have st: "sameVotes t (recvStored E vc b t) \<and> view (recvStored E vc b t) = view t" for b t
    by (simp add: recvStored_def dropExpired_def storeVC_def selfID_def sameVotes_def view_def)
  have tr: "sameVotes t1 t2 \<Longrightarrow> sameVotes t2 t3 \<Longrightarrow> sameVotes t1 t3" for t1 t2 t3 :: "'a replica"
    by (simp add: sameVotes_def)
  have q: "sameVotes t t' \<and> view t' = view t" if "quorumReached E w t = Some t'" for w and t t' :: "'a replica"
    using that by (auto simp: quorumReached_def softStartNewViewTimer_def softStartT_def selfID_def sameVotes_def view_def
        split: Option.bind_splits)
  have sv: "sameVotes t t' \<and> view t' = w" if "setView E w t = Some t'" for w and t t' :: "'a replica"
    using that unfolding setView_def by (elim setViewGenD) (simp add: selfID_def sameVotes_def view_def)
  have hv: "view t \<le> minViewOf (higherVC t) - 1" if "card (snd ` set (higherVC t)) \<ge> oneCorrectQuorum (rb_cc t)" for t :: "'a replica"
  proof -
    have "higherVC t \<noteq> []" using that by (auto simp: oneCorrectQuorum_def)
    then show ?thesis using higherVC_min(1) word_pred_facts(1) by (auto simp: view_def)
  qed
  have "sameVotes s s' \<and> view s \<le> view s'"
    using assms(1)
  proof (rule recvStepE)
    fix b
    let ?s1 = "recvStored E vc b s"
    note st1 = st [of s b]
    have ur: "sameVotes s (sendRecoveryResponse E i ?s1) \<and> view (sendRecoveryResponse E i ?s1) = view s" for i
    proof -
      have "sameVotes ?s1 (sendRecoveryResponse E i ?s1) \<and> view (sendRecoveryResponse E i ?s1) = view ?s1"
        using u by (auto simp: sendRecoveryResponse_def split: option.split)
      then show ?thesis using st1 tr by metis
    qed
    have un: "sameVotes s (sendRecoveryResponse E i s) \<and> view (sendRecoveryResponse E i s) = view s" for i
      using u by (auto simp: sendRecoveryResponse_def split: option.split)
    assume "(n = VCReturn None \<and> s' = s)
     \<or> (n = VCReturn None \<and> s' = sendRecoveryResponse E (vb_replicaId b) s \<and> vc_recovery vc \<and> risNormal s
         \<and> vb_view b < cc_view (rb_cc s))
     \<or> (vb_view b \<ge> cc_view (rb_cc s) \<and> correctViewChange b = Some True
         \<and> (v \<or> verifySignedViewChange E vc (vb_replicaId b)) \<and>
       (let s1 = recvStored E vc b s in
         (n = VCSend \<and> card (snd ` set (higherVC s1)) \<ge> oneCorrectQuorum (rb_cc s1)
            \<and> setView E (minViewOf (higherVC s1) - 1) s1 = Some s')
         \<or> (n = VCReturn (Some (LocalEvent ViewChangeQuorum)) \<and> ratomicIn InViewChange s1
            \<and> vb_view b = cc_view (rb_cc s1) \<and> List.length (currentVC s1) \<ge> commonCaseQuorum (rb_cc s1)
            \<and> quorumReached E (vb_view b) s1 = Some s')
         \<or> (n = VCSend \<and> risNormal s1 \<and> isPrimary (vb_replicaId b) s1 \<and> s' = s1)
         \<or> (n = VCReturn None \<and> (s' = s1 \<or> s' = sendRecoveryResponse E (vb_replicaId b) s1))))"
    then consider "s' = s" | "s' = sendRecoveryResponse E (vb_replicaId b) s"
      | "card (snd ` set (higherVC ?s1)) \<ge> oneCorrectQuorum (rb_cc ?s1)" "setView E (minViewOf (higherVC ?s1) - 1) ?s1 = Some s'"
      | w where "quorumReached E w ?s1 = Some s'" | "s' = ?s1" | "s' = sendRecoveryResponse E (vb_replicaId b) ?s1"
      unfolding Let_def by blast
    then show ?thesis
    proof cases
      case 3
      then show ?thesis using hv [OF 3(1)] sv [OF 3(2)] st1 tr by metis
    next
      case (4 w)
      then show ?thesis using q [OF 4] st1 tr by (metis order_refl)
    qed (use un ur st1 in simp_all)
  qed
  then show ?thesis
    using votesKept_same [OF assms(2)] recvStep_thinner [OF assms(1)] by simp
qed

lemma sendViewChange_votes:
  assumes "sendViewChange E r s = Some (e, s')" "view s \<noteq> - 1" "votesKept s"
  shows "votesKept s'"
  using assms
proof (induction E r s arbitrary: e s' rule: sendViewChange.induct)
  case (1 E r s)
  from "1.prems" obtain ovc s1 where start: "sendViewChangeStart E r s = Some (ovc, s1)"
    by (subst (asm) sendViewChange.simps) (auto split: option.splits)
  note v1 = sendViewChangeStart_votes [OF start "1.prems"(3,2)]
  show ?case
  proof (cases ovc)
    case None
    then have "s' = s1" using "1.prems" start by (subst (asm) sendViewChange.simps) simp
    then show ?thesis using v1 by simp
  next
    case (Some vc)
    obtain n s2 where step: "recvViewChangeStep E vc True s1 = Some (n, s2)"
      using "1.prems" start Some by (subst (asm) sendViewChange.simps) (auto split: option.splits)
    note v2 = recvStep_votes [OF step v1]
    show ?thesis
    proof (cases n)
      case (VCReturn e')
      then have "s' = s2" using "1.prems" start Some step by (subst (asm) sendViewChange.simps) simp
      then show ?thesis using v2 by simp
    next
      case VCSend
      note dec = sendViewChange_decreases [OF start [unfolded Some] step [unfolded VCSend]]
      have "sendViewChange E False s2 = Some (e, s')"
        using "1.prems" start Some step VCSend by (subst (asm) sendViewChange.simps) simp
      then show ?thesis using "1.IH" [OF start refl Some step refl VCSend] dec(5) v2 by (simp add: view_def)
    qed
  qed
qed

lemma sendViewChange_evolves:
  assumes "sendViewChange E r s = Some (e, s')" "view s \<noteq> - 1"
  shows "evolves s s'"
proof -
  from sendViewChange_view [OF assms(1)] consider "s' = s" | "view s' \<ge> view s + 1" by (auto simp: view_def)
  then show ?thesis
  proof cases
    case 2
    then have "view s < view s'" using word_succ_less [OF assms(2)] by (rule order_less_le_trans [rotated])
    then show ?thesis
      using thinner_evolves [OF sendViewChange_thinner [OF assms(1)]] sendViewChange_votes [OF assms] by blast
  qed simp
qed

end
