(* ===== verification/NormalSafety.thy ===== *)
theory NormalSafety
  imports Certificates
begin

text \<open>
  What the normal case keeps true. A certificate holds only messages for its own view, height and
  digest, each under the identifier of its message, so that counting entries counts senders; in the
  current view at most one digest is accepted for a height; and the primary proposes at most one
  batch for a height. Every handler of the normal case is shown to keep this.
\<close>

section \<open>The steps of the normal case\<close>

lemmas quiet_simps = quiet_def sameFrame_def sameVotes_def view_def selfID_def

lemma dropVC_evolves:
  "dropEvent (sendViewChange E r) s = Some s' \<Longrightarrow> view s \<noteq> - 1 \<Longrightarrow> evolves s s'"
  by (auto simp: dropEvent_def intro: sendViewChange_evolves)

lemma evolves_view: "evolves s t \<Longrightarrow> view t = - 1 \<Longrightarrow> view s \<noteq> - 1 \<Longrightarrow> view s < view t"
  by (auto simp: evolves_def sameFrame_def)

lemma startTimerIfOutstandingRequests_quiet:
  "startTimerIfOutstandingRequests E s = Some s' \<Longrightarrow> quiet s s'"
  using startTimerIfOutstandingRequests_frame [of E s s'] sentCommits_cong [of s' s] sentBases_cong [of s' s]
  by (simp add: quiet_simps)

lemma softStartNewViewTimer_quiet: "softStartNewViewTimer E t b s = Some s' \<Longrightarrow> quiet s s'"
  by (auto simp: softStartNewViewTimer_def softStartT_def quiet_simps)

lemma softStartHighWatermarkTimer_quiet: "softStartHighWatermarkTimer E s = Some s' \<Longrightarrow> quiet s s'"
  by (auto simp: softStartHighWatermarkTimer_def softStartT_def quiet_simps)

lemma exitSyncState_quiet [simp]: "quiet s (exitSyncState s)"
  by (simp add: exitSyncState_def quiet_simps)

lemma persistCSet_evolves: "evolves s (persistCSet idx s)"
proof -
  obtain v n d where idx: "idx = (v, n, d)" by (cases idx)
  have "quiet (snd (getCert idx s)) (persistCSet idx s)"
    by (simp add: idx persistCSet_def storeState_def quiet_simps case_prod_unfold)
  then show ?thesis using getCert_evolves quiet_evolves evolves_trans by blast
qed

lemma persistPSet_evolves: "evolves s (persistPSet idx s)"
proof -
  obtain v n d where idx: "idx = (v, n, d)" by (cases idx)
  have "quiet (snd (getCert idx s)) (persistPSet idx s)"
    by (simp add: idx persistPSet_def storeState_def quiet_simps case_prod_unfold)
  then show ?thesis using getCert_evolves quiet_evolves evolves_trans by blast
qed

lemma beforeExecute_evolves:
  assumes "beforeExecute E idx s = Some s'"
  shows "evolves s s'"
proof -
  have "quiet (persistCSet idx s) s'"
    using assms by (auto simp: beforeExecute_def Let_def stopNewViewTimer_def softRestartBatchTimer_def softStartT_def
        quiet_simps split: if_splits)
  then show ?thesis using persistCSet_evolves quiet_evolves evolves_trans by blast
qed

lemma executeBatch_quiet: "executeBatch E idx cert s = Some s' \<Longrightarrow> quiet s s'"
  by (auto simp: executeBatch_def Let_def setConfigBatchToExecute_def quiet_simps
      split: prod.splits if_splits Option.bind_splits)

lemma afterCommitBlock_quiet: "afterCommitBlock idx c s = Some s' \<Longrightarrow> quiet s s'"
  by (auto simp: afterCommitBlock_def Let_def quiet_simps split: if_splits)

lemma commitOne_evolves:
  assumes "commitOne E idx cert s = Some s'"
  shows "evolves s s'"
proof -
  define g :: "'a replica \<Rightarrow> 'a replica" where "g = rb_store_update (sm_outstanding_update (gdel (snd (snd idx))))"
  from assms obtain s1 s2 where b: "beforeExecute E idx s = Some s1" and x: "executeBatch E idx cert s1 = Some s2"
    and a: "afterCommitBlock idx (mc_isConfig cert) (modCert idx (\<lambda>c. c\<lparr>mc_sentExecute := True\<rparr>) (g s2)) = Some s'"
    by (auto simp: commitOne_def g_def split: option.splits)
  have "quiet s2 (g s2)" by (simp add: g_def quiet_simps)
  moreover have "evolves (g s2) (modCert idx (\<lambda>c. c\<lparr>mc_sentExecute := True\<rparr>) (g s2))"
    by (rule modCert_evolves) simp_all
  ultimately show ?thesis
    using beforeExecute_evolves [OF b] executeBatch_quiet [OF x] afterCommitBlock_quiet [OF a]
      evolves_trans quiet_evolves by blast
qed

lemma commitLoop_evolves: "commitLoop E s = Some s' \<Longrightarrow> evolves s s'"
proof (induction E s arbitrary: s' rule: commitLoop.induct)
  case (1 E s)
  show ?case
  proof (cases "findNextCommitBatch s")
    case None
    then show ?thesis using "1.prems" by (subst (asm) commitLoop.simps) simp
  next
    case (Some q)
    then obtain idx cert where f: "findNextCommitBatch s = Some (idx, cert)" by (cases q) auto
    obtain s1 where one: "commitOne E idx cert s = Some s1" and rest: "commitLoop E s1 = Some s'"
      using "1.prems" f by (subst (asm) commitLoop.simps) (auto split: option.splits)
    show ?thesis using evolves_trans [OF commitOne_evolves [OF one] "1.IH" [OF f refl one rest]] .
  qed
qed

lemma commitPendingBlocks_evolves:
  assumes "commitPendingBlocks E s = Some s'"
  shows "evolves s s' \<and> view s' = view s"
proof -
  from assms obtain s1 where l: "commitLoop E s = Some s1" and f: "s' = s1 \<or> startTimerIfOutstandingRequests E s1 = Some s'"
    by (auto simp: commitPendingBlocks_def split: Option.bind_splits if_splits)
  have q: "quiet s1 s'" using f startTimerIfOutstandingRequests_quiet by auto
  moreover have "view s1 = view s" using commitLoop_D [OF l] by (auto simp: view_def)
  moreover have "view s' = view s1" using q by (simp add: quiet_simps)
  ultimately show ?thesis
    using commitLoop_evolves [OF l] evolves_trans quiet_evolves by metis
qed

lemma cacheHighView_quiet [simp]: "quiet s (cacheHighView v f s)"
  by (simp add: cacheHighView_def quiet_simps)

lemma certWf_put:
  "certWf (cm_view c, cm_n c, cm_digest c) k \<Longrightarrow>
     certWf (cm_view c, cm_n c, cm_digest c) (mc_commit_update (gput (cm_ID c) c) k)"
  "certWf (pr_view p, pr_n p, pr_digest p) k \<Longrightarrow>
     certWf (pr_view p, pr_n p, pr_digest p) (mc_prepare_update (gput (pr_ID p) p) k)"
  by (auto simp: certWf_def)

lemma gsize_gput_grows: "gsize m \<le> gsize (gput k v m)"
  by (induction m) (auto simp: gsize_def gput_def)

lemma recvCommit_evolves:
  assumes "recvCommit E c s = Some s'" "view s \<noteq> - 1"
  shows "evolves s s'"
proof (cases "isCommitLegal c s")
  case False
  then show ?thesis using assms by (auto simp: recvCommit_def intro!: quiet_evolves)
next
  case True
  define idx where "idx = (cm_view c, cm_n c, cm_digest c)"
  define s1 where "s1 = snd (getCert idx s)"
  define s2 where "s2 = (if \<not> risValidator s1 \<and> cm_replicaId c = selfID s1 then s1
                         else modCert idx (mc_commit_update (gput (cm_ID c) c)) s1)"
  define s2' where "s2' = rb_store_update (sm_committedCert_update (gput idx (cm_digest c))) s2"
  have e1: "evolves s s1" unfolding s1_def by (rule getCert_evolves)
  have "evolves s1 s2" unfolding s2_def idx_def by (auto intro!: modCert_evolves certWf_put gsize_gput_grows)
  then have e2: "evolves s s2" using e1 evolves_trans by blast
  have v1: "view s1 = view s" by (simp add: s1_def getCert_def view_def split: option.split)
  then have v2: "view s2 = view s" by (simp add: s2_def modCert_def view_def)
  have "quiet s2 s2'" by (simp add: s2'_def quiet_simps)
  then have e3: "evolves s s2'" "view s2' = view s" using e2 quiet_evolves evolves_trans v2 by (blast, simp add: quiet_simps)
  define s4 where "s4 = (\<lambda>s3 :: 'a replica. rb_vc_update (vm_lastNewViewTimeout_update (\<lambda>_. timeoutOf newViewTimer s3)) s3)"
  have eq: "recvCommit E c s =
     (if ghas (mc_commit (fst (getCert idx s))) (cm_ID c) \<and> cm_n c \<le> rb_lastExec s1 then Some s1
      else if \<not> committed idx s2 then Some s2
      else if mc_sentExecute (fst (getCert idx s)) \<or> \<not> mc_sentCommit (fst (getCert idx s)) then Some s2
      else Option.bind (commitPendingBlocks E s2') (\<lambda>s3. if rin waitCheckpointBatchExecute s3 then Some s3
               else if cm_n c = vm_viewChangeSeqNo (rb_vc (s4 s3)) then dropEvent (sendViewChange E False) (s4 s3)
                 else Some (s4 s3)))"
    unfolding recvCommit_def s4_def s2'_def s2_def s1_def idx_def Let_def case_prod_unfold using True by (simp only: not_True_eq_False if_False)
  consider "s' = s1" | "s' = s2" | s3 where "commitPendingBlocks E s2' = Some s3" and
    "s' = s3 \<or> s' = s4 s3 \<or> dropEvent (sendViewChange E False) (s4 s3) = Some s'"
    using assms(1) unfolding eq by (auto split: if_splits Option.bind_splits)
  then show ?thesis
  proof cases
    case 3
    have e4: "evolves s s3" "view s3 = view s" using commitPendingBlocks_evolves [OF 3(1)] e3 evolves_trans by auto
    have "quiet s3 (s4 s3)" by (simp add: s4_def quiet_simps)
    then have e5: "evolves s (s4 s3)" "view (s4 s3) = view s"
      using e4 quiet_evolves evolves_trans by (blast, simp add: quiet_simps)
    have "evolves (s4 s3) s'" if "dropEvent (sendViewChange E False) (s4 s3) = Some s'"
      using dropVC_evolves [OF that] e5(2) assms(2) by simp
    then show ?thesis using 3(2) e4(1) e5(1) evolves_trans by blast
  qed (use e1 e2 in simp_all)
qed

lemma evolves_quiet: "evolves s t \<Longrightarrow> quiet t u \<Longrightarrow> evolves s u"
  by (rule evolves_trans [OF _ quiet_evolves])

lemma getCert_view [simp]: "view (snd (getCert idx s)) = view s"
  by (simp add: getCert_def view_def split: option.split)

lemma modCert_view [simp]: "view (modCert idx f s) = view s"
  by (simp add: modCert_def view_def)

lemma quiet_view: "quiet s t \<Longrightarrow> view t = view s"
  by (simp add: quiet_simps)

lemma broadcast_quiet:
  "\<forall>c. p \<noteq> MCommit c \<Longrightarrow> \<forall>vc. p \<noteq> MViewChange vc \<Longrightarrow> quiet s (if b then broadcast p s else s)"
  by (auto simp: quiet_simps split: payload.split)

lemma broadcast_evolves:
  assumes "backedCommit s c" "prepared (cm_view c, cm_n c, cm_digest c) s"
  shows "evolves s (if b then broadcast (MCommit c) s else s)"
proof -
  have r: "rcert i (broadcast (MCommit c) s) = rcert i s" for i by (simp add: rcert_def)
  have "votesKept (broadcast (MCommit c) s)" if v: "votesKept s"
    by (rule votesKept_grow [where cs = "[c]", OF v])
      (use assms votesKeptD(4) [OF v] prepared_cong [OF r] in \<open>auto simp: sameVotes_def view_def selfID_def ppOf_def r backedCommit_def\<close>)
  then have "evolves s (broadcast (MCommit c) s)"
    using assms(1) by (simp add: evolves_def certsWf_def ppOf_def rcert_def sameFrame_def view_def selfID_def)
  then show ?thesis by simp
qed

lemma ppOf_frame [simp]:
  "ppOf (snd (getCert idx s)) i = ppOf s i" "ppOf (persistPSet idx s) i = ppOf s i"
  "(\<And>c. mc_prePrepare (f c) = mc_prePrepare c) \<Longrightarrow> ppOf (modCert idx f s) i = ppOf s i"
proof -
  show g: "ppOf (snd (getCert idx s)) i = ppOf s i" by (simp add: ppOf_def rcert_getCert newCert_def)
  obtain v n d where idx: "idx = (v, n, d)" by (cases idx)
  have "rb_store (persistPSet idx s) = rb_store (snd (getCert idx s))"
    by (simp add: idx persistPSet_def storeState_def case_prod_unfold)
  then show "ppOf (persistPSet idx s) i = ppOf s i" using g by (simp add: ppOf_def rcert_def)
  show "(\<And>c. mc_prePrepare (f c) = mc_prePrepare c) \<Longrightarrow> ppOf (modCert idx f s) i = ppOf s i"
    by (cases "rcert i s") (auto simp: ppOf_def rcert_modCert)
qed

lemma sendCommit_evolves:
  assumes "sendCommit E idx s = Some s'" "view s \<noteq> - 1" "fst idx = view s" "prepared idx s"
  shows "evolves s s'"
proof -
  obtain v n d where idx: "idx = (v, n, d)" by (cases idx)
  define s1 where "s1 = modCert idx (\<lambda>c. c\<lparr>mc_sentCommit := True\<rparr>) (snd (getCert idx s))"
  define s2 where "s2 = persistPSet idx s1"
  define c where "c = \<lparr>cm_replicaId = selfID s1, cm_view = v, cm_n = n, cm_digest = d\<rparr>"
  define s3 where "s3 = (if risValidator s2 then broadcast (MCommit c) s2 else s2)"
  have r: "recvCommit E c s3 = Some s'"
    using assms(1) unfolding sendCommit_def idx s1_def s2_def s3_def c_def Let_def prod.case .
  have "evolves (snd (getCert idx s)) s1" unfolding s1_def by (rule modCert_evolves) simp_all
  then have "evolves s s1" using getCert_evolves evolves_trans by blast
  then have e2: "evolves s s2" unfolding s2_def using persistPSet_evolves evolves_trans by blast
  have v2: "view s2 = view s" "selfID s2 = selfID s1"
    by (simp_all add: s2_def s1_def idx persistPSet_def storeState_def modCert_def view_def selfID_def getCert_def
        split: option.split prod.split)
  obtain k where k: "rcert idx s = Some k" "int (commonCaseQuorum (rb_cc s)) - 1 \<le> int (gsize (mc_prepare k))" "prePrepared idx s"
    "ppOf s idx \<noteq> None"
    using assms(4) by (rule preparedE)
  have st: "rb_store s2 = rb_store (snd (getCert idx s1))" "rb_cc s2 = rb_cc s"
    by (simp_all add: s2_def s1_def idx persistPSet_def storeState_def case_prod_unfold getCert_cc modCert_cc)
  have "rcert idx s2 = Some (k\<lparr>mc_sentCommit := True\<rparr>)"
    using k(1) rcert_getCert [of idx idx s1] by (simp add: rcert_def [of _ s2] st(1)) (simp add: rcert_def [symmetric] s1_def rcert_getCert rcert_modCert)
  then have p2: "prepared idx s2" using k(1-3) by (simp add: prepared_def prePrepared_def idx st(2))
  then have "ppOf s2 idx \<noteq> None" by (rule preparedE)
  then have "backedCommit s2 c" using assms(3) v2 by (simp add: backedCommit_def c_def idx)
  then have e3: "evolves s2 s3" unfolding s3_def using p2 by (intro broadcast_evolves) (simp_all add: c_def idx)
  have "view s3 = view s2" by (simp add: s3_def view_def)
  then have "evolves s3 s'" using recvCommit_evolves [OF r] v2 assms(2) by simp
  then show ?thesis using e2 e3 evolves_trans by blast
qed

lemma prepared_ppOf: "prepared idx s \<Longrightarrow> ppOf s idx \<noteq> None"
  by (auto simp: prepared_def prePrepared_def ppOf_def split: option.splits prod.splits)

lemma maybeSendCommit_evolves:
  assumes "maybeSendCommit E idx s = Some s'" "view s \<noteq> - 1" "fst idx = view s"
  shows "evolves s s'"
proof -
  define s1 where "s1 = snd (getCert idx s)"
  have e1: "evolves s s1" "view s1 = view s" by (simp_all add: s1_def getCert_evolves)
  have "s' = s \<or> s' = s1 \<or> sendCommit E idx s1 = Some s' \<and> prepared idx s1"
    using assms(1) by (auto simp: maybeSendCommit_def s1_def case_prod_unfold split: if_splits)
  then show ?thesis
    using e1 sendCommit_evolves [of E idx s1 s'] assms(2,3) evolves_trans by auto
qed

lemma recvPrepare_evolves:
  assumes "recvPrepare E p s = Some s'" "view s \<noteq> - 1"
  shows "evolves s s'"
proof (cases "isPrepareLegal p s")
  case False
  then show ?thesis using assms by (auto simp: recvPrepare_def intro!: quiet_evolves)
next
  case True
  define idx where "idx = (pr_view p, pr_n p, pr_digest p)"
  define s1 where "s1 = snd (getCert idx s)"
  define s2 where "s2 = (if \<not> risValidator s1 \<and> pr_replicaId p = selfID s1 then s1
                         else modCert idx (mc_prepare_update (gput (pr_ID p) p)) s1)"
  have e1: "evolves s s1" "view s1 = view s" by (simp_all add: s1_def getCert_evolves)
  have "evolves s1 s2" unfolding s2_def idx_def by (auto intro!: modCert_evolves certWf_put gsize_gput_grows)
  then have e2: "evolves s s2" "view s2 = view s" using e1 evolves_trans by (blast, simp add: s2_def)
  have eq: "recvPrepare E p s = (if ghas (mc_prepare (fst (getCert idx s))) (pr_ID p) then Some s1
      else maybeSendCommit E idx s2)"
    unfolding recvPrepare_def s2_def s1_def idx_def Let_def case_prod_unfold
    using True by (simp only: not_True_eq_False if_False)
  then have "s' = s1 \<or> maybeSendCommit E idx s2 = Some s'" using assms(1) by (auto split: if_splits)
  moreover have "fst idx = view s2"
    using True e2(2) by (simp add: idx_def isPrepareLegal_def inWV_def inV_def view_def split: if_splits)
  ultimately show ?thesis using e1 e2 maybeSendCommit_evolves [of E idx s2 s'] assms(2) evolves_trans by auto
qed

lemma sendPrepare_evolves:
  assumes "sendPrepare E idx s = Some s'" "view s \<noteq> - 1"
  shows "evolves s s'"
proof -
  obtain v n d where idx: "idx = (v, n, d)" by (cases idx)
  define s1 where "s1 = modCert idx (\<lambda>c. c\<lparr>mc_sentPrepare := True\<rparr>) (snd (getCert idx s))"
  define p where "p = \<lparr>pr_replicaId = selfID s1, pr_view = v, pr_n = n, pr_digest = d\<rparr>"
  define s2 where "s2 = (if risValidator s1 then broadcast (MPrepare p) s1 else s1)"
  have r: "recvPrepare E p s2 = Some s'"
    using assms(1) unfolding sendPrepare_def idx s1_def s2_def p_def Let_def prod.case .
  have "evolves (snd (getCert idx s)) s1" unfolding s1_def by (rule modCert_evolves) simp_all
  then have e1: "evolves s s1" using getCert_evolves evolves_trans by blast
  have q2: "quiet s1 s2" unfolding s2_def by (rule broadcast_quiet) simp_all
  have "view s2 = view s" using quiet_view [OF q2] by (simp add: s1_def)
  then have "evolves s2 s'" using recvPrepare_evolves [OF r] assms(2) by simp
  then show ?thesis using evolves_quiet [OF e1 q2] evolves_trans by blast
qed

lemma fetchMissingTxs_quiet: "quiet s (fetchMissingTxs E pp m s)"
proof -
  define t where "t = rb_store_update (sm_missingInFetching_update
                (gput (pp_digest pp) (pp_view pp, pp_n pp, pp_digest pp))) s"
  have "quiet s t" by (simp add: t_def quiet_simps)
  then have "quiet s (unicast E p i t)" for p i using unicast_quiet(1) quiet_trans by blast
  then show ?thesis by (simp add: fetchMissingTxs_def Let_def t_def)
qed

lemma withPool_quiet: "quiet s (withPool q s)"
  by (simp add: withPool_def quiet_simps)

lemma storeBatch_quiet: "storeBatch d b s = Some s' \<Longrightarrow> quiet s s'"
  by (auto simp: storeBatch_def persistBatch_def storeState_def quiet_simps)

lemma noticeConfigBatch_evolves: "evolves s (noticeConfigBatch idx b s)" "view (noticeConfigBatch idx b s) = view s"
proof -
  define t where "t = modCert idx (\<lambda>c. c\<lparr>mc_isConfig := True\<rparr>) (raOn InConfChange s)"
  have "quiet s (raOn InConfChange s)" by (simp add: quiet_simps)
  moreover have "evolves (raOn InConfChange s) t" unfolding t_def by (rule modCert_evolves) simp_all
  ultimately have "evolves s t" using quiet_evolves evolves_trans by blast
  moreover have "quiet t (rb_epoch_update (em_configBatchInOrder_update (\<lambda>_. fst (snd idx))) t)" by (simp add: quiet_simps)
  ultimately show "evolves s (noticeConfigBatch idx b s)"
    using evolves_quiet by (auto simp: noticeConfigBatch_def t_def)
  show "view (noticeConfigBatch idx b s) = view s" by (simp add: noticeConfigBatch_def view_def modCert_def)
qed

lemma assembleBatch_evolves:
  assumes "assembleBatch E idx pp s = Some s'" "view s \<noteq> - 1"
  shows "evolves s s'"
proof -
  obtain hb where hb: "pp_hashBatch pp = Some hb" using assms(1) by (auto simp: assembleBatch_def split: option.splits)
  obtain r q where r: "en_poolGetRequests E (snd (snd idx)) (hb_timestamp hb) (hb_hashes hb) (hb_deDuplicate hb) (rb_pool s) = (r, q)"
    by fastforce
  have e1: "evolves s (withPool q s)" by (rule quiet_evolves) (rule withPool_quiet)
  have v1: "view (withPool q s) \<noteq> - 1" using quiet_view [OF withPool_quiet [of s q]] assms(2) by simp
  show ?thesis
  proof (cases r)
    case PoolError
    then have "dropEvent (sendViewChange E False) (withPool q s) = Some s'" using assms(1) by (simp add: assembleBatch_def hb r)
    then show ?thesis using dropVC_evolves v1 e1 evolves_trans by blast
  next
    case (PoolMissing m)
    then have "s' = fetchMissingTxs E pp m (withPool q s)" using assms(1) by (simp add: assembleBatch_def hb r)
    then show ?thesis using evolves_quiet [OF e1 fetchMissingTxs_quiet] by simp
  next
    case (PoolFound txs ls)
    then obtain b s2 where s2: "storeBatch (snd (snd idx)) b (withPool q s) = Some s2"
      "sendPrepare E idx (noticeConfigBatch idx b s2) = Some s'"
      using assms(1) by (auto simp: assembleBatch_def hb r Let_def split: Option.bind_splits)
    have "view s2 \<noteq> - 1" using quiet_view [OF storeBatch_quiet [OF s2(1)]] v1 by simp
    then have "evolves (noticeConfigBatch idx b s2) s'"
      using sendPrepare_evolves [OF s2(2)] noticeConfigBatch_evolves(2) by metis
    then show ?thesis
      using evolves_quiet [OF e1 storeBatch_quiet [OF s2(1)]] noticeConfigBatch_evolves(1) evolves_trans by blast
  qed
qed

lemma findNextPrepareBatch_evolves:
  assumes "findNextPrepareBatch E idx s = Some s'" "view s \<noteq> - 1"
  shows "evolves s s'"
proof -
  obtain v n d where idx: "idx = (v, n, d)" by (cases idx)
  define s1 where "s1 = snd (getCert idx s)"
  have e1: "evolves s s1" and v1: "view s1 \<noteq> - 1" using assms(2) by (simp_all add: s1_def getCert_evolves)
  show ?thesis
  proof (cases "mc_prePrepare (fst (getCert idx s))")
    case None
    then have "s' = s \<or> s' = s1"
      using assms(1) by (auto simp: findNextPrepareBatch_def idx s1_def case_prod_unfold split: if_splits)
    then show ?thesis using e1 by auto
  next
    case (Some pp)
    have eq: "findNextPrepareBatch E idx s = (if v \<noteq> cc_view (rb_cc s) then Some s
        else if rin SkipInProgress s1 then Some s1 else if d = [] then sendPrepare E idx s1
        else case gget (sm_batchStore (rb_store s1)) d of
                Some b \<Rightarrow> sendPrepare E idx (noticeConfigBatch idx b s1)
              | None \<Rightarrow> assembleBatch E idx pp s1)"
    proof -
      obtain c where gc: "getCert idx s = (c, s1)" and c: "mc_prePrepare c = Some pp"
        using Some by (cases "getCert idx s") (simp add: s1_def)
      show ?thesis unfolding findNextPrepareBatch_def gc unfolding idx prod.case c option.case ..
    qed
    have nb: "evolves s1 s'" if "sendPrepare E idx (noticeConfigBatch idx b s1) = Some s'" for b
      using sendPrepare_evolves [OF that] noticeConfigBatch_evolves v1 evolves_trans by metis
    have "s' = s \<or> evolves s1 s'"
      using assms(1) unfolding eq using nb v1
      by (auto split: if_splits option.splits intro: sendPrepare_evolves assembleBatch_evolves)
    then show ?thesis using e1 evolves_trans by auto
  qed
qed

section \<open>Accepting a pre-prepare\<close>

definition install :: "prePrepare \<Rightarrow> 'p replica \<Rightarrow> 'p replica" where
  \<comment> \<open>the certificate and the sequence map right after a pre-prepare is accepted\<close>
  "install pp s = rb_store_update (sm_seqMap_update (gput (pp_n pp) (pp_digest pp)))
     (modCert (pp_view pp, pp_n pp, pp_digest pp) (\<lambda>c. c\<lparr>mc_prePrepare := Some pp\<rparr>)
        (snd (getCert (pp_view pp, pp_n pp, pp_digest pp) s)))"

lemma install_facts:
  "rcert i (install pp s) = (if i = (pp_view pp, pp_n pp, pp_digest pp)
     then Some ((case rcert i s of None \<Rightarrow> newCert | Some c \<Rightarrow> c)\<lparr>mc_prePrepare := Some pp\<rparr>) else rcert i s)"
  "ppOf (install pp s) i = (if i = (pp_view pp, pp_n pp, pp_digest pp) then Some pp else ppOf s i)"
  "sm_seqMap (rb_store (install pp s)) = gput (pp_n pp) (pp_digest pp) (sm_seqMap (rb_store s))"
  "rb_cc (install pp s) = rb_cc s" "rb_batch (install pp s) = rb_batch s" "view (install pp s) = view s"
  "rb_lastExec (install pp s) = rb_lastExec s" "rb_status (install pp s) = rb_status s"
proof -
  have r: "rcert i (install pp s) = rcert i (modCert (pp_view pp, pp_n pp, pp_digest pp)
      (\<lambda>c. c\<lparr>mc_prePrepare := Some pp\<rparr>) (snd (getCert (pp_view pp, pp_n pp, pp_digest pp) s)))" for i
    by (simp add: install_def rcert_def)
  show one: "rcert i (install pp s) = (if i = (pp_view pp, pp_n pp, pp_digest pp)
     then Some ((case rcert i s of None \<Rightarrow> newCert | Some c \<Rightarrow> c)\<lparr>mc_prePrepare := Some pp\<rparr>) else rcert i s)" for i
    unfolding r rcert_modCert rcert_getCert by (auto split: option.splits)
  show "ppOf (install pp s) i = (if i = (pp_view pp, pp_n pp, pp_digest pp) then Some pp else ppOf s i)"
    by (simp add: ppOf_def one)
  show "sm_seqMap (rb_store (install pp s)) = gput (pp_n pp) (pp_digest pp) (sm_seqMap (rb_store s))"
    "rb_cc (install pp s) = rb_cc s" "rb_batch (install pp s) = rb_batch s" "view (install pp s) = view s"
    "rb_lastExec (install pp s) = rb_lastExec s" "rb_status (install pp s) = rb_status s"
    by (simp_all add: install_def modCert_def getCert_def view_def split: option.split)
qed

lemma certWf_install:
  "certWf (pp_view pp, pp_n pp, pp_digest pp) c \<Longrightarrow> certWf (pp_view pp, pp_n pp, pp_digest pp) (c\<lparr>mc_prePrepare := Some pp\<rparr>)"
  by (simp add: certWf_def)

lemma install_certsWf:
  assumes "certsWf s"
  shows "certsWf (install pp s)"
proof -
  have "gwf (sm_certStore (rb_store (install pp s)))"
    using assms by (simp add: install_def certsWf_def)
  moreover have "certWf i c" if "rcert i (install pp s) = Some c" for i c
    using that assms
    by (auto simp: install_facts certsWf_def simp del: split_paired_All intro!: certWf_install split: if_splits option.splits)
  ultimately show ?thesis unfolding certsWf_def by blast
qed

lemma install_normalOk:
  assumes "normalOk s" "pp_view pp = view s" "gget (sm_seqMap (rb_store s)) (pp_n pp) \<in> {None, Some (pp_digest pp)}"
    "\<not> isPrimary (selfID s) s"
  shows "normalOk (install pp s)"
  unfolding normalOk_def
proof (intro conjI allI impI)
  show "certsWf (install pp s)" using install_certsWf normalOkD(1) assms(1) by blast
next
  fix idx p assume "ppOf (install pp s) idx = Some p"
  then show "fst idx \<le> view (install pp s)"
    using normalOkD(2) [OF assms(1)] assms(2) by (auto simp: install_facts split: if_splits)
next
  fix idx p assume a: "ppOf (install pp s) idx = Some p" "fst idx = view (install pp s)"
  show "gget (sm_seqMap (rb_store (install pp s))) (fst (snd idx)) = Some (snd (snd idx))"
  proof (cases "idx = (pp_view pp, pp_n pp, pp_digest pp)")
    case False
    then have "ppOf s idx = Some p" "fst idx = view s" using a by (simp_all add: install_facts)
    then have "gget (sm_seqMap (rb_store s)) (fst (snd idx)) = Some (snd (snd idx))" using normalOkD(3) [OF assms(1)] by blast
    then show ?thesis using assms(3) by (auto simp: install_facts)
  qed (simp add: install_facts)
next
  fix idx p assume "isPrimary (selfID (install pp s)) (install pp s)"
  then show "fst (snd idx) \<le> bm_seqNo (rb_batch (install pp s))"
    using assms(4) by (simp add: isPrimary_def selfID_def install_facts)
qed

lemma acceptPrePrepare_evolves:
  assumes "acceptPrePrepare E pp s = Some s'" "view s \<noteq> - 1"
  shows "\<exists>t. quiet s t \<and> evolves (install pp t) s'"
proof -
  define s1 where "s1 = (if pp_n pp > rb_lastExec s then stopT nullRequestTimer s else s)"
  define s3 where "s3 = install pp s1"
  define f where "f = (\<lambda>s4. let s5 = persistQSet (Some pp) s4 in
     if \<not> isPrimary (selfID s5) s5 \<and> \<not> mc_sentPrepare (fst (getCert (pp_view pp, pp_n pp, pp_digest pp) s5))
     then findNextPrepareBatch E (pp_view pp, pp_n pp, pp_digest pp) s5 else Some s5)"
  have eq: "acceptPrePrepare E pp s = Option.bind (if \<not> rin SkipInProgress s3 \<and> pp_n pp > rb_lastExec s3
               then map_option exitSyncState (softStartNewViewTimer E (timeoutOf requestTimer s3) False s3)
               else Some s3) f"
    unfolding acceptPrePrepare_def s1_def s3_def f_def install_def Let_def case_prod_unfold install_facts by (simp add: install_def)
  have q1: "quiet s s1" by (simp add: s1_def quiet_simps)
  have "\<exists>s4. quiet s3 s4 \<and> f s4 = Some s'"
    using assms(1) unfolding eq
    by (auto split: Option.bind_splits if_splits dest!: softStartNewViewTimer_quiet
        intro: quiet_trans [OF _ exitSyncState_quiet] quiet_refl)
  then obtain s4 where s4: "quiet s3 s4" "f s4 = Some s'" by blast
  define s5 where "s5 = persistQSet (Some pp) s4"
  have q5: "quiet s3 s5" using s4(1) by (simp add: s5_def persistQSet_def storeState_def quiet_simps)
  have "view s5 \<noteq> - 1" using quiet_view [OF q5] quiet_view [OF q1] assms(2) by (simp add: s3_def install_facts)
  then have "evolves s5 s'"
    using s4(2) findNextPrepareBatch_evolves by (auto simp: f_def s5_def [symmetric] Let_def split: if_splits)
  then have "evolves s3 s'" using q5 quiet_evolves evolves_trans by blast
  then show ?thesis using q1 s3_def by blast
qed

lemma quiet_normalOk: "quiet s t \<Longrightarrow> normalOk s \<Longrightarrow> normalOk t"
  using evolves_normalOk quiet_evolves by blast

lemma quiet_primary: "quiet s t \<Longrightarrow> isPrimary (selfID t) t = isPrimary (selfID s) s"
  by (simp add: quiet_simps isPrimary_def)

definition accepted :: "'p env \<Rightarrow> prePrepare \<Rightarrow> 'p replica \<Rightarrow> bool" where
  \<comment> \<open>what the code checks before it accepts a pre-prepare\<close>
  "accepted E pp s = (isPrePrepareLegal pp s \<and> gget (sm_seqMap (rb_store s)) (pp_n pp) \<in> {None, Some (pp_digest pp)} \<and>
     digestOk E pp = Some True)"

lemma recvPrePrepare_cases:
  assumes "recvPrePrepare E pp s = Some s'" "view s \<noteq> - 1"
  shows "evolves s s' \<or> accepted E pp s \<and> (\<exists>t. quiet s t \<and> evolves (install pp t) s')"
proof (cases "isPrePrepareLegal pp s")
  case False
  then have "evolves s s'"
    using assms(1) by (auto simp: recvPrePrepare_def split: if_splits intro: quiet_evolves)
  then show ?thesis ..
next
  case True
  show ?thesis
  proof (cases "gget (sm_seqMap (rb_store s)) (pp_n pp) \<in> {None, Some (pp_digest pp)}")
    case False
    then have "dropEvent (sendViewChange E False) s = Some s'" using assms(1) True by (simp add: recvPrePrepare_def)
    then show ?thesis using dropVC_evolves assms(2) by blast
  next
    case seq: True
    have eq: "recvPrePrepare E pp s = Option.bind (if beyondRange (pp_n pp) s then softStartHighWatermarkTimer E s else Some s)
       (\<lambda>s1. Option.bind (digestOk E pp) (\<lambda>ok. if ok then acceptPrePrepare E pp s1 else dropEvent (sendViewChange E False) s1))"
      unfolding recvPrePrepare_def using True seq by (simp only: not_True_eq_False if_False simp_thms)
    have "\<exists>s1 ok. quiet s s1 \<and> digestOk E pp = Some ok \<and>
        (if ok then acceptPrePrepare E pp s1 else dropEvent (sendViewChange E False) s1) = Some s'"
      using assms(1) unfolding eq
      by (auto split: Option.bind_splits if_splits dest!: softStartHighWatermarkTimer_quiet intro: quiet_refl)
    then obtain s1 ok where q: "quiet s s1" and ok: "digestOk E pp = Some ok"
      and r: "(if ok then acceptPrePrepare E pp s1 else dropEvent (sendViewChange E False) s1) = Some s'" by blast
    have v: "view s1 \<noteq> - 1" using quiet_view [OF q] assms(2) by simp
    show ?thesis
    proof (cases ok)
      case False
      then have "evolves s1 s'" using r dropVC_evolves v by simp
      then show ?thesis using q quiet_evolves evolves_trans by blast
    next
      case ok': True
      then have "acceptPrePrepare E pp s1 = Some s'" using r by simp
      from acceptPrePrepare_evolves [OF this v] obtain t where t: "quiet s1 t" "evolves (install pp t) s'" by blast
      then show ?thesis using True seq ok ok' q quiet_trans by (auto simp: accepted_def)
    qed
  qed
qed

lemma isPrePrepareLegalD:
  assumes "isPrePrepareLegal pp s"
  shows "pp_view pp = view s" "\<not> isPrimary (selfID s) s" "isPrimary (pp_replicaId pp) s" "pp_n pp > cc_H (rb_cc s)"
  using assms by (auto simp: isPrePrepareLegal_def inWV_def inV_def inW_def view_def split: if_splits)

lemma recvPrePrepare_normalOk:
  assumes "recvPrePrepare E pp s = Some s'" "normalOk s" "view s \<noteq> - 1"
  shows "normalOk s'"
  using recvPrePrepare_cases [OF assms(1,3)]
proof (elim disjE conjE exE)
  assume "evolves s s'"
  then show ?thesis using evolves_normalOk assms(2) by blast
next
  fix t assume a: "accepted E pp s" and q: "quiet s t" and e: "evolves (install pp t) s'"
  note l = isPrePrepareLegalD [of pp s]
  have "normalOk (install pp t)"
  proof (rule install_normalOk)
    show "normalOk t" using quiet_normalOk [OF q assms(2)] .
    show "pp_view pp = view t" using a l(1) quiet_view [OF q] by (simp add: accepted_def)
    show "gget (sm_seqMap (rb_store t)) (pp_n pp) \<in> {None, Some (pp_digest pp)}"
      using a q by (simp add: accepted_def quiet_simps)
    show "\<not> isPrimary (selfID t) t" using a l(2) quiet_primary [OF q] by (simp add: accepted_def)
  qed
  then show ?thesis using evolves_normalOk e by blast
qed

section \<open>The proposals of the primary\<close>

lemma gmodify_gmodify: "gmodify k g (gmodify k f m) = gmodify k (\<lambda>c. g (f c)) m"
  by (simp add: gmodify_def case_prod_unfold)

lemma cert_swap:
  "c\<lparr>mc_isConfig := b, mc_prePrepare := q\<rparr> = (c :: msgCert)\<lparr>mc_prePrepare := q, mc_isConfig := b\<rparr>"
  by (cases c) simp

lemma sendPrePrepare_parts:
  obtains pp isConfig where "pp_view pp = view s" "pp_n pp = n" "pp_digest pp = d"
    "quiet (rb_batch_update (bm_seqNo_update (\<lambda>_. n)) (modCert (view s, n, d) (\<lambda>c. c\<lparr>mc_isConfig := isConfig\<rparr>) (install pp s)))
       (sendPrePrepare n d b s)"
proof -
  define pp where "pp = \<lparr>pp_replicaId = selfID s, pp_view = view s, pp_n = n, pp_digest = d,
    pp_hashBatch = Some \<lparr>hb_hashes = rq_hashes b, hb_deDuplicate = [], hb_timestamp = rq_timestamp b,
                hb_proposer = rq_proposer b\<rparr>\<rparr>"
  have "quiet (rb_batch_update (bm_seqNo_update (\<lambda>_. n))
      (modCert (view s, n, d) (\<lambda>c. c\<lparr>mc_isConfig := risConfigBatch (rq_seqNo b) s\<rparr>) (install pp s))) (sendPrePrepare n d b s)"
    by (simp add: sendPrePrepare_def Let_def install_def quiet_simps modCert_def getCert_def pp_def persistQSet_def
        exitSyncState_def storeState_def gmodify_gmodify cert_swap broadcast_def split: option.split)
  then show thesis by (rule that [rotated 3]) (simp_all add: pp_def)
qed

lemma sendPrePrepare_normalOk:
  assumes "normalOk s" "isPrimary (selfID s) s" "bm_seqNo (rb_batch s) < n"
  shows "normalOk (sendPrePrepare n d b s) \<and> isPrimary (selfID (sendPrePrepare n d b s)) (sendPrePrepare n d b s)"
proof -
  obtain pp isConfig where f: "pp_view pp = view s" "pp_n pp = n" "pp_digest pp = d"
    and q': "quiet (rb_batch_update (bm_seqNo_update (\<lambda>_. n)) (modCert (view s, n, d) (\<lambda>c. c\<lparr>mc_isConfig := isConfig\<rparr>) (install pp s)))
       (sendPrePrepare n d b s)"
    by (rule sendPrePrepare_parts)
  define t where "t = rb_batch_update (bm_seqNo_update (\<lambda>_. n))
    (modCert (view s, n, d) (\<lambda>c. c\<lparr>mc_isConfig := isConfig\<rparr>) (install pp s))"
  have q: "quiet t (sendPrePrepare n d b s)" using q' by (simp add: t_def)
  have pp: "ppOf t i = (if i = (view s, n, d) then Some pp else ppOf s i)" for i
  proof -
    have "ppOf t i = ppOf (install pp s) i"
      by (cases "rcert i (install pp s)") (auto simp: ppOf_def t_def rcert_modCert rcert_def modCert_def gget_gmodify)
    then show ?thesis using install_facts(2) [of pp s i] unfolding f by simp
  qed
  have cc: "rb_cc t = rb_cc s" by (simp add: t_def modCert_def install_facts)
  have "evolves (install pp s) (modCert (view s, n, d) (\<lambda>c. c\<lparr>mc_isConfig := isConfig\<rparr>) (install pp s))"
    by (rule modCert_evolves) simp_all
  then have "certsWf t"
    using install_certsWf [OF normalOkD(1) [OF assms(1)], of pp]
    by (simp add: t_def evolves_def certsWf_def rcert_def)
  moreover have sq: "sm_seqMap (rb_store t) = gput n d (sm_seqMap (rb_store s))"
    by (simp add: t_def modCert_def install_facts f)
  moreover have bt: "bm_seqNo (rb_batch t) = n" by (simp add: t_def)
  moreover have vt: "view t = view s" using cc by (simp add: view_def)
  moreover have low: "fst (snd idx) < n" if "ppOf s idx = Some p" "fst idx = view s" for idx p
    using normalOkD(4) [OF assms(1,2) that] assms(3) by (rule order_le_less_trans)
  moreover have "fst idx \<le> view t" if "ppOf t idx = Some p" for idx p
    using that normalOkD(2) [OF assms(1)] vt by (auto simp: pp split: if_splits)
  moreover have "gget (sm_seqMap (rb_store t)) (fst (snd idx)) = Some (snd (snd idx))"
    if "ppOf t idx = Some p" "fst idx = view t" for idx p
    using that normalOkD(3) [OF assms(1), of idx p] low [of idx p] vt by (auto simp: pp sq split: if_splits)
  moreover have "fst (snd idx) \<le> bm_seqNo (rb_batch t)" if "ppOf t idx = Some p" "fst idx = view t" for idx p
    using that low [of idx p] vt bt by (auto simp: pp split: if_splits)
  ultimately have "normalOk t" unfolding normalOk_def by blast
  then show ?thesis
    using quiet_normalOk [OF q] quiet_primary [OF q] assms(2) cc by (simp add: isPrimary_def selfID_def)
qed

lemma inPrimaryTerm_room:
  assumes "inPrimaryTerm s"
  shows "bm_seqNo (rb_batch s) < bm_seqNo (rb_batch s) + 1"
proof -
  obtain k where "bm_seqNo (rb_batch s) < k" using assms by (auto simp: inPrimaryTerm_def split: if_splits)
  then have "bm_seqNo (rb_batch s) \<noteq> - 1" by auto
  then show ?thesis by (rule word_succ_less)
qed

lemma sendPrePrepare_primary:
  "isPrimary (selfID s) s \<Longrightarrow> isPrimary (selfID (sendPrePrepare n d b s)) (sendPrePrepare n d b s)"
  by (simp add: sendPrePrepare_def Let_def isPrimary_def selfID_def exitSyncState_def persistQSet_def storeState_def
      modCert_def getCert_def split: option.split)

text \<open>What the primary does with a batch keeps every property that quiet steps keep and that a proposal above
  the last sequence number keeps.\<close>

locale proposal_invariant =
  fixes P :: "'p replica \<Rightarrow> bool"
  assumes keep_quiet: "quiet s t \<Longrightarrow> P s \<Longrightarrow> P t"
    and keep_proposal: "P s \<Longrightarrow> isPrimary (selfID s) s \<Longrightarrow> bm_seqNo (rb_batch s) < n \<Longrightarrow> P (sendPrePrepare n d b s)"
begin

lemma keep_sendBatch:
  assumes "sendBatch E b s = Some (again, s')" "P s" "isPrimary (selfID s) s" "inPrimaryTerm s"
  shows "P s' \<and> isPrimary (selfID s') s'"
proof (cases "existedDigest (cc_view (rb_cc s)) (bm_seqNo (rb_batch s) + 1) (rq_hash b) s")
  case True
  then show ?thesis using assms by (simp add: sendBatch_def Let_def)
next
  case False
  define n where "n = bm_seqNo (rb_batch s) + 1"
  obtain b' s1 s2 where s1: "storeBatch (rq_hash b) b' s = Some s1"
    and s2: "softStartNewViewTimer E (timeoutOf requestTimer s1) False s1 = Some s2"
    and s': "s' = sendPrePrepare n (rq_hash b) b' s2"
    using assms(1) False by (auto simp: sendBatch_def Let_def n_def split: Option.bind_splits)
  have q: "quiet s s2" using storeBatch_quiet [OF s1] softStartNewViewTimer_quiet [OF s2] quiet_trans by blast
  have "bm_seqNo (rb_batch s2) < n" using q inPrimaryTerm_room [OF assms(4)] by (simp add: quiet_simps n_def)
  then show ?thesis
    using keep_proposal [of s2 n "rq_hash b" b'] keep_quiet [OF q assms(2)] quiet_primary [OF q] assms(3) s'
      sendPrePrepare_primary [of s2 n "rq_hash b" b']
    by simp
qed

lemma keep_step:
  assumes "maybeSendPrePrepareStep E ob s = Some (again, s')" "P s" "isPrimary (selfID s) s"
  shows "P s' \<and> isPrimary (selfID s') s'"
proof -
  have qOk: "P t \<and> isPrimary (selfID t) t" if "quiet s t" for t
    using keep_quiet [OF that assms(2)] quiet_primary [OF that] assms(3) by simp
  have c: "quiet s (rb_batch_update (bm_cacheBatch_update f) s)" for f by (simp add: quiet_simps)
  have hw: "quiet s s'" if "softStartHighWatermarkTimer E s = Some s'"
    using that by (rule softStartHighWatermarkTimer_quiet)
  have hw': "quiet s s'" if "softStartHighWatermarkTimer E (rb_batch_update (bm_cacheBatch_update f) s) = Some s'" for f
    using that softStartHighWatermarkTimer_quiet c quiet_trans by blast
  consider "quiet s s'" | b f where "sendBatch E b (rb_batch_update (bm_cacheBatch_update f) s) = Some (again, s')" "inPrimaryTerm s"
    | b where "sendBatch E b s = Some (again, s')" "inPrimaryTerm s"
    using assms(1)
    by (cases ob) (auto simp: maybeSendPrePrepareStep_def Let_def withPool_quiet split: if_splits list.splits dest!: hw hw')
  then show ?thesis
  proof cases
    case 1
    then show ?thesis by (rule qOk)
  next
    case (2 b f)
    have "inPrimaryTerm (rb_batch_update (bm_cacheBatch_update f) s)"
      using 2(2) by (simp add: inPrimaryTerm_def checkpointPeriod_def split: if_splits)
    then show ?thesis using keep_sendBatch [OF 2(1)] qOk [OF c [of f]] by blast
  next
    case (3 b)
    then show ?thesis using keep_sendBatch assms(2,3) by blast
  qed
qed

lemma keep_maybe:
  "maybeSendPrePrepare E ob s = Some s' \<Longrightarrow> P s \<Longrightarrow> isPrimary (selfID s) s \<Longrightarrow> P s' \<and> isPrimary (selfID s') s'"
proof (induction E ob s arbitrary: s' rule: maybeSendPrePrepare.induct)
  case (1 E ob s)
  obtain again s1 where st: "maybeSendPrePrepareStep E ob s = Some (again, s1)"
    using "1.prems"(1) by (subst (asm) maybeSendPrePrepare.simps) (auto split: option.splits)
  note ok = keep_step [OF st "1.prems"(2,3)]
  show ?case
  proof (cases again)
    case True
    then have "maybeSendPrePrepare E None s1 = Some s'"
      using "1.prems"(1) st by (subst (asm) maybeSendPrePrepare.simps) simp
    then show ?thesis using "1.IH" [OF st refl] True ok by simp
  next
    case False
    then have "s' = s1" using "1.prems"(1) st by (subst (asm) maybeSendPrePrepare.simps) simp
    then show ?thesis using ok by simp
  qed
qed

lemma keep_requestBatch:
  assumes "recvRequestBatch E ob s = Some s'" "P s"
  shows "P s'"
proof -
  obtain r where r: "ob = Some r" using assms(1) by (auto simp: recvRequestBatch_def split: option.splits)
  define b where "b = r\<lparr>rq_seqNo := bm_seqNo (rb_batch s) + 1, rq_proposer := selfID s\<rparr>"
  define s1 where "s1 = stopT nullRequestTimer (if risConfigBatch (rq_seqNo b) s then raOn InConfChange s else s)"
  have q: "quiet s s1" by (simp add: s1_def quiet_simps)
  define s2 where "s2 = rb_batch_update (bm_cacheBatch_update (\<lambda>l. l @ [b])) s1"
  have q2: "quiet s s2" using q by (simp add: quiet_simps s2_def)
  have eq: "recvRequestBatch E ob s =
      (if isPrimary (selfID s) s \<and> risNormal s \<and> \<not> ratomicIn InConfChange s \<and> inPrimaryTerm s
       then if bm_cacheBatch (rb_batch s1) \<noteq> [] then maybeSendPrePrepare E None s2 else maybeSendPrePrepare E (Some b) s1
       else Some (withPool (en_poolRestoreOne E (rq_hash r) (rb_pool s)) s))"
    unfolding recvRequestBatch_def r option.case Let_def s2_def s1_def b_def ..
  consider "s' = withPool (en_poolRestoreOne E (rq_hash r) (rb_pool s)) s"
    | "isPrimary (selfID s) s" "maybeSendPrePrepare E None s2 = Some s'"
    | "isPrimary (selfID s) s" "maybeSendPrePrepare E (Some b) s1 = Some s'"
    using assms(1) unfolding eq by (metis option.inject)
  then show ?thesis
  proof cases
    case 1
    show ?thesis unfolding 1 by (rule keep_quiet [OF withPool_quiet assms(2)])
  next
    case 2
    then show ?thesis
      using keep_maybe [OF 2(2)] keep_quiet [OF q2 assms(2)] quiet_primary [OF q2] by simp
  next
    case 3
    then show ?thesis
      using keep_maybe [OF 3(2)] keep_quiet [OF q assms(2)] quiet_primary [OF q] by simp
  qed
qed

end

interpretation certs: proposal_invariant normalOk
  by unfold_locales (blast intro: quiet_normalOk sendPrePrepare_normalOk [THEN conjunct1])+

section \<open>Runs of the normal case\<close>

inductive normalStep :: "'p env \<Rightarrow> 'p replica \<Rightarrow> 'p replica \<Rightarrow> bool" for E where
  prePrepare: "recvPrePrepare E pp s = Some t \<Longrightarrow> normalStep E s t"
| prepare: "recvPrepare E p s = Some t \<Longrightarrow> normalStep E s t"
| commit: "recvCommit E c s = Some t \<Longrightarrow> normalStep E s t"
| batch: "recvRequestBatch E ob s = Some t \<Longrightarrow> normalStep E s t"
| missing: "recvFetchMissingResponse E r s = Some (e, t) \<Longrightarrow> normalStep E s t"
| nullRequest: "recvNullRequest E i s = Some (e, t) \<Longrightarrow> normalStep E s t"

inductive_cases normalStepE: "normalStep E s t"

inductive normalReach :: "'p env \<Rightarrow> 'p replica \<Rightarrow> 'p replica \<Rightarrow> bool" for E s0 where
  start: "normalReach E s0 s0"
| step: "normalReach E s0 s \<Longrightarrow> view s \<noteq> - 1 \<Longrightarrow> normalStep E s t \<Longrightarrow> normalReach E s0 t"

lemma recvFetchMissingResponse_evolves:
  assumes "recvFetchMissingResponse E r s = Some (e, s')" "view s \<noteq> - 1"
  shows "evolves s s'"
proof -
  define idx where "idx = (fr_view r, fr_n r, fr_digest r)"
  define s1 where "s1 = snd (getCert idx s)"
  obtain ok q where pool: "en_poolReceiveMissing E (fr_digest r) (fr_requests r) (rb_pool s1) = (ok, q)" by fastforce
  have e1: "evolves s (withPool q s1)" unfolding s1_def using evolves_quiet [OF getCert_evolves withPool_quiet] .
  have v1: "view (withPool q s1) \<noteq> - 1" using assms(2) quiet_view [OF withPool_quiet [of s1 q]] by (simp add: s1_def)
  have "s' = s \<or> s' = s1 \<or> sendViewChange E False (withPool q s1) = Some (e, s')
      \<or> findNextPrepareBatch E idx (withPool q s1) = Some s'"
    using assms(1) pool
    by (auto simp: recvFetchMissingResponse_def idx_def s1_def Let_def case_prod_unfold split: if_splits bool.splits)
  then show ?thesis
  proof (elim disjE)
    assume "sendViewChange E False (withPool q s1) = Some (e, s')"
    from evolves_trans [OF e1 sendViewChange_evolves [OF this v1]] show ?thesis .
  next
    assume "findNextPrepareBatch E idx (withPool q s1) = Some s'"
    from evolves_trans [OF e1 findNextPrepareBatch_evolves [OF this v1]] show ?thesis .
  qed (simp_all add: s1_def getCert_evolves)
qed

lemma recvNullRequest_evolves:
  assumes "recvNullRequest E i s = Some (e, s')" "view s \<noteq> - 1"
  shows "evolves s s'"
proof -
  have fin: "quiet t u" if "trySyncState E t = Some t1" "nullReqTimerReset E t1 = Some u" for t t1 u :: "'a replica"
    using that by (auto simp: trySyncState_def nullReqTimerReset_def startTNew_def Let_def quiet_simps
        split: if_splits elim!: startTD)
  define s1 where "s1 = rb_vc_update (vm_nullRequestCounter_update (\<lambda>k. k + 1)) s"
  define s2 where "s2 = rb_vc_update (\<lambda>m. m\<lparr>vm_nullRequestCounter := 1, vm_lastNullRequestSeqNo := bm_seqNo (rb_batch s)\<rparr>) s"
  have up: "quiet s s1" "quiet s s2" by (simp_all add: s1_def s2_def quiet_simps)
  consider "quiet s s'" | "dropEvent (sendViewChange E False) s1 = Some s'"
    | t t1 where "t = s1 \<or> t = s2" "trySyncState E t = Some t1" "nullReqTimerReset E t1 = Some s'"
    using assms(1) up(1) unfolding recvNullRequest_def Let_def s1_def [symmetric] s2_def [symmetric]
    by (auto split: if_splits Option.bind_splits)
  then show ?thesis
  proof cases
    case 2
    have "evolves s1 s'" using dropVC_evolves [OF 2] assms(2) quiet_view [OF up(1)] by simp
    then show ?thesis using up quiet_evolves evolves_trans by blast
  next
    case (3 t t1)
    then show ?thesis using fin up quiet_trans quiet_evolves by blast
  qed (rule quiet_evolves)
qed

lemma normalStep_normalOk:
  assumes "normalStep E s t" "normalOk s" "view s \<noteq> - 1"
  shows "normalOk t"
  using assms(1)
proof cases
  case (prePrepare pp)
  then show ?thesis using recvPrePrepare_normalOk assms(2,3) by blast
next
  case (batch ob)
  then show ?thesis using certs.keep_requestBatch assms(2) by blast
qed (use assms(2,3) recvPrepare_evolves recvCommit_evolves recvFetchMissingResponse_evolves recvNullRequest_evolves
  evolves_normalOk in blast)+

lemma normalReach_normalOk:
  assumes "normalReach E s0 s" "sm_certStore (rb_store s0) = gempty"
  shows "normalOk s"
  using assms(1)
proof induction
  case start
  show ?case by (simp add: normalOk_def certsWf_def ppOf_def rcert_def assms(2))
next
  case (step s t)
  then show ?case using normalStep_normalOk by blast
qed

lemma committed_ppOf: "committed idx s \<Longrightarrow> \<exists>p. ppOf s idx = Some p"
  by (auto simp: committed_def prepared_def prePrepared_def ppOf_def split: option.splits prod.splits)

definition prepareSenders :: "msgCert \<Rightarrow> u64 set" where
  "prepareSenders c = pr_replicaId ` ran (gget (mc_prepare c))"

definition commitSenders :: "msgCert \<Rightarrow> u64 set" where
  "commitSenders c = cm_replicaId ` ran (gget (mc_commit c))"

lemma pr_ID_inj:
  "pr_ID p = pr_ID q \<Longrightarrow> pr_replicaId p = pr_replicaId q \<and> p = q"
  using msgKey_inj [of "pr_replicaId p" "pr_view p" "pr_n p" "pr_digest p" "pr_replicaId q" "pr_view q" "pr_n q" "pr_digest q"]
  by (cases p; cases q) (simp add: pr_ID_def)

lemma cm_ID_inj:
  "cm_ID p = cm_ID q \<Longrightarrow> cm_replicaId p = cm_replicaId q \<and> p = q"
  using msgKey_inj [of "cm_replicaId p" "cm_view p" "cm_n p" "cm_digest p" "cm_replicaId q" "cm_view q" "cm_n q" "cm_digest q"]
  by (cases p; cases q) (simp add: cm_ID_def)

lemma senders_count:
  assumes "gwf m" "\<And>k p. gget m k = Some p \<Longrightarrow> k = key (g p) \<and> r p = g p"
  shows "card (r ` ran (gget m)) = gsize m"
proof -
  have inj: "inj_on (\<lambda>k. g (the (gget m k))) (dom (gget m))"
  proof (rule inj_onI)
    fix k k' assume a: "k \<in> dom (gget m)" "k' \<in> dom (gget m)" "g (the (gget m k)) = g (the (gget m k'))"
    then obtain p p' where "gget m k = Some p" "gget m k' = Some p'" by auto
    then show "k = k'" using a(3) assms(2) [of k p] assms(2) [of k' p'] by simp
  qed
  have "r ` ran (gget m) = (\<lambda>k. g (the (gget m k))) ` dom (gget m)"
    using assms(2) by (force simp: ran_def dom_def image_iff)
  then show ?thesis using card_image [OF inj] gsize_card [OF assms(1)] by simp
qed

lemma certWf_senders:
  assumes "certWf (v, n, d) c"
  shows "card (prepareSenders c) = gsize (mc_prepare c)" "card (commitSenders c) = gsize (mc_commit c)"
proof -
  show "card (prepareSenders c) = gsize (mc_prepare c)"
    unfolding prepareSenders_def
    by (rule senders_count [where key = "\<lambda>i. msgKey i v n d" and g = pr_replicaId])
      (use assms in \<open>auto simp: certWf_def pr_ID_def\<close>)
  show "card (commitSenders c) = gsize (mc_commit c)"
    unfolding commitSenders_def
    by (rule senders_count [where key = "\<lambda>i. msgKey i v n d" and g = cm_replicaId])
      (use assms in \<open>auto simp: certWf_def cm_ID_def\<close>)
qed

text \<open>
  Counting the entries of a certificate counts replicas: a committed certificate of well-formed certificates
  holds the pre-prepare of its view, height and digest, prepares for exactly these under at least
  quorum minus one different replica identifiers, and commits under at least a quorum of them.
\<close>

lemma certsWf_committed:
  assumes "certsWf s" "committed (v, n, d) s"
  shows "\<exists>c p. rcert (v, n, d) s = Some c \<and> mc_prePrepare c = Some p \<and> (pp_view p, pp_n p, pp_digest p) = (v, n, d) \<and>
     int (card (prepareSenders c)) \<ge> int (commonCaseQuorum (rb_cc s)) - 1 \<and>
     card (commitSenders c) \<ge> commonCaseQuorum (rb_cc s) \<and>
     (\<forall>q \<in> ran (gget (mc_prepare c)). (pr_view q, pr_n q, pr_digest q) = (v, n, d)) \<and>
     (\<forall>q \<in> ran (gget (mc_commit c)). (cm_view q, cm_n q, cm_digest q) = (v, n, d))"
proof -
  obtain c p where c: "rcert (v, n, d) s = Some c" "mc_prePrepare c = Some p"
    using committed_ppOf [OF assms(2)] by (auto simp: ppOf_def bind_eq_Some_conv)
  have wf: "certWf (v, n, d) c"
    using assms(1) c(1) unfolding certsWf_def by blast
  have "int (gsize (mc_prepare c)) \<ge> int (commonCaseQuorum (rb_cc s)) - 1" "gsize (mc_commit c) \<ge> commonCaseQuorum (rb_cc s)"
    using assms(2) c(1) by (simp_all add: committed_def prepared_def)
  moreover have "(pp_view p, pp_n p, pp_digest p) = (v, n, d)"
    using wf c(2) unfolding certWf_def by blast
  moreover have "\<forall>q \<in> ran (gget (mc_prepare c)). (pr_view q, pr_n q, pr_digest q) = (v, n, d)"
    "\<forall>q \<in> ran (gget (mc_commit c)). (cm_view q, cm_n q, cm_digest q) = (v, n, d)"
    using wf unfolding certWf_def ran_def by blast+
  ultimately show ?thesis using c certWf_senders [OF wf] by auto
qed

text \<open>
  C10. A pre-prepare enters a certificate only when it comes in, names the primary of the current view
  and a height above the low watermark, contradicts no digest recorded for that height, and its digest
  is the digest of the transactions it lists.
\<close>

theorem accepted_prePrepare_valid:
  assumes "recvPrePrepare E pp s = Some s'" "normalOk s" "view s \<noteq> - 1"
    and "ppOf s' idx = Some q" "ppOf s idx \<noteq> Some q"
  shows "q = pp \<and> idx = (pp_view pp, pp_n pp, pp_digest pp) \<and> pp_view pp = view s \<and> isPrimary (pp_replicaId pp) s \<and>
     pp_n pp > cc_H (rb_cc s) \<and> gget (sm_seqMap (rb_store s)) (pp_n pp) \<in> {None, Some (pp_digest pp)} \<and>
     (\<exists>hb. pp_hashBatch pp = Some hb \<and> (if pp_digest pp = [] then hb_hashes hb = []
        else calculateMD5Hash E (hb_hashes hb) (hb_timestamp hb) = pp_digest pp))"
proof -
  note wf = normalOkD(1) [OF assms(2)]
  have "\<not> evolves s s'" using assms(4,5) evolvesD(2) [OF _ wf] by blast
  then obtain t where acc: "accepted E pp s" and q: "quiet s t" and e: "evolves (install pp t) s'"
    using recvPrePrepare_cases [OF assms(1,3)] by blast
  have "certsWf (install pp t)" by (rule install_certsWf) (use evolvesD(1) [OF quiet_evolves [OF q] wf] in simp)
  then have "ppOf (install pp t) idx = Some q" using evolvesD(2) [OF e] assms(4) by blast
  moreover have "ppOf t idx = ppOf s idx" using quiet_cert [OF q] by (simp add: ppOf_def)
  ultimately have "idx = (pp_view pp, pp_n pp, pp_digest pp) \<and> q = pp"
    using assms(5) by (auto simp: install_facts split: if_splits)
  moreover have "\<exists>hb. pp_hashBatch pp = Some hb \<and> (if pp_digest pp = [] then hb_hashes hb = []
      else calculateMD5Hash E (hb_hashes hb) (hb_timestamp hb) = pp_digest pp)"
    using acc by (auto simp: accepted_def digestOk_def split: option.splits if_splits)
  ultimately show ?thesis using acc isPrePrepareLegalD [of pp s] by (simp add: accepted_def)
qed

section \<open>Answers to fetching replicas\<close>

lemma ownPQC_own:
  assumes "ownPQC h s m = (qs, ps, cs)"
  shows "p \<in> set qs \<Longrightarrow> \<exists>idx c. (idx, c) \<in> set m \<and> fst idx = view s \<and> h < fst (snd idx) \<and> mc_prePrepare c = Some p \<and>
      pp_replicaId p = selfID s"
    "q \<in> set ps \<Longrightarrow> \<exists>idx c. (idx, c) \<in> set m \<and> fst idx = view s \<and> h < fst (snd idx) \<and> q \<in> snd ` set (mc_prepare c) \<and>
      pr_replicaId q = selfID s"
    "r \<in> set cs \<Longrightarrow> \<exists>idx c. (idx, c) \<in> set m \<and> fst idx = view s \<and> h < fst (snd idx) \<and> r \<in> snd ` set (mc_commit c) \<and>
      cm_replicaId r = selfID s"
  using assms by (fastforce simp: ownPQC_def Let_def view_def split: option.splits if_splits)+

text \<open>A replica that asks for the certificates above a height gets, from a validator whose window it is
  not beyond, exactly the messages the validator itself sent in its current view above that height:
  nothing of other replicas, nothing of other views, nothing at or below the height.
\<close>

lemma fetchPQC_own_messages:
  assumes "recvFetchPQCRequest E r h s = s'" "Unicast m to \<in> set (drop (List.length (rb_out s)) (rb_out s'))"
  shows "\<exists>f. m_payload m = MFetchPQCResponse f \<and> fp_replicaId f = selfID s \<and> h < cc_H (rb_cc s) + cc_L (rb_cc s) \<and>
    (\<forall>p \<in> set (fp_prepre f). pp_replicaId p = selfID s \<and> (\<exists>idx c. (idx, c) \<in> set (sm_certStore (rb_store s)) \<union>
        set (sm_committedCertCache (rb_store s)) \<and> fst idx = view s \<and> h < fst (snd idx) \<and> mc_prePrepare c = Some p)) \<and>
    (\<forall>p \<in> set (fp_pre f). pr_replicaId p = selfID s) \<and> (\<forall>c \<in> set (fp_cmt f). cm_replicaId c = selfID s)"
proof (cases "risValidator s \<and> h < cc_H (rb_cc s) + cc_L (rb_cc s)")
  case False
  then have "s' = s" using assms(1) by (auto simp: recvFetchPQCRequest_def)
  then show ?thesis using assms(2) by simp
next
  case True
  obtain q1 p1 c1 where o1: "ownPQC h s (sm_certStore (rb_store s)) = (q1, p1, c1)" by (cases "ownPQC h s (sm_certStore (rb_store s))")
  obtain q2 p2 c2 where o2: "ownPQC h s (sm_committedCertCache (rb_store s)) = (q2, p2, c2)"
    by (cases "ownPQC h s (sm_committedCertCache (rb_store s))")
  define f where "f = \<lparr>fp_replicaId = selfID s, fp_prepre = q1 @ q2, fp_pre = p1 @ p2, fp_cmt = c1 @ c2\<rparr>"
  have "s' = unicast E (MFetchPQCResponse f) r s" using assms(1) True by (auto simp: recvFetchPQCRequest_def o1 o2 f_def split: if_splits)
  then have m: "m_payload m = MFetchPQCResponse f"
    using assms(2) by (auto simp: unicast_def unicastByP2PID_def emit_def mkMsg_def split: option.splits prod.splits)
  note own = ownPQC_own [OF o1] ownPQC_own [OF o2]
  have "pp_replicaId p = selfID s \<and> (\<exists>idx c. (idx, c) \<in> set (sm_certStore (rb_store s)) \<union>
        set (sm_committedCertCache (rb_store s)) \<and> fst idx = view s \<and> h < fst (snd idx) \<and> mc_prePrepare c = Some p)"
    if "p \<in> set (fp_prepre f)" for p
    using that own(1,4) [of p] unfolding f_def by (simp del: split_paired_Ex) blast
  moreover have "pr_replicaId p = selfID s" if "p \<in> set (fp_pre f)" for p
    using that own(2,5) [of p] unfolding f_def by (simp del: split_paired_Ex) blast
  moreover have "cm_replicaId c = selfID s" if "c \<in> set (fp_cmt f)" for c
    using that own(3,6) [of c] unfolding f_def by (simp del: split_paired_Ex) blast
  ultimately show ?thesis using m True unfolding f_def by simp
qed

text \<open>
  With a positive set size the loop of \<open>processOutOfDateReqs\<close> ends, and the sets it broadcasts
  are non-empty, no larger than the set size, and together the requests, each once and in order.
\<close>

lemma requestSets_partition:
  assumes "0 < n"
  shows "\<exists>sets. requestSets n xs = Some sets \<and> concat sets = xs \<and> (\<forall>r \<in> set sets. r \<noteq> [] \<and> List.length r \<le> n)"
  using assms
proof (induction n xs rule: requestSets.induct)
  case (1 n xs)
  show ?case
  proof (cases "xs = [] \<or> List.length xs \<le> n")
    case True
    then show ?thesis by (subst requestSets.simps) auto
  next
    case False
    then obtain sets where s: "requestSets n (drop n xs) = Some sets" "concat sets = drop n xs"
      "\<forall>r \<in> set sets. r \<noteq> [] \<and> List.length r \<le> n"
      using 1 by auto
    then show ?thesis using False 1(2) by (subst requestSets.simps) auto
  qed
qed

section \<open>The properties on the sample\<close>

definition sampleNull :: prePrepare where
  "sampleNull = samplePrePrepare\<lparr>pp_digest := []\<rparr>"

definition samplePrepare :: "u64 \<Rightarrow> prepare" where
  "samplePrepare i = \<lparr>pr_replicaId = i, pr_view = 1, pr_n = 1, pr_digest = []\<rparr>"

definition sampleCommit :: "u64 \<Rightarrow> commit" where
  "sampleCommit i = \<lparr>cm_replicaId = i, cm_view = 1, cm_n = 1, cm_digest = []\<rparr>"

lemma sampleRun_first:
  "map_option (\<lambda>s. (view s, ppOf s (1, 1, []))) (recvPrePrepare sampleEnv sampleNull sampleReplica) = Some (1, Some sampleNull)"
  by code_simp

theorem accepted_prePrepare_valid_witness:
  "\<exists>s'. recvPrePrepare sampleEnv sampleNull sampleReplica = Some s' \<and> ppOf s' (1, 1, []) = Some sampleNull \<and>
     (\<exists>hb. pp_hashBatch sampleNull = Some hb \<and> hb_hashes hb = [])"
proof -
  obtain s' where s': "recvPrePrepare sampleEnv sampleNull sampleReplica = Some s'" "ppOf s' (1, 1, []) = Some sampleNull"
    using sampleRun_first by auto
  have "normalOk sampleReplica"
    by (rule normalReach_normalOk [where E = sampleEnv, OF normalReach.start]) (simp add: newStoreMgr_def)
  moreover have "ppOf sampleReplica (1, 1, []) \<noteq> Some sampleNull"
    by (simp add: ppOf_def rcert_def newStoreMgr_def)
  moreover have "pp_digest sampleNull = []" by (simp add: sampleNull_def)
  ultimately show ?thesis using accepted_prePrepare_valid [OF s'(1) _ _ s'(2)] s' by (auto simp: view_def)
qed

end
