(* ===== verification/Agreement.thy ===== *)
theory Agreement
  imports NormalSafety
begin

text \<open>
  Agreement of the validators in one view. A replica commits at most one digest for a height of a view
  (what it broadcasts, over whole runs of the normal case); two commit quorums share a replica that
  follows the code; so two replicas that follow the code never hold committed certificates of one
  view and height with different digests, whatever the at most \<open>F\<close> other validators send.
\<close>

section \<open>A replica sends one commit for a height of a view\<close>

definition commitSettled :: "'p replica \<Rightarrow> commit \<Rightarrow> bool" where
  "commitSettled s c = (cm_replicaId c = selfID s \<and> cm_view c \<le> view s \<and>
     (cm_view c = view s \<longrightarrow> gget (sm_seqMap (rb_store s)) (cm_n c) = Some (cm_digest c) \<and>
        (isPrimary (selfID s) s \<longrightarrow> cm_n c \<le> bm_seqNo (rb_batch s))))"

definition sentOk :: "'p replica \<Rightarrow> bool" where
  "sentOk s = ((\<forall>c \<in> set (sentCommits s). commitSettled s c) \<and>
     (\<forall>c \<in> set (sentCommits s). \<forall>c' \<in> set (sentCommits s).
        cm_view c = cm_view c' \<longrightarrow> cm_n c = cm_n c' \<longrightarrow> cm_digest c = cm_digest c'))"

lemma sentOkD:
  assumes "sentOk s" "c \<in> set (sentCommits s)"
  shows "commitSettled s c" "c' \<in> set (sentCommits s) \<Longrightarrow> cm_view c = cm_view c' \<Longrightarrow> cm_n c = cm_n c' \<Longrightarrow> cm_digest c = cm_digest c'"
  using assms unfolding sentOk_def by blast+

lemma backedCommit_settled:
  assumes "normalOk s" "backedCommit s c"
  shows "commitSettled s c"
proof -
  obtain p where p: "ppOf s (cm_view c, cm_n c, cm_digest c) = Some p" and v: "cm_view c = view s" "cm_replicaId c = selfID s"
    using assms(2) by (auto simp: backedCommit_def)
  show ?thesis
    using normalOkD(3) [OF assms(1) p] normalOkD(4) [OF assms(1) _ p] v by (simp add: commitSettled_def)
qed

lemma settled_same:
  assumes "commitSettled s c" "commitSettled s c'" "cm_view c = view s" "cm_view c' = view s" "cm_n c = cm_n c'"
  shows "cm_digest c = cm_digest c'"
  using assms by (simp add: commitSettled_def)

lemma settled_later:
  assumes "commitSettled s c" "sameFrame s t \<or> view s < view t" "selfID t = selfID s"
  shows "commitSettled t c"
  using assms by (auto simp: commitSettled_def sameFrame_def isPrimary_def)

lemma sentOk_extend:
  assumes "sentOk s" "sentCommits t = sentCommits s @ cs"
    and "\<And>c. c \<in> set cs \<Longrightarrow> commitSettled s c \<and> cm_view c = view s"
    and "\<And>c. commitSettled s c \<Longrightarrow> c \<in> set (sentCommits t) \<Longrightarrow> commitSettled t c"
  shows "sentOk t"
proof -
  have all: "commitSettled s c" if "c \<in> set (sentCommits t)" for c
    using that assms(2,3) sentOkD(1) [OF assms(1)] by auto
  have "cm_digest c = cm_digest c'"
    if c: "c \<in> set (sentCommits t)" "c' \<in> set (sentCommits t)" and eq: "cm_view c = cm_view c'" "cm_n c = cm_n c'" for c c'
  proof (cases "c \<in> set (sentCommits s) \<and> c' \<in> set (sentCommits s)")
    case True
    then show ?thesis using sentOkD(2) [OF assms(1)] eq by blast
  next
    case False
    then have "cm_view c = view s" using c assms(2,3) eq by auto
    then show ?thesis using settled_same [OF all [OF c(1)] all [OF c(2)]] eq by simp
  qed
  then show ?thesis using all assms(4) unfolding sentOk_def by blast
qed

lemma sentOk_evolves:
  assumes "normalOk s" "sentOk s" "evolves s t"
  shows "sentOk t"
proof -
  obtain cs where cs: "sentCommits t = sentCommits s @ cs" "\<forall>c \<in> set cs. backedCommit s c"
    using evolvesD(5) [OF assms(3,1)] by blast
  show ?thesis
  proof (rule sentOk_extend [OF assms(2) cs(1)])
    fix c assume "c \<in> set cs"
    then show "commitSettled s c \<and> cm_view c = view s"
      using backedCommit_settled [OF assms(1)] cs(2) by (auto simp: backedCommit_def)
  qed (use settled_later evolvesD(3,4) [OF assms(3)] in blast)
qed

text \<open>A digest recorded for a height that had none, or the same, leaves the sent commits settled.\<close>

lemma sentOk_record:
  assumes "sentOk s" "sentCommits t = sentCommits s" "view t = view s" "selfID t = selfID s"
    and "cc_primaryID (rb_cc t) = cc_primaryID (rb_cc s)"
    and "sm_seqMap (rb_store t) = gput n d (sm_seqMap (rb_store s))"
    and "gget (sm_seqMap (rb_store s)) n \<in> {None, Some d} \<or> isPrimary (selfID s) s \<and> bm_seqNo (rb_batch s) < n"
    and "bm_seqNo (rb_batch s) \<le> bm_seqNo (rb_batch t)"
  shows "sentOk t"
proof (rule sentOk_extend [where cs = "[]", OF assms(1)])
  fix c assume c: "commitSettled s c"
  have "cm_digest c = d" if "cm_view c = view s" "cm_n c = n"
    using that c assms(7) by (auto simp: commitSettled_def)
  then show "commitSettled t c"
    using c assms(3-6,8) by (auto simp: commitSettled_def isPrimary_def)
qed (use assms(2) in simp_all)

lemma install_sentOk:
  assumes "sentOk s" "gget (sm_seqMap (rb_store s)) (pp_n pp) \<in> {None, Some (pp_digest pp)}"
  shows "sentOk (install pp s)"
proof (rule sentOk_record [OF assms(1), where n = "pp_n pp" and d = "pp_digest pp"])
  show "sentCommits (install pp s) = sentCommits s"
    by (rule sentCommits_cong) (simp add: install_def)
qed (use assms(2) in \<open>simp_all add: install_facts selfID_def\<close>)

lemma sendPrePrepare_sentOk:
  assumes "sentOk s" "isPrimary (selfID s) s" "bm_seqNo (rb_batch s) < n"
  shows "sentOk (sendPrePrepare n d b s)"
proof (rule sentOk_record [OF assms(1), where n = n and d = d])
  have cs: "sentCommits (if b then broadcast p u else u) = sentCommits u" if "\<forall>c. p \<noteq> MCommit c" for b p and u :: "'a replica"
    using that by (auto split: payload.split)
  show "sentCommits (sendPrePrepare n d b s) = sentCommits s"
    by (simp add: sendPrePrepare_def Let_def exitSyncState_def persistQSet_def)
qed (use assms(2,3) in \<open>simp_all add: sendPrePrepare_def Let_def exitSyncState_def persistQSet_def storeState_def view_def
  selfID_def modCert_def getCert_def less_imp_le split: option.split\<close>)

interpretation sent: proposal_invariant "\<lambda>s. normalOk s \<and> sentOk s"
  by unfold_locales (use quiet_normalOk sentOk_evolves quiet_evolves sendPrePrepare_normalOk sendPrePrepare_sentOk in blast)+

section \<open>Runs of the normal case\<close>

lemma recvPrePrepare_sentOk:
  assumes "recvPrePrepare E pp s = Some s'" "normalOk s" "sentOk s" "view s \<noteq> - 1"
  shows "sentOk s'"
  using recvPrePrepare_cases [OF assms(1,4)]
proof (elim disjE conjE exE)
  fix t assume acc: "accepted E pp s" and q: "quiet s t" and e: "evolves (install pp t) s'"
  have seq: "gget (sm_seqMap (rb_store t)) (pp_n pp) \<in> {None, Some (pp_digest pp)}" "pp_view pp = view t" "\<not> isPrimary (selfID t) t"
    using acc q isPrePrepareLegalD [of pp s] quiet_primary [OF q] by (simp_all add: accepted_def quiet_def sameFrame_def)
  have t: "normalOk t" "sentOk t" using sent.keep_quiet [OF q] assms(2,3) by blast+
  show ?thesis
    using sentOk_evolves [OF install_normalOk [OF t(1) seq(2,1,3)] install_sentOk [OF t(2) seq(1)] e] .
qed (rule sentOk_evolves [OF assms(2,3)])

lemma normalStep_sentOk:
  assumes "normalStep E s t" "normalOk s" "sentOk s" "view s \<noteq> - 1"
  shows "sentOk t"
  using assms(1)
proof cases
  case (prePrepare pp)
  then show ?thesis using recvPrePrepare_sentOk assms(2-4) by blast
next
  case (batch ob)
  then show ?thesis using sent.keep_requestBatch assms(2,3) by blast
qed (use assms(2-4) recvPrepare_evolves recvCommit_evolves recvFetchMissingResponse_evolves recvNullRequest_evolves
  sentOk_evolves in blast)+

lemma normalReach_sentOk:
  assumes "normalReach E s0 s" "sm_certStore (rb_store s0) = gempty" "sentCommits s0 = []"
  shows "sentOk s"
  using assms(1)
proof induction
  case start
  show ?case by (simp add: sentOk_def assms(3))
next
  case (step s t)
  then show ?case using normalStep_sentOk normalReach_normalOk [OF step(1) assms(2)] by blast
qed

section \<open>A cluster\<close>

definition cluster :: "(u64 \<Rightarrow> 'p env) \<Rightarrow> u64 set \<Rightarrow> u64 set \<Rightarrow> (u64 \<Rightarrow> 'p replica) \<Rightarrow> (u64 \<Rightarrow> 'p replica) \<Rightarrow> bool" where
  \<comment> \<open>the validators \<open>V\<close>, of which at least all but \<open>F\<close> run the code: these, \<open>H\<close>, went from states without
     certificates and sent commits, \<open>S0\<close>, through the normal case to \<open>S\<close>\<close>
  "cluster E V H S0 S = (finite V \<and> H \<subseteq> V \<and> (\<forall>i \<in> H.
     normalReach (E i) (S0 i) (S i) \<and> sm_certStore (rb_store (S0 i)) = gempty \<and> sentCommits (S0 i) = [] \<and>
     derivedOk (rb_cc (S i)) \<and> cc_N (rb_cc (S i)) = card V \<and> card (V - H) \<le> cc_F (rb_cc (S i))))"

definition authentic :: "u64 set \<Rightarrow> u64 set \<Rightarrow> (u64 \<Rightarrow> 'p replica) \<Rightarrow> bool" where
  \<comment> \<open>the commits the replicas hold name validators, and one that names a replica of \<open>H\<close> was sent by it;
     the code leaves this to the network: \<open>recvCommit\<close> does not compare the identifier in a commit with its sender\<close>
  "authentic V H S = (\<forall>i \<in> H. \<forall>x \<in> set (sm_certStore (rb_store (S i))). \<forall>y \<in> set (mc_commit (snd x)).
     cm_replicaId (snd y) \<in> V \<and> (cm_replicaId (snd y) \<in> H \<longrightarrow> snd y \<in> set (sentCommits (S (cm_replicaId (snd y))))))"

lemma authenticD:
  assumes "authentic V H S" "i \<in> H" "rcert idx (S i) = Some c" "gget (mc_commit c) k = Some m"
  shows "cm_replicaId m \<in> V" "cm_replicaId m \<in> H \<Longrightarrow> m \<in> set (sentCommits (S (cm_replicaId m)))"
proof -
  have "(idx, c) \<in> set (sm_certStore (rb_store (S i)))" "(k, m) \<in> set (mc_commit c)"
    using assms(3,4) by (simp_all add: rcert_def gget_def map_of_SomeD)
  then show "cm_replicaId m \<in> V" "cm_replicaId m \<in> H \<Longrightarrow> m \<in> set (sentCommits (S (cm_replicaId m)))"
    using assms(1,2) unfolding authentic_def by fastforce+
qed

lemma committed_senders:
  assumes "cluster E V H S0 S" "authentic V H S" "i \<in> H" "committed (v, n, d) (S i)"
  shows "\<exists>A \<subseteq> V. commonCaseQuorum (rb_cc (S i)) \<le> card A \<and>
     (\<forall>j \<in> A \<inter> H. \<exists>m \<in> set (sentCommits (S j)). (cm_view m, cm_n m, cm_digest m) = (v, n, d))"
proof -
  have ok: "normalOk (S i)"
    using assms(1,3) normalReach_normalOk [of "E i" "S0 i" "S i"] by (simp add: cluster_def)
  obtain c where c: "rcert (v, n, d) (S i) = Some c" and q: "commonCaseQuorum (rb_cc (S i)) \<le> gsize (mc_commit c)"
    using assms(4) by (auto simp: committed_def prepared_def split: option.splits)
  have wf: "certWf (v, n, d) c" using normalOkD(1) [OF ok] c unfolding certsWf_def by blast
  have "commitSenders c \<subseteq> V"
    using authenticD(1) [OF assms(2,3) c] by (auto simp: commitSenders_def ran_def)
  moreover have "\<exists>m \<in> set (sentCommits (S j)). (cm_view m, cm_n m, cm_digest m) = (v, n, d)" if j: "j \<in> commitSenders c \<inter> H" for j
  proof -
    obtain k m where m: "gget (mc_commit c) k = Some m" "j = cm_replicaId m"
      using j by (auto simp: commitSenders_def ran_def)
    then have "(cm_view m, cm_n m, cm_digest m) = (v, n, d)" using wf unfolding certWf_def by blast
    then show ?thesis using authenticD(2) [OF assms(2,3) c m(1)] j m(2) by blast
  qed
  ultimately show ?thesis using q certWf_senders(2) [OF wf] by (intro exI [of _ "commitSenders c"]) simp
qed

text \<open>
  C1. Agreement in a view: of the validators at most \<open>F\<close> may send anything; the others follow the normal
  case, in any order of messages, from states without certificates, and no commit in their names is forged.
  Then no two of them hold committed certificates of one view and height with different digests.
\<close>

theorem agreement_in_view:
  assumes "cluster E V H S0 S" "authentic V H S"
    and "i \<in> H" "committed (v, n, d) (S i)" "j \<in> H" "committed (v, n, d') (S j)"
  shows "d = d'"
proof -
  obtain A where A: "A \<subseteq> V" "commonCaseQuorum (rb_cc (S i)) \<le> card A"
    "\<forall>j \<in> A \<inter> H. \<exists>m \<in> set (sentCommits (S j)). (cm_view m, cm_n m, cm_digest m) = (v, n, d)"
    using committed_senders [OF assms(1-4)] by blast
  obtain B where B: "B \<subseteq> V" "commonCaseQuorum (rb_cc (S j)) \<le> card B"
    "\<forall>j \<in> B \<inter> H. \<exists>m \<in> set (sentCommits (S j)). (cm_view m, cm_n m, cm_digest m) = (v, n, d')"
    using committed_senders [OF assms(1,2,5,6)] by blast
  have cl: "finite V" "card V = cc_N (rb_cc (S i))" "card V = cc_N (rb_cc (S j))" "derivedOk (rb_cc (S i))"
    "derivedOk (rb_cc (S j))" "card (V - H) \<le> cc_F (rb_cc (S i))"
    using assms(1,3,5) by (auto simp: cluster_def)
  have "commonCaseQuorum (rb_cc (S i)) = commonCaseQuorum (rb_cc (S j))"
    using cl by (simp add: derivedOk_def commonCaseQuorum_def)
  then obtain k where "k \<in> A" "k \<in> B" "k \<notin> V - H"
    using ccq.common_correct [OF cl(4,1,2) A(1) B(1) A(2) _ cl(6)] B(2) cl(1) by auto
  then have k: "k \<in> H" "k \<in> A \<inter> H" "k \<in> B \<inter> H" using A(1) by blast+
  obtain m m' where m: "m \<in> set (sentCommits (S k))" "(cm_view m, cm_n m, cm_digest m) = (v, n, d)"
    "m' \<in> set (sentCommits (S k))" "(cm_view m', cm_n m', cm_digest m') = (v, n, d')"
    using A(3) B(3) k(2,3) by blast
  have "sentOk (S k)" using assms(1) k(1) normalReach_sentOk [of "E k" "S0 k" "S k"] by (simp add: cluster_def)
  then have "cm_digest m = cm_digest m'" using sentOkD(2) [OF _ m(1,3)] m(2,4) by simp
  then show ?thesis using m(2,4) by simp
qed

section \<open>A cluster of four with a faulty primary\<close>

definition sampleNode :: "u64 \<Rightarrow> unit replica" where
  "sampleNode i = sampleReplica\<lparr>rb_cc := (rb_cc sampleReplica)\<lparr>cc_selfID := i\<rparr>\<rparr>"

definition inViewOne :: "unit replica \<Rightarrow> unit replica option" where
  "inViewOne s = (if view s = 1 then Some s else None)"

definition sampleNodeRun :: "u64 \<Rightarrow> u64 \<Rightarrow> unit replica option" where
  "sampleNodeRun i j = do { s1 \<leftarrow> recvPrePrepare sampleEnv sampleNull (sampleNode i); s1 \<leftarrow> inViewOne s1;
     s2 \<leftarrow> recvPrepare sampleEnv (samplePrepare j) s1; s2 \<leftarrow> inViewOne s2;
     s3 \<leftarrow> recvCommit sampleEnv (sampleCommit 2) s2; s3 \<leftarrow> inViewOne s3;
     recvCommit sampleEnv (sampleCommit j) s3 }"

definition sampleNodeEnd :: "unit replica \<Rightarrow> u64 \<Rightarrow> u64 \<Rightarrow> bool" where
  "sampleNodeEnd s i j = (committed (1, 1, []) s \<and> sentCommits s = [sampleCommit i] \<and> derivedOk (rb_cc s) \<and>
     cc_N (rb_cc s) = 4 \<and> cc_F (rb_cc s) = 1 \<and>
     map (\<lambda>(k, c). map snd (mc_commit c)) (sm_certStore (rb_store s)) = [[sampleCommit i, sampleCommit 2, sampleCommit j]])"

lemma sampleNodeRun_end1: "map_option (\<lambda>s. sampleNodeEnd s 1 3) (sampleNodeRun 1 3) = Some True"
  by code_simp

lemma sampleNodeRun_end3: "map_option (\<lambda>s. sampleNodeEnd s 3 1) (sampleNodeRun 3 1) = Some True"
  by code_simp

lemma sampleNodeRun_end4: "map_option (\<lambda>s. sampleNodeEnd s 4 1) (sampleNodeRun 4 1) = Some True"
  by code_simp

lemma sampleNode_reach:
  assumes "map_option (\<lambda>s. sampleNodeEnd s i j) (sampleNodeRun i j) = Some True"
  shows "\<exists>s. normalReach sampleEnv (sampleNode i) s \<and> sampleNodeEnd s i j"
proof -
  obtain s1 s2 s3 s where s1: "recvPrePrepare sampleEnv sampleNull (sampleNode i) = Some s1" "view s1 = 1"
    and s2: "recvPrepare sampleEnv (samplePrepare j) s1 = Some s2" "view s2 = 1"
    and s3: "recvCommit sampleEnv (sampleCommit 2) s2 = Some s3" "view s3 = 1"
    and s: "recvCommit sampleEnv (sampleCommit j) s3 = Some s" "sampleNodeEnd s i j"
    using assms by (auto simp: sampleNodeRun_def inViewOne_def bind_eq_Some_conv split: if_splits)
  have "view (sampleNode i) \<noteq> - 1" by (simp add: sampleNode_def view_def)
  then have "normalReach sampleEnv (sampleNode i) s1"
    using normalReach.step [OF normalReach.start _ normalStep.prePrepare [OF s1(1)]] by blast
  then have "normalReach sampleEnv (sampleNode i) s2"
    by (rule normalReach.step [OF _ _ normalStep.prepare [OF s2(1)]]) (simp add: s1)
  then have "normalReach sampleEnv (sampleNode i) s3"
    by (rule normalReach.step [OF _ _ normalStep.commit [OF s3(1)]]) (simp add: s2)
  then have "normalReach sampleEnv (sampleNode i) s"
    by (rule normalReach.step [OF _ _ normalStep.commit [OF s(1)]]) (simp add: s3)
  then show ?thesis using s(2) by blast
qed

lemma sampleNode_start [simp]:
  "sm_certStore (rb_store (sampleNode i)) = gempty" "sentCommits (sampleNode i) = []"
  by (simp_all add: sampleNode_def newStoreMgr_def sentCommits_def sampleReplica_def List.map_filter_def)

theorem agreement_in_view_witness:
  "\<exists>S. cluster (\<lambda>_. sampleEnv) {1, 2, 3, 4} {1, 3, 4} sampleNode S \<and> authentic {1, 2, 3, 4} {1, 3, 4} S \<and>
     committed (1, 1, []) (S 1) \<and> committed (1, 1, []) (S 3) \<and> (\<forall>d. committed (1, 1, d) (S 4) \<longrightarrow> d = [])"
proof -
  obtain s1 s3 s4 where s: "normalReach sampleEnv (sampleNode 1) s1" "sampleNodeEnd s1 1 3"
    "normalReach sampleEnv (sampleNode 3) s3" "sampleNodeEnd s3 3 1"
    "normalReach sampleEnv (sampleNode 4) s4" "sampleNodeEnd s4 4 1"
    using sampleNodeRun_end1 [THEN sampleNode_reach] sampleNodeRun_end3 [THEN sampleNode_reach]
      sampleNodeRun_end4 [THEN sampleNode_reach] by blast
  define S where "S = (\<lambda>i :: u64. if i = 1 then s1 else if i = 3 then s3 else s4)"
  have S: "S 1 = s1" "S 3 = s3" "S 4 = s4" by (simp_all add: S_def)
  have "{1, 2, 3, 4} - {1, 3, 4} = {2 :: u64}" by auto
  then have "cluster (\<lambda>_. sampleEnv) {1, 2, 3, 4} {1, 3, 4} sampleNode S"
    using s by (simp add: cluster_def S sampleNodeEnd_def)
  moreover have "authentic {1, 2, 3, 4} {1, 3, 4} S"
    using s(2,4,6) by (auto simp: authentic_def S sampleNodeEnd_def sampleCommit_def case_prod_unfold)
  moreover have "committed (1, 1, []) (S 1)" "committed (1, 1, []) (S 3)"
    using s by (simp_all add: S sampleNodeEnd_def)
  moreover have "d = []" if "committed (1, 1, d) (S 4)" for d
    using agreement_in_view [where i = 4 and j = 1 and S = S, OF calculation(1,2) _ that _ calculation(3)] by simp
  ultimately show ?thesis by blast
qed

end
