(* ===== verification/Watermark.thy ===== *)
theory Watermark
  imports Normal
begin

text \<open>
  Signed checkpoints, the low watermark and the start of a state transfer (\<open>helper.go\<close>,
  \<open>rbft_impl.go\<close>): generating a checkpoint, \<open>moveWatermarks\<close>, \<open>updateHighStateTarget\<close> and
  \<open>tryStateTransfer\<close>. Moving the watermark and starting a transfer both drop the certificates up to a
  height. \<open>delete\<close> inside a \<open>range\<close> over the same map is a filter.
\<close>

section \<open>Signed checkpoints\<close>

definition signCheckpoint :: "'p env \<Rightarrow> checkpoint option \<Rightarrow> signature option" where
  "signCheckpoint E k = en_sign E (hashOf E k)"

fun withoutViewChange :: "signedCheckpoint \<Rightarrow> signedCheckpoint option" where
  \<comment> \<open>\<open>ckp.Checkpoint.ViewChange = nil\<close> on a clone\<close>
  "withoutViewChange (SignedCheckpoint None a sig) = None"
| "withoutViewChange (SignedCheckpoint (Some (Checkpoint e st u vc)) a sig) =
     Some (SignedCheckpoint (Some (Checkpoint e st u None)) a sig)"

definition checkpointViewChange ::
  "'p env \<Rightarrow> bool \<Rightarrow> 'p replica \<Rightarrow> (viewChange option \<times> 'p replica) option" where
  \<comment> \<open>the view change a checkpoint carries under the weighted random election; \<open>None\<close> inside is a failed
     signature\<close>
  "checkpointViewChange E after s = do {
     cset \<leftarrow> those (map (withoutViewChange \<circ> snd) (sm_localCheckpoints (rb_store s)));
     let v = (if after then cc_view (rb_cc s) + 1 else cc_view (rb_cc s));
     rec \<leftarrow> getUnstableValidatorDynamicInfoMap E v True s;
     nrec \<leftarrow> getUnstableValidatorDynamicInfoMap E v False s;
     let b = VcBasis (selfID s) v (cc_H (rb_cc s)) [] [] cset nrec rec;
     (case signViewChange E b s of
        (None, s1) \<Rightarrow> Some (None, s1)
      | (Some sig, s1) \<Rightarrow> Some (Some (ViewChange (Some b) sig 0 True), s1)) }"

definition generateSignedCheckpoint ::
  "'p env \<Rightarrow> serviceState \<Rightarrow> string \<Rightarrow> bool \<Rightarrow> bool \<Rightarrow> 'p replica \<Rightarrow> (signedCheckpoint option \<times> 'p replica) option" where
  "generateSignedCheckpoint E state batchDigest isConfig after s =
     (let st = \<lparr>es_height = ms_height (ss_meta state), es_digest = ms_digest (ss_meta state),
                es_batchDigest = batchDigest\<rparr>;
          finish = (\<lambda>vc s.
            let k = Checkpoint (ei_epoch (cc_epochInfo (rb_cc s))) (Some st) isConfig vc in
            case signCheckpoint E (Some k) of
              None \<Rightarrow> (None, stopNamespace s)
            | Some sig \<Rightarrow> (Some (SignedCheckpoint (Some k) (selfID s) sig), s))
      in if isProposerElectionTypeWRF (rb_cc s)
         then (case checkpointViewChange E after s of
                 None \<Rightarrow> None
               | Some (None, s1) \<Rightarrow> Some (None, s1)
               | Some (Some vc, s1) \<Rightarrow> Some (finish (Some vc) s1))
         else Some (finish None s))"

section \<open>Dropping certificates\<close>

definition dropCert :: "msgID \<Rightarrow> msgCert \<Rightarrow> 'p replica \<Rightarrow> 'p replica" where
  "dropCert idx c s = (case idx of (v, n, d) \<Rightarrow>
     rb_store_update (\<lambda>m. m\<lparr>sm_committedCertCache := gput idx c (sm_committedCertCache m)\<rparr>)
       (persistDelQPCSet idx
         (rb_store_update (\<lambda>m. m\<lparr>sm_certStore := gdel idx (sm_certStore m),
            sm_outstanding := gdel d (sm_outstanding m), sm_committedCert := gdel idx (sm_committedCert m),
            sm_seqMap := gdel n (sm_seqMap m)\<rparr>) s)))"

definition dropCertsUpTo :: "u64 \<Rightarrow> 'p replica \<Rightarrow> 'p replica" where
  "dropCertsUpTo h s = cleanCommittedCertCache h
     (fold (\<lambda>(idx, c) t. if fst (snd idx) \<le> h then dropCert idx c t else t) (sm_certStore (rb_store s)) s)"

section \<open>Moving the low watermark\<close>

definition batchFloor :: "u64 \<Rightarrow> 'p replica \<Rightarrow> u64 option" where
  \<comment> \<open>the height up to which stored batches are dropped; a period of zero is a division by zero\<close>
  "batchFloor n s =
     (let k = checkpointPeriod s; keep = cf_committedBlockCacheNumber (rb_config s) in
      if k = 0 then None
      else let pos = n div k * k;
               target = (if pos \<le> k then 0 else pos - k)
        in Some (if n - target < keep then (if n > keep then n - keep else 0) else target))"

definition dropBatches :: "'p env \<Rightarrow> u64 \<Rightarrow> u64 \<Rightarrow> 'p replica \<Rightarrow> 'p replica" where
  "dropBatches E low n s =
     (let old = filter (\<lambda>(d, b). rq_seqNo b \<le> low) (sm_batchStore (rb_store s));
          done = filter (\<lambda>(d, b). rq_seqNo b \<le> n \<and> rq_seqNo b > ms_height (ss_meta (cf_lastServiceState (rb_config s))))
                   (sm_batchStore (rb_store s));
          s1 = rb_store_update (sm_batchStore_update (gkeep (\<lambda>_ b. \<not> rq_seqNo b \<le> low))) s
      in withPool (en_poolRemoveBatches E (map fst done) (rb_pool s)) (fold persistDelBatch (map fst old) s1))"

fun pruneLocal :: "'p env \<Rightarrow> bool \<Rightarrow> u64 \<Rightarrow> (u64 \<times> signedCheckpoint) list \<Rightarrow> 'p replica \<Rightarrow> bool \<times> 'p replica" where
  \<comment> \<open>the local checkpoints: below the height they go, above it a new epoch signs them again;
     \<open>False\<close>: a signature failed and \<open>moveWatermarks\<close> returns\<close>
  "pruneLocal E newEpoch h [] s = (True, s)"
| "pruneLocal E newEpoch h ((n, c) # rest) s =
     (if n < h then pruneLocal E newEpoch h rest (persistDelCheckpoint n (deleteCheckpoint n s))
      else if \<not> newEpoch then pruneLocal E newEpoch h rest s
      else (case signCheckpoint E (sc_checkpoint c) of
          None \<Rightarrow> (False, stopNamespace s)
        | Some sig \<Rightarrow> pruneLocal E newEpoch h rest
            (rb_store_update (sm_localCheckpoints_update
              (gmodify n (\<lambda>c. SignedCheckpoint (sc_checkpoint c) (sc_author c) sig))) s)))"

definition pruneLists :: "u64 \<Rightarrow> 'p replica \<Rightarrow> 'p replica" where
  "pruneLists h s =
     rb_store_update (sm_missingInFetching_update (gkeep (\<lambda>_ (v, n, d). \<not> n \<le> h)))
       (rb_vc_update (\<lambda>m. m\<lparr>vm_qlist := gkeep (\<lambda>(d, n) _. \<not> n \<le> h) (vm_qlist m),
                          vm_plist := gkeep (\<lambda>n _. \<not> n \<le> h) (vm_plist m)\<rparr>) s)"

definition moveWatermarks :: "'p env \<Rightarrow> u64 \<Rightarrow> bool \<Rightarrow> 'p act" where
  "moveWatermarks E n newEpoch s =
     (if cc_H (rb_cc s) > n then Some s
      else let s1 = dropCertsUpTo n s in
        case batchFloor n s1 of
          None \<Rightarrow> None
        | Some low \<Rightarrow>
            let s2 = dropBatches E low n s1;
                s3 = rb_store_update (sm_checkpointStore_update (gkeep (\<lambda>(a, k) _. \<not> k \<le> n))) s2
            in (case pruneLocal E newEpoch n (sm_localCheckpoints (rb_store s3)) s3 of
                  (False, s4) \<Rightarrow> Some s4
                | (True, s4) \<Rightarrow> Some (persistH n (rb_cc_update (cc_H_update (\<lambda>_. n)) (pruneLists n s4)))))"

section \<open>State transfer\<close>

definition updateHighStateTarget ::
  "metaState \<Rightarrow> signedCheckpoint list \<Rightarrow> epochChange list \<Rightarrow> 'p replica \<Rightarrow> 'p replica" where
  "updateHighStateTarget target cset changes s =
     (if (case sm_highStateTarget (rb_store s) of None \<Rightarrow> False
          | Some t \<Rightarrow> ms_height (tg_meta t) \<ge> ms_height target) then s
      else rb_store_update (sm_highStateTarget_update (\<lambda>_.
             Some \<lparr>tg_meta = target, tg_checkpointSet = cset, tg_epochChanges = changes\<rparr>)) s)"

definition tryStateTransfer :: "'p replica \<Rightarrow> 'p replica" where
  "tryStateTransfer s =
     (let s1 = setAbNormal (if rin SkipInProgress s then s else ron SkipInProgress s) in
      if ratomicIn StateTransferring s1 then s1
      else case sm_highStateTarget (rb_store s1) of
          None \<Rightarrow> s1
        | Some t \<Rightarrow>
            let s2 = rb_epoch_update (em_configBatchToCheck_update (\<lambda>_. None)) (stopFetchCheckpointTimer s1);
                s3 = rb_epoch_update (em_configBatchInOrder_update (\<lambda>_. 0)) (raOff InConfChange s2);
                s4 = raOn StateTransferring (stopHighWatermarkTimer s3);
                s5 = dropCertsUpTo (ms_height (tg_meta t)) s4
            in emit (StateUpdate (cc_H (rb_cc s5)) (ms_height (tg_meta t)) (ms_digest (tg_meta t))
                 (tg_checkpointSet t) (tg_epochChanges t)) s5)"

end
