(* ===== verification/Epoch.thy ===== *)
theory Epoch
  imports Watermark
begin

text \<open>
  Epochs (\<open>epoch_mgr.go\<close>, \<open>helper.go\<close>): turning into the epoch the ledger announces, the quorum
  checkpoints persisted at the end of every epoch, and the requests and proofs by which a replica that
  is epochs behind catches up. An error is returned as an event by the code, and an event that is an
  error is ignored by \<open>processEvent\<close>: here it is no event.
\<close>

section \<open>Quorum checkpoints on disk\<close>

definition epochKey :: "u64 \<Rightarrow> string" where
  "epochKey e = ''epoch_q_chkpt.'' @ showU64 e"

definition epochIndexKey :: string where
  "epochIndexKey = ''epoch_latest_idx''"

definition persistEpochQuorumCheckpoint :: "quorumCheckpoint option \<Rightarrow> 'p act" where
  "persistEpochQuorumCheckpoint q s = do {
     c \<leftarrow> q;
     k \<leftarrow> qc_checkpoint c;
     Some (rb_epochStore_update (\<lambda>m. gput epochIndexKey (SBytes (be64 (ck_epoch k)))
        (gput (epochKey (ck_epoch k)) (SQuorumCheckpoint c) m)) s) }"

definition getEpochQuorumCheckpoint :: "u64 \<Rightarrow> 'p replica \<Rightarrow> quorumCheckpoint option" where
  "getEpochQuorumCheckpoint e s =
     (case gget (rb_epochStore s) (epochKey e) of Some (SQuorumCheckpoint c) \<Rightarrow> Some c | _ \<Rightarrow> None)"

section \<open>Entering an epoch\<close>

definition updateEpochInfo :: "'p env \<Rightarrow> epochInfo \<Rightarrow> (u64, int) gomap \<Rightarrow> 'p act" where
  \<comment> \<open>an error of \<open>updateDerivedData\<close> returns with \<open>epochLock\<close> still held; locks are not modelled\<close>
  "updateEpochInfo E ei vs s =
     (let s1 = rb_epoch_update (em_epoch_update (\<lambda>_. ei_epoch ei)) (rb_cc_update (cc_epochInfo_update (\<lambda>_. ei)) s) in
      case updateDerivedData (en_nodeIDByP2P E) vs (rb_cc s1) of
        Inl _ \<Rightarrow> Some s1
      | Inr c \<Rightarrow> map_option (\<lambda>c. s1\<lparr>rb_cc := c\<rparr>) (ccResetRecentBlockNum (en_getBlockMeta E) (cc_lastCkptHeight c) c))"

definition turnIntoEpoch :: "'p env \<Rightarrow> 'p act" where
  "turnIntoEpoch E s =
     (case en_currentEpochInfo E of
        None \<Rightarrow> Some (stopNamespace s)
      | Some ei \<Rightarrow> (case en_validatorSet E of
          None \<Rightarrow> Some (stopNamespace s)
        | Some vs \<Rightarrow> do {
            let s1 = (stopFetchViewTimer (stopNewViewTimer s))
                       \<lparr>rb_vc := newVcManager (cf_timers (rb_config s)), rb_recovery := gempty\<rparr>;
            s2 \<leftarrow> updateEpochInfo E ei vs s1;
            s3 \<leftarrow> (if cp_enableTimedGenEmptyBlock (ei_params (cc_epochInfo (rb_cc s2))) \<and>
                      \<not> bm_noTxBatchTimerActive (rb_batch s2)
                   then startNoTxBatchTimer E s2 else Some s2);
            s4 \<leftarrow> persistNewView E initialNewView True s3;
            Some (rb_epoch_update (em_epochProofCache_update (gkeep (\<lambda>e _. \<not> e < ei_epoch ei))) s4) }))"

definition syncEpoch :: "'p env \<Rightarrow> 'p replica \<Rightarrow> (bool \<times> 'p replica) option" where
  "syncEpoch E s =
     (case en_currentEpochInfo E of
        None \<Rightarrow> Some (False, stopNamespace s)
      | Some ei \<Rightarrow>
          if ei_epoch ei \<noteq> ei_epoch (cc_epochInfo (rb_cc s))
          then do { s1 \<leftarrow> turnIntoEpoch E s;
                    s2 \<leftarrow> moveWatermarks E (ei_startBlock ei - 1) True s1;
                    Some (True, s2) }
          else Some (False, s))"

definition validatorEntries :: "'p env \<Rightarrow> 'p replica \<Rightarrow> (u64, validatorInfoPB option) gomap \<times> 'p replica" where
  \<comment> \<open>\<open>lo.MapValues\<close> over the validator set; \<open>getNodeInfo\<close> fills its cache\<close>
  "validatorEntries E s =
     fold (\<lambda>(i, _) (m, s).
        case getNodeInfo (en_getNodeInfo E) (rb_cc s) i of
          (None, c) \<Rightarrow> (gput i None m, s\<lparr>rb_cc := c\<rparr>)
        | (Some n, c) \<Rightarrow> (gput i (Some \<lparr>vp_id = i, vp_p2p = ni_p2p n\<rparr>) m, s\<lparr>rb_cc := c\<rparr>))
       (cc_validatorSet (rb_cc s)) (gempty, s)"

definition signaturesOf :: "signedCheckpoint list \<Rightarrow> (u64, signature) gomap" where
  "signaturesOf cs = fold (\<lambda>c. gput (sc_author c) (sc_signature c)) cs gempty"

definition syncConfigCheckpoint :: "'p env \<Rightarrow> u64 \<Rightarrow> signedCheckpoint list \<Rightarrow> 'p act" where
  "syncConfigCheckpoint E h qcs s =
     (let s1 = rb_epoch_update (em_configBatchToCheck_update (\<lambda>_. None))
                 (emit (SendFilterEvent (StableCheckpoint qcs)) s) in
      case validatorEntries E s1 of (vs, s2) \<Rightarrow>
        case qcs of
          [] \<Rightarrow> Some s2
        | c # _ \<Rightarrow> persistEpochQuorumCheckpoint
            (Some \<lparr>qc_checkpoint = sc_checkpoint c, qc_signatures = signaturesOf qcs, qc_validatorSet = vs\<rparr>) s2)"

section \<open>Fetching a checkpoint\<close>

definition fetchCheckpoint :: "'p env \<Rightarrow> 'p act" where
  "fetchCheckpoint E s =
     (case em_configBatchToCheck (rb_epoch s) of
        None \<Rightarrow> Some s
      | Some m \<Rightarrow> map_option (broadcast (FetchCheckpoint (selfID s) (ms_height m))) (startFetchCheckpointTimer E s))"

definition recvFetchCheckpoint :: "'p env \<Rightarrow> u64 \<Rightarrow> u64 \<Rightarrow> 'p replica \<Rightarrow> 'p replica" where
  "recvFetchCheckpoint E requester n s =
     (case (case gget (sm_localCheckpoints (rb_store s)) n of
              Some c \<Rightarrow> Some c | None \<Rightarrow> gget (sm_localCheckpoints (rb_store s)) (cc_H (rb_cc s))) of
        None \<Rightarrow> s
      | Some c \<Rightarrow> unicast E (MSignedCheckpoint c) requester s)"

section \<open>Catching up over epochs\<close>

definition maxNumEpochEndingCheckpoint :: u64 where
  "maxNumEpochEndingCheckpoint = 100"

definition retrieveEpochChange :: "'p env \<Rightarrow> u64 \<Rightarrow> u64 \<Rightarrow> u64 \<Rightarrow> 'p replica \<Rightarrow> 'p replica" where
  "retrieveEpochChange E start target recipient s =
     unicast E (EpochChangeRequest (selfID s) start target (cc_selfP2P (rb_cc s))) recipient s"

definition verifyEpochChangeRequest :: "u64 \<Rightarrow> u64 \<Rightarrow> 'p replica \<Rightarrow> bool" where
  "verifyEpochChangeRequest start target s = (\<not> start \<ge> target \<and> \<not> em_epoch (rb_epoch s) < target)"

definition epochChangeOf :: "quorumCheckpoint \<Rightarrow> epochChange" where
  \<comment> \<open>a nil validator is stored, and read back, as an empty one; the low watermark is not set\<close>
  "epochChangeOf q = \<lparr>ec_checkpoint = Some q,
     ec_validators = map (\<lambda>(_, v). case v of None \<Rightarrow> (0, []) | Some i \<Rightarrow> (vp_id i, vp_p2p i)) (qc_validatorSet q),
     ec_lowWatermark = 0\<rparr>"

definition pagingGetEpochChangeProof :: "u64 \<Rightarrow> u64 \<Rightarrow> u64 \<Rightarrow> 'p replica \<Rightarrow> epochChangeProof option" where
  \<comment> \<open>\<open>None\<close>: a quorum checkpoint cannot be read\<close>
  "pagingGetEpochChangeProof start endEpoch limit s =
     (let more = (if endEpoch - start > limit then endEpoch else 0);
          paging = (if endEpoch - start > limit then start + limit else endEpoch)
      in map_option (\<lambda>qs. \<lparr>ep_changes = map epochChangeOf qs, ep_more = more, ep_author = selfID s, ep_genesis = []\<rparr>)
           (those (map (\<lambda>e. getEpochQuorumCheckpoint (of_nat e) s) [unat start ..< unat paging])))"

definition processEpochChangeRequest :: "'p env \<Rightarrow> u64 \<Rightarrow> u64 \<Rightarrow> string \<Rightarrow> 'p replica \<Rightarrow> 'p replica" where
  "processEpochChangeRequest E start target p2p s =
     (if \<not> verifyEpochChangeRequest start target s then s
      else case pagingGetEpochChangeProof start target maxNumEpochEndingCheckpoint s of
          None \<Rightarrow> s
        | Some proof \<Rightarrow> unicastByP2PID (MEpochChangeProof (proof\<lparr>ep_genesis := cf_genesisBlockDigest (rb_config s)\<rparr>)) p2p s)"

definition verifyEpochChangeProof :: "epochChangeProof \<Rightarrow> 'p replica \<Rightarrow> epochChangeProof option" where
  \<comment> \<open>the proof without the epochs already passed; \<open>None\<close> is an error\<close>
  "verifyEpochChangeProof proof s =
     (let rest = dropWhile (\<lambda>c. \<not> qc_Epoch (ec_checkpoint c) \<ge> em_epoch (rb_epoch s)) (ep_changes proof);
          start = (case rest of [] \<Rightarrow> 0 | c # _ \<Rightarrow> qc_Epoch (ec_checkpoint c))
      in if start \<noteq> em_epoch (rb_epoch s) then None
         else if rest = [] then None
         else Some (proof\<lparr>ep_changes := rest\<rparr>))"

definition processEpochChangeProof :: "epochChangeProof \<Rightarrow> 'p replica \<Rightarrow> event option option" where
  \<comment> \<open>an empty proof is dereferenced by \<open>NextEpoch\<close>: a panic\<close>
  "processEpochChangeProof proof s =
     (case ep_NextEpoch proof of
        None \<Rightarrow> None
      | Some next_epoch \<Rightarrow>
          Some (if next_epoch \<le> em_epoch (rb_epoch s) then None
                else if ep_genesis proof \<noteq> cf_genesisBlockDigest (rb_config s) then None
                else map_option (\<lambda>p. LocalEvent (EpochSync p)) (verifyEpochChangeProof proof s)))"

definition checkEpoch :: "'p env \<Rightarrow> consensusMessage \<Rightarrow> 'p handler" where
  "checkEpoch E msg s =
     (let cur = em_epoch (rb_epoch s) in
      if m_epoch msg > cur then
        (case m_payload msg of
           MEpochChangeProof p \<Rightarrow> map_option (\<lambda>e. (e, s)) (processEpochChangeProof p s)
         | _ \<Rightarrow> Some (None, retrieveEpochChange E cur (m_epoch msg) (m_from msg) s))
      else if m_epoch msg < cur then
        (case m_payload msg of
           EpochChangeRequest a start target p2p \<Rightarrow> Some (None, processEpochChangeRequest E start target p2p s)
         | _ \<Rightarrow> Some (None, s))
      else Some (None, s))"

fun epochSyncSet :: "'p env \<Rightarrow> checkpoint option \<Rightarrow> (u64 \<times> signature) list \<Rightarrow> signedCheckpoint list option" where
  \<comment> \<open>\<open>None\<close>: a signature is wrong\<close>
  "epochSyncSet E k [] = Some []"
| "epochSyncSet E k ((i, sig) # rest) =
     (if en_verify E i sig (hashOf E k)
      then map_option ((#) (SignedCheckpoint k i sig)) (epochSyncSet E k rest) else None)"

definition cacheProofs :: "epochChange list \<Rightarrow> 'p replica \<Rightarrow> 'p replica" where
  "cacheProofs cs = rb_epoch_update (em_epochProofCache_update
     (fold (\<lambda>c. gput (qc_Epoch (ec_checkpoint c)) c) cs))"

definition handleEpochSyncEvent :: "'p env \<Rightarrow> epochChangeProof \<Rightarrow> 'p act" where
  \<comment> \<open>the last change is dereferenced, its quorum checkpoint, and the checkpoint in it (\<open>NextEpoch\<close>)\<close>
  "handleEpochSyncEvent E proof s =
     (if ep_changes proof = [] then None
      else let s1 = cacheProofs (ep_changes proof) s in
        case ec_checkpoint (last (ep_changes proof)) of
          None \<Rightarrow> None
        | Some q \<Rightarrow>
            let k = qc_checkpoint q;
                target = (\<lambda>c. \<lparr>ms_height = ck_Height c, ms_digest = ck_Digest c, ms_batchDigest = []\<rparr>)
            in Option.bind k (\<lambda>c. case epochSyncSet E k (qc_signatures q) of
                  None \<Rightarrow> Some s1
                | Some cset \<Rightarrow> Some (tryStateTransfer (updateHighStateTarget (target c) cset (ep_changes proof)
                    (raOn InEpochSyncing s1)))))"

definition handleFetchCheckpointEvent :: "'p env \<Rightarrow> 'p act" where
  "handleFetchCheckpointEvent E s = fetchCheckpoint E (stopFetchCheckpointTimer s)"

end
