(* ===== verification/Checkpoint.thy ===== *)
theory Checkpoint
  imports Epoch
begin

text \<open>
  Checkpoints (\<open>rbft_impl.go\<close>, \<open>helper.go\<close>): the comparison of checkpoints with the weak sets,
  the detection of a replica that lags behind, the stable checkpoint that moves the watermark or ends
  the epoch, and the end of a state transfer. Handlers that run cached events take the function that
  runs an event as an argument (\<open>run\<close>).
\<close>

section \<open>Weak certificates\<close>

fun weakSets :: "'p env \<Rightarrow> nat \<Rightarrow> u64 \<Rightarrow> ((u64 \<times> u64) \<times> signedCheckpoint) list \<Rightarrow>
    (bytes, signedCheckpoint list) gomap \<Rightarrow> bytes list \<Rightarrow>
    ((bytes, signedCheckpoint list) gomap \<times> bytes list) option" where
  \<comment> \<open>the loop of \<open>compareCheckpointWithWeakSet\<close>: the checkpoints of a height by hash, and the hashes that
     reached the weak quorum \<open>q\<close>; \<open>None\<close>: more than \<open>q\<close> different values\<close>
  "weakSets E q h [] sets good = Some (sets, good)"
| "weakSets E q h (((a, n), c) # rest) sets good =
     (if n \<noteq> h then weakSets E q h rest sets good
      else let x = hashOf E (sc_checkpoint c);
               l = (case gget sets x of None \<Rightarrow> [] | Some l \<Rightarrow> l) @ [c];
               sets' = gput x l sets
        in if gsize sets' > q then None
           else weakSets E q h rest sets' (if List.length l = q then good @ [x] else good))"

definition becomeInconsistent :: "'p replica \<Rightarrow> 'p replica" where
  "becomeInconsistent s = stopNamespace (setAbNormal (ron Inconsistent s))"

definition compareCheckpointWithWeakSet ::
  "'p env \<Rightarrow> signedCheckpoint \<Rightarrow> 'p replica \<Rightarrow> (bool \<times> signedCheckpoint list) \<times> 'p replica" where
  "compareCheckpointWithWeakSet E sc s =
     (let h = sc_Height sc in
      if \<not> inW h s then ((False, []), s)
      else let s1 = rb_store_update (sm_checkpointStore_update (gput (sc_author sc, h) sc)) s in
        case weakSets E (oneCorrectQuorum (rb_cc s1)) h (sm_checkpointStore (rb_store s1)) gempty [] of
          None \<Rightarrow> ((False, []), becomeInconsistent s1)
        | Some (sets, []) \<Rightarrow> ((True, []), s1)
        | Some (sets, [x]) \<Rightarrow>
            let correct = (case gget sets x of None \<Rightarrow> [] | Some l \<Rightarrow> l);
                d = (case correct of [] \<Rightarrow> [] | c # _ \<Rightarrow> sc_Digest c)
            in (case gget (sm_localCheckpoints (rb_store s1)) h of
                  None \<Rightarrow> ((True, correct), s1)
                | Some l \<Rightarrow>
                    if sc_Digest l \<noteq> d
                    then ((False, []), tryStateTransfer (updateHighStateTarget
                           \<lparr>ms_height = h, ms_digest = d, ms_batchDigest = []\<rparr> correct [] s1))
                    else ((True, correct), s1))
        | Some (sets, _) \<Rightarrow> ((False, []), becomeInconsistent s1))"

definition weakRecord :: "nat \<Rightarrow> (u64 \<times> signedCheckpoint) list \<Rightarrow>
    (metaState, signedCheckpoint list) gomap \<times> metaState" where
  \<comment> \<open>the checkpoints out of range by height and digest, and the highest with more than \<open>q\<close> of them\<close>
  "weakRecord q cs = fold (\<lambda>(_, c) (m, best).
     let k = \<lparr>ms_height = sc_Height c, ms_digest = sc_Digest c, ms_batchDigest = []\<rparr>;
         l = (case gget m k of None \<Rightarrow> [] | Some l \<Rightarrow> l) @ [c]
     in (gput k l m, if List.length l > q \<and> ms_height k > ms_height best then k else best))
     cs (gempty, \<lparr>ms_height = 0, ms_digest = [], ms_batchDigest = []\<rparr>)"

definition weakCheckpointSetOutOfRange ::
  "'p env \<Rightarrow> signedCheckpoint \<Rightarrow> 'p replica \<Rightarrow> (bool \<times> 'p replica) option" where
  "weakCheckpointSetOutOfRange E sc s =
     (let top = cc_H (rb_cc s) + cc_L (rb_cc s); q = oneCorrectQuorum (rb_cc s);
          put = (\<lambda>f. rb_store_update (sm_higherCheckpoints_update f))
      in if sc_Height sc < top then Some (False, put (gdel (sc_author sc)) s)
         else let s1 = put (gput (sc_author sc) sc) s in
           if gsize (sm_higherCheckpoints (rb_store s1)) < q then Some (False, s1)
           else let s2 = put (gkeep (\<lambda>_ c. \<not> sc_Height c \<le> top)) s1 in
             case weakRecord q (sm_higherCheckpoints (rb_store s2)) of
               (m, best) \<Rightarrow> (case gget m best of
                   None \<Rightarrow> Some (False, s2)
                 | Some cset \<Rightarrow>
                     if rb_lastExec s2 \<ge> ms_height best
                     then map_option (Pair False) (softStartHighWatermarkTimer E s2)
                     else Some (True, updateHighStateTarget best cset [] s2)))"

section \<open>After a stable checkpoint\<close>

definition finishConfigCheckpoint :: "'p env \<Rightarrow> u64 \<Rightarrow> signedCheckpoint list \<Rightarrow> 'p handler" where
  "finishConfigCheckpoint E h matching s =
     (if \<not> ratomicIn InConfChange s then Some (None, s)
      else do {
        s1 \<leftarrow> syncConfigCheckpoint E h matching (stopFetchCheckpointTimer s);
        (_, s2) \<leftarrow> syncEpoch E s1;
        let s3 = rb_epoch_update (em_configBatchInOrder_update (\<lambda>_. 0)) (raOff InConfChange s2);
        initRecovery E (emit (SendFilterEvent FinishConfigChange) (rmaybeSetNormal s3)) })"

definition carriedViewChanges :: "signedCheckpoint list \<Rightarrow> viewChange list" where
  "carriedViewChanges cs = List.map_filter (\<lambda>c. Option.bind (sc_checkpoint c) ck_viewChange) cs"

definition vcViewOf :: "viewChange \<Rightarrow> u64" where
  "vcViewOf vc = (case vc_basis vc of None \<Rightarrow> 0 | Some b \<Rightarrow> vb_view b)"

definition viewCounter :: "viewChange list \<Rightarrow> (u64, nat) gomap" where
  "viewCounter vcs = fold (\<lambda>vc m. gput (vcViewOf vc) ((case gget m (vcViewOf vc) of None \<Rightarrow> 0 | Some k \<Rightarrow> k) + 1) m) vcs gempty"

definition mostCounted :: "(u64, nat) gomap \<Rightarrow> u64 \<times> nat" where
  "mostCounted m = fold (\<lambda>(v, k) (bv, bk). if k > bk then (v, k) else (bv, bk)) m (0, 0)"

definition signNewView :: "'p env \<Rightarrow> newView \<Rightarrow> 'p replica \<Rightarrow> signature option \<times> 'p replica" where
  "signNewView E nv s =
     (case en_sign E (en_hashNewView E (nv_replicaId nv, nv_view nv, nv_xset nv, nv_autoTermUpdate nv, nv_info nv)) of
        None \<Rightarrow> (None, stopNamespace s)
      | Some sig \<Rightarrow> (Some sig, s))"

definition autoTermView :: "'p env \<Rightarrow> signedCheckpoint \<Rightarrow> signedCheckpoint list \<Rightarrow> nodeDynamicInfo list \<Rightarrow> 'p replica \<Rightarrow> newView" where
  "autoTermView E local matching info s =
     \<lparr>nv_replicaId = cc_primaryID (rb_cc s), nv_view = cc_view (rb_cc s) + 1, nv_xset = [],
      nv_viewChangeSet = Some (carriedViewChanges matching),
      nv_quorumCheckpoint = Some \<lparr>qc_checkpoint = sc_checkpoint local, qc_signatures = signaturesOf matching,
         qc_validatorSet = gempty\<rparr>,
      nv_signature = [], nv_fromId = selfID s, nv_autoTermUpdate = True, nv_info = sort_key nd_id info\<rparr>"

definition autoTermUpdate :: "'p env \<Rightarrow> u64 \<Rightarrow> signedCheckpoint list \<Rightarrow> 'p replica \<Rightarrow> (bool \<times> 'p replica) option" where
  \<comment> \<open>the new view at a checkpoint of the weighted random election; \<open>False\<close>: \<open>finishNormalCheckpoint\<close> returns\<close>
  "autoTermUpdate E h matching s =
     (case mostCounted (viewCounter (carriedViewChanges matching)) of (mostView, cnt) \<Rightarrow>
      if cnt < commonCaseQuorum (rb_cc s) then Some (False, s)
      else if \<not> nv_view (vm_latestNewView (rb_vc s)) < mostView then Some (True, s)
      else do {
        r \<leftarrow> selectValidatorDynamicInfo E (rb_cc s) (carriedViewChanges matching);
        (case r of
           None \<Rightarrow> Some (False, s)
         | Some info \<Rightarrow> do {
             local \<leftarrow> gget (sm_localCheckpoints (rb_store s)) h;
             let nv = autoTermView E local matching info s;
             (case signNewView E nv s of
                (None, s1) \<Rightarrow> Some (False, s1)
              | (Some sig, s1) \<Rightarrow> do {
                  s2 \<leftarrow> persistNewView E (nv\<lparr>nv_signature := sig\<rparr>) True s1;
                  Some (True, rb_batch_update (bm_seqNo_update (\<lambda>_. h)) s2) }) }) })"

definition stopBatching :: "'p replica \<Rightarrow> 'p replica" where
  "stopBatching s =
     (let s1 = (if (\<not> isPrimary (selfID s) s \<or> \<not> risNormal s) \<and> bm_batchTimerActive (rb_batch s)
                then stopBatchTimer s else s)
      in if bm_noTxBatchTimerActive (rb_batch s1) then stopNoTxBatchTimer s1 else s1)"

definition finishNormalCheckpoint :: "'p env \<Rightarrow> u64 \<Rightarrow> signedCheckpoint list \<Rightarrow> 'p act" where
  "finishNormalCheckpoint E h matching s = do {
     s1 \<leftarrow> moveWatermarks E h False (stopHighWatermarkTimer (stopFetchCheckpointTimer s));
     (go, s2) \<leftarrow> (if isProposerElectionTypeWRF (rb_cc s1) then autoTermUpdate E h matching s1 else Some (True, s1));
     (if \<not> go then Some s2
      else do {
        s3 \<leftarrow> nullReqTimerReset E s2;
        let s4 = emit (SendFilterEvent (StableCheckpoint matching)) (stopBatching s3);
        s5 \<leftarrow> (if isProposerElectionTypeWRF (rb_cc s4) then processWRFHighViewMsgs E s4 else Some s4);
        (if risNormal s5 \<and> isPrimary (selfID s5) s5
         then do { s6 \<leftarrow> primaryResubmitTransactions E s5;
                   s7 \<leftarrow> restartBatchTimer E s6;
                   restartNoTxBatchTimer E s7 }
         else Some s5) }) }"

section \<open>Receiving a checkpoint\<close>

definition storedFor :: "u64 \<Rightarrow> 'p replica \<Rightarrow> signedCheckpoint option" where
  \<comment> \<open>a checkpoint of this height in the store: the last one the loop visits\<close>
  "storedFor h s = fold (\<lambda>((a, n), c) r. if n = h then Some c else r) (sm_checkpointStore (rb_store s)) None"

definition recordStable :: "'p env \<Rightarrow> u64 \<Rightarrow> string \<Rightarrow> 'p replica \<Rightarrow> (bool \<times> 'p replica) option" where
  \<comment> \<open>the last executed checkpoint and the producer of its block; \<open>False\<close>: the ledger has no such block\<close>
  "recordStable E h d s =
     (let s1 = rb_cc_update (\<lambda>c. c\<lparr>cc_lastCkptHash := d, cc_lastCkptHeight := h\<rparr>) s in
      case en_getBlockMeta E h of
        None \<Rightarrow> Some (False, s1)
      | Some b \<Rightarrow> map_option (\<lambda>t. (True, roff waitCheckpointFinished (rb_cc_update (cc_tracker_update (\<lambda>_. t)) s1)))
          (AddBlock \<lparr>bm_processor = bm_processor b, bm_num = h, bm_hash = []\<rparr> (cc_tracker (rb_cc s1))))"

definition lagging :: "'p env \<Rightarrow> 'p act" where
  \<comment> \<open>what \<open>recvCheckpoint\<close> does when f+1 checkpoints are out of range\<close>
  "lagging E s =
     (if ratomicIn StateTransferring s then Some s
      else map_option tryStateTransfer (dropEvent (initRecovery E) (roff waitCheckpointFinished s)))"

definition stabilise :: "'p env \<Rightarrow> checkpoint \<Rightarrow> signedCheckpoint list \<Rightarrow> 'p handler" where
  \<comment> \<open>\<open>recvCheckpoint\<close> once the matching set reaches the quorum\<close>
  "stabilise E k matching s =
     (let h = ck_Height k; d = ck_Digest k in
      if \<not> ghas (sm_localCheckpoints (rb_store s)) h
      then Some (None, updateHighStateTarget \<lparr>ms_height = h, ms_digest = d, ms_batchDigest = []\<rparr> matching [] s)
      else do {
        (found, s1) \<leftarrow> recordStable E h d s;
        (if \<not> found then Some (None, s1)
         else if ck_needUpdateEpoch k then finishConfigCheckpoint E h matching s1
         else map_option (Pair None) (finishNormalCheckpoint E h matching s1)) })"

definition recvCheckpoint :: "'p env \<Rightarrow> signedCheckpoint \<Rightarrow> bool \<Rightarrow> 'p handler" where
  "recvCheckpoint E sc0 local s =
     (let observer = local \<and> \<not> risValidator s;
          source = (if observer then storedFor (sc_Height sc0) s else Some sc0)
      in case source of
           None \<Rightarrow> Some (None, s)
         | Some sc \<Rightarrow> (case sc_checkpoint sc of
             None \<Rightarrow> None
           | Some k \<Rightarrow>
               if ck_epoch k < ei_epoch (cc_epochInfo (rb_cc s)) then Some (None, s)
               else if \<not> local \<and> \<not> verifySignedCheckpoint E sc then Some (None, s)
               else do {
                 (out, s1) \<leftarrow> weakCheckpointSetOutOfRange E sc s;
                 (if out then map_option (Pair None) (lagging E s1)
                  else case compareCheckpointWithWeakSet E sc s1 of
                    ((legal, matching), s2) \<Rightarrow>
                      if \<not> legal then Some (None, s2)
                      else if List.length matching < commonCaseQuorum (rb_cc s2) then Some (None, s2)
                      else stabilise E k matching s2) }))"

section \<open>The replica's own checkpoints\<close>

definition checkpointAct :: "'p env \<Rightarrow> serviceState \<Rightarrow> bool \<Rightarrow> 'p act" where
  "checkpointAct E state isConfig s =
     (let n = ms_height (ss_meta state) in
      case gget (sm_seqMap (rb_store s)) n of
        None \<Rightarrow> Some s
      | Some bd \<Rightarrow> (case generateSignedCheckpoint E state bd isConfig True s of
          None \<Rightarrow> None
        | Some (None, s1) \<Rightarrow> Some (stopNamespace s1)
        | Some (Some sc, s1) \<Rightarrow> do {
            let s2 = persistCheckpoint n (ms_digest (ss_meta state)) bd (saveCheckpoint n sc s1);
            s3 \<leftarrow> (if isConfig then startFetchCheckpointTimer E s2
                   else if rb_lastExec s2 = cc_H (rb_cc s2) + cc_L (rb_cc s2) \<and> \<not> isProposerElectionTypeWRF (rb_cc s2)
                   then softStartHighWatermarkTimer E s2 else Some s2);
            let s4 = (if risValidator s3 then broadcast (MSignedCheckpoint sc) s3 else s3);
            dropEvent (recvCheckpoint E sc True) s4 }))"

definition reProcessCacheEvents :: "(event \<Rightarrow> 'p act) \<Rightarrow> 'p act" where
  \<comment> \<open>\<open>run\<close> processes an event and every event that follows from it\<close>
  "reProcessCacheEvents run s =
     mfold (\<lambda>e s. map_option (\<lambda>s1. case e of ConsensusEvent m \<Rightarrow> checkView m s1 | _ \<Rightarrow> s1) (run e s))
       (sm_beforeCheckpointEventCache (rb_store s))
       (rb_store_update (sm_beforeCheckpointEventCache_update (\<lambda>_. [])) s)"

definition afterOwnCheckpoint :: "(event \<Rightarrow> 'p act) \<Rightarrow> 'p env \<Rightarrow> serviceState \<Rightarrow> bool \<Rightarrow> 'p act" where
  \<comment> \<open>the two branches of \<open>recvCheckpointBlockExecutedEvent\<close> from \<open>waitCheckpointBatchExecute\<close> on\<close>
  "afterOwnCheckpoint run E state isConfig s = do {
     s1 \<leftarrow> checkpointAct E state isConfig (ron waitCheckpointFinished (roff waitCheckpointBatchExecute s));
     s2 \<leftarrow> startTimerIfOutstandingRequests E s1;
     let s3 = rb_vc_update (vm_lastNewViewTimeout_update (\<lambda>_. timeoutOf newViewTimer s2)) s2;
     s4 \<leftarrow> (if ms_height (ss_meta state) = vm_viewChangeSeqNo (rb_vc s3)
            then dropEvent (sendViewChange E False) s3 else Some s3);
     reProcessCacheEvents run s4 }"

definition recvCheckpointBlockExecutedEvent :: "(event \<Rightarrow> 'p act) \<Rightarrow> 'p env \<Rightarrow> serviceState \<Rightarrow> 'p act" where
  "recvCheckpointBlockExecutedEvent run E state s =
     (let h = ms_height (ss_meta state) in
      if risConfigBatch h s then
        let s1 = setConfigBatchToExecute 0 s in
        if h = rb_lastExec s1
        then afterOwnCheckpoint run E state True
               (rb_epoch_update (em_configBatchToCheck_update (\<lambda>_. Some (ss_meta state))) s1)
        else Some s1
      else if checkpointPeriod s = 0 then None
      else if h mod checkpointPeriod s = 0 \<and> h = rb_lastExec s then afterOwnCheckpoint run E state False s
      else Some s)"

section \<open>The end of a state transfer\<close>

definition reopenCert :: "u64 \<Rightarrow> msgID \<Rightarrow> 'p replica \<Rightarrow> 'p replica" where
  \<comment> \<open>a certificate above the height is executed again if it is committed in the current view\<close>
  "reopenCert seqNo idx s =
     (if fst (snd idx) > seqNo then
        let s1 = modCert idx (\<lambda>c. c\<lparr>mc_sentExecute := False\<rparr>) s in
        if fst idx = cc_view (rb_cc s1) \<and> committed idx s1 \<and>
           (case rcert idx s1 of None \<Rightarrow> False | Some c \<Rightarrow> mc_sentCommit c \<and> \<not> mc_sentExecute c)
        then rb_store_update (sm_committedCert_update (gput idx (snd (snd idx)))) s1
        else s1
      else s)"

definition reopenCerts :: "u64 \<Rightarrow> 'p replica \<Rightarrow> 'p replica" where
  "reopenCerts seqNo s =
     (if seqNo < rb_lastExec s
      then fold (\<lambda>(idx, _). reopenCert seqNo idx) (sm_certStore (rb_store s))
             (rb_store_update (sm_committedCert_update (\<lambda>_. gempty)) s)
      else s)"

definition persistCachedProof :: "u64 \<Rightarrow> 'p act" where
  "persistCachedProof e s =
     (case gget (em_epochProofCache (rb_epoch s)) (e - 1) of
        None \<Rightarrow> Some s
      | Some c \<Rightarrow> persistEpochQuorumCheckpoint (ec_checkpoint c) s)"

definition adoptCheckpoint :: "'p env \<Rightarrow> u64 \<Rightarrow> string \<Rightarrow> bool \<Rightarrow> 'p replica \<Rightarrow> (bool \<times> 'p replica) option" where
  \<comment> \<open>the checkpoint of the reached height becomes a local one; \<open>False\<close>: \<open>recvStateUpdatedEvent\<close> returns\<close>
  "adoptCheckpoint E seqNo digest epochChanged s = do {
     t \<leftarrow> sm_highStateTarget (rb_store s);
     (case tg_checkpointSet t of
        [] \<Rightarrow> Some (False, stopNamespace s)
      | c # _ \<Rightarrow>
          (case signCheckpoint E (sc_checkpoint c) of
             None \<Rightarrow> Some (False, stopNamespace s)
           | Some sig \<Rightarrow> do {
               let s1 = rb_cc_update (\<lambda>c. c\<lparr>cc_lastCkptHash := digest, cc_lastCkptHeight := seqNo\<rparr>)
                          (saveCheckpoint seqNo (SignedCheckpoint (sc_checkpoint c) (selfID s) sig) s);
               k \<leftarrow> sc_checkpoint c;
               st \<leftarrow> ck_state k;
               s2 \<leftarrow> moveWatermarks E seqNo epochChanged (persistCheckpoint seqNo digest (es_batchDigest st) s1);
               Some (True, s2) })) }"

definition firstTargetCheckpoint :: "'p replica \<Rightarrow> checkpoint option option" where
  \<comment> \<open>\<open>highStateTarget.checkpointSet[0].Checkpoint\<close>\<close>
  "firstTargetCheckpoint s =
     (case sm_highStateTarget (rb_store s) of
        None \<Rightarrow> None
      | Some t \<Rightarrow> (case tg_checkpointSet t of [] \<Rightarrow> None | c # _ \<Rightarrow> Some (sc_checkpoint c)))"

definition resumeViewChange :: "'p env \<Rightarrow> 'p handler" where
  \<comment> \<open>\<open>recvStateUpdatedEvent\<close> of a replica in view change\<close>
  "resumeViewChange E s = do {
     p \<leftarrow> calPrimaryIDByView (en_sha256 E) (rb_cc s) (cc_view (rb_cc s)) (cc_dynInfo (rb_cc s));
     (if selfID s = p then sendViewChange E False s
      else do {
        ck \<leftarrow> firstTargetCheckpoint s;
        (if (case Option.bind (Option.bind ck ck_viewChange) vc_basis of
               None \<Rightarrow> False | Some b \<Rightarrow> vb_view b \<noteq> cc_view (rb_cc s))
         then initRecovery E s
         else case gget (vm_newViewStore (rb_vc s)) (cc_view (rb_cc s)) of
             None \<Rightarrow> initRecovery E s
           | Some nv \<Rightarrow> map_option (Pair (Some (LocalEvent ViewChangeDone))) (persistNewView E nv False s)) }) }"

definition finishStateUpdate :: "u64 \<Rightarrow> 'p replica \<Rightarrow> 'p replica" where
  "finishStateUpdate seqNo s =
     (let s1 = (emit (SendFilterEvent FinishStateUpdate) s)\<lparr>rb_lastExec := seqNo\<rparr>;
          s2 = rb_batch_update (bm_seqNo_update (\<lambda>_. seqNo)) s1;
          s3 = rb_store_update (sm_missingInFetching_update (\<lambda>_. gempty)) s2
      in rmaybeSetNormal (raOff StateTransferring (roff SkipInProgress s3)))"

definition stateReached :: "'p env \<Rightarrow> serviceSyncState \<Rightarrow> 'p handler" where
  \<comment> \<open>\<open>recvStateUpdatedEvent\<close> once the target is reached, or when there is none\<close>
  "stateReached E ss s =
     (let st = sy_state ss; seqNo = ms_height (ss_meta st);
          epochChanged = (ss_epoch st \<noteq> ei_epoch (cc_epochInfo (rb_cc s)))
      in do {
        c \<leftarrow> ccResetRecentBlockNum (en_getBlockMeta E) seqNo (rb_cc s);
        s1 \<leftarrow> (if sy_epochChanged ss \<or> epochChanged then persistCachedProof (ss_epoch st) (s\<lparr>rb_cc := c\<rparr>)
               else Some (s\<lparr>rb_cc := c\<rparr>));
        let s2 = finishStateUpdate seqNo (reopenCerts seqNo s1);
        s3 \<leftarrow> (if epochChanged then map_option (raOff InEpochSyncing) (turnIntoEpoch E s2) else Some s2);
        (if \<not> epochChanged \<and> checkpointPeriod s3 = 0 then None
         else do {
           (go, s4) \<leftarrow> (if epochChanged \<or> seqNo mod checkpointPeriod s3 = 0
                        then adoptCheckpoint E seqNo (ms_digest (ss_meta st)) epochChanged s3 else Some (True, s3));
           (if \<not> go then Some (None, s4)
            else if epochChanged then initRecovery E s4
            else if ratomicIn InViewChange s4 then resumeViewChange E s4
            else Some (None, fetchRecoveryPQC s4)) }) })"

definition recvStateUpdatedEvent :: "'p env \<Rightarrow> serviceSyncState \<Rightarrow> 'p handler" where
  "recvStateUpdatedEvent E ss s =
     (let st = sy_state ss; seqNo = ms_height (ss_meta st) in
      case sm_highStateTarget (rb_store s) of
        None \<Rightarrow> stateReached E ss s
      | Some t \<Rightarrow>
          if seqNo < ms_height (tg_meta t) then
            map_option (Pair None)
              (if \<not> sy_epochChanged ss
               then Some (tryStateTransfer ((raOff StateTransferring s)\<lparr>rb_lastExec := seqNo\<rparr>))
               else persistCachedProof (ss_epoch st) s)
          else if seqNo > ms_height (tg_meta t) then Some (None, stopNamespace s)
          else stateReached E ss s)"

section \<open>Whether the initial checkpoint needs a state transfer\<close>

definition checkIfNeedStateUpdate ::
  "'p env \<Rightarrow> checkpointState \<Rightarrow> signedCheckpoint list \<Rightarrow> 'p replica \<Rightarrow> (bool \<times> 'p replica) option" where
  "checkIfNeedStateUpdate E cs cset s =
     (let h = ms_height (cs_meta cs);
          transfer = (\<lambda>s. Some (True, tryStateTransfer (updateHighStateTarget (cs_meta cs) cset [] s)));
          behind = (if rb_lastExec s < h then transfer s else Some (False, s))
      in if cc_H (rb_cc s) < h then
           (case gget (sm_localCheckpoints (rb_store s)) h of
              None \<Rightarrow> behind
            | Some l \<Rightarrow>
                if sc_Digest l = ms_digest (cs_meta cs) then
                  (if cs_isConfig cs
                   then map_option (\<lambda>s1. (False, raOff InConfChange s1))
                          (syncConfigCheckpoint E h cset
                             (rb_epoch_update (em_configBatchInOrder_update (\<lambda>_. h)) (raOn InConfChange s)))
                   else map_option (Pair False) (moveWatermarks E h False s))
                else transfer s)
         else behind)"

definition putBackRequestBatches :: "'p env \<Rightarrow> vcPq list \<Rightarrow> 'p replica \<Rightarrow> 'p replica" where
  "putBackRequestBatches E xset s =
     (let dead = (\<lambda>b. rq_seqNo b \<le> cc_H (rb_cc s) \<and> rq_seqNo b > ms_height (ss_meta (cf_lastServiceState (rb_config s))));
          ds = map fst (filter (\<lambda>(d, b). dead b) (sm_batchStore (rb_store s)));
          s1 = fold persistDelBatch ds (rb_store_update (sm_batchStore_update (gkeep (\<lambda>_ b. \<not> dead b))) s);
          s2 = withPool (en_poolRestore E (en_poolRemoveBatches E ds (rb_pool s1))) s1
      in rb_batch_update (bm_cacheBatch_update (\<lambda>_. [])) s2)"

end
