(* ===== verification/NewView.thy ===== *)
theory NewView
  imports Checkpoint
begin

text \<open>
  Entering a view (\<open>viewchange_mgr.go\<close>): sending, checking and adopting a new view, fetching a missed
  view, the responses to a recovering replica, fetching the batches a new view needs, and
  \<open>processNewView\<close>, which re-proposes them. The loops of \<open>processNewView\<close> are two recursive functions; a
  view change that they start returns an event which the code drops.
\<close>

section \<open>Quorums of view changes\<close>

definition vcReplicaOf :: "viewChange \<Rightarrow> u64" where
  "vcReplicaOf vc = (case vc_basis vc of None \<Rightarrow> 0 | Some b \<Rightarrow> vb_replicaId b)"

definition processQuorumViewChange :: "(event \<Rightarrow> 'p act) \<Rightarrow> 'p env \<Rightarrow> viewChange list \<Rightarrow> bool \<Rightarrow> 'p act" where
  \<comment> \<open>\<open>run\<close> processes an event and every event that follows from it\<close>
  "processQuorumViewChange run E vcs verified =
     mfold (\<lambda>vc s. if vcReplicaOf vc = selfID s then Some s
                   else do { (e, s1) \<leftarrow> recvViewChange E vc verified s;
                             (case e of None \<Rightarrow> Some s1 | Some ev \<Rightarrow> run ev s1) }) vcs"

definition recvQuorumViewChange :: "(event \<Rightarrow> 'p act) \<Rightarrow> 'p env \<Rightarrow> viewChange list \<Rightarrow> 'p act" where
  "recvQuorumViewChange run E vcs s =
     (case vcs of
        [] \<Rightarrow> Some s
      | v # rest \<Rightarrow>
          let target = vcViewOf v in
          if ratomicIn StateTransferring s then Some s
          else if target < cc_view (rb_cc s) then Some s
          else if \<exists>w \<in> set rest. vcViewOf w \<noteq> target then Some s
          else if risNormal s
            then (if target > cc_view (rb_cc s) then processQuorumViewChange run E vcs False s else Some s)
          else if ratomicIn InViewChange s \<and> target \<ge> cc_view (rb_cc s)
            then processQuorumViewChange run E vcs False s
          else Some s)"

definition getViewChangeBasis :: "'p replica \<Rightarrow> viewChange list \<times> vcBasis option list" where
  "getViewChangeBasis s = (currentVC s, map vc_basis (currentVC s))"

section \<open>The batches a new view needs\<close>

definition missingFor :: "vcPq list \<Rightarrow> 'p replica \<Rightarrow> string list" where
  "missingFor xset s =
     map pq_d (filter (\<lambda>m. \<not> pq_n m \<le> cc_H (rb_cc s) \<and> pq_d m \<noteq> [] \<and>
       \<not> ghas (sm_batchStore (rb_store s)) (pq_d m)) xset)"

definition checkIfNeedFetchMissingReqBatch :: "vcPq list \<Rightarrow> 'p replica \<Rightarrow> bool \<times> 'p replica" where
  "checkIfNeedFetchMissingReqBatch xset s =
     (missingFor xset s \<noteq> [],
      rb_store_update (sm_missingReqBatches_update (\<lambda>_. fold (\<lambda>d. gput d True) (missingFor xset s) gempty)) s)"

definition fetchRequestBatches :: "'p replica \<Rightarrow> 'p replica" where
  "fetchRequestBatches s =
     fold (\<lambda>(d, _) t. broadcast (FetchBatchRequest (selfID t) d) t) (sm_missingReqBatches (rb_store s)) s"

definition recvFetchRequestBatch :: "'p env \<Rightarrow> u64 \<Rightarrow> string \<Rightarrow> 'p replica \<Rightarrow> 'p replica" where
  "recvFetchRequestBatch E requester digest s =
     (case gget (sm_batchStore (rb_store s)) digest of
        None \<Rightarrow> s
      | Some b \<Rightarrow> unicast E (FetchBatchResponse (selfID s) (Some b) digest) requester s)"

section \<open>Processing a new view\<close>

definition newViewPrePrepare :: "u64 \<Rightarrow> string \<Rightarrow> requestBatch option \<Rightarrow> string list \<Rightarrow> 'p replica \<Rightarrow> prePrepare" where
  "newViewPrePrepare n d ob dups s =
     \<lparr>pp_replicaId = cc_primaryID (rb_cc s), pp_view = cc_view (rb_cc s), pp_n = n, pp_digest = d,
      pp_hashBatch = Some (case ob of
        None \<Rightarrow> \<lparr>hb_hashes = [], hb_deDuplicate = [], hb_timestamp = 0, hb_proposer = cc_primaryID (rb_cc s)\<rparr>
      | Some b \<Rightarrow> \<lparr>hb_hashes = rq_hashes b, hb_deDuplicate = dups, hb_timestamp = rq_timestamp b,
                   hb_proposer = rq_proposer b\<rparr>)\<rparr>"

definition adoptConfigBatch :: "'p env \<Rightarrow> msgID \<Rightarrow> 'p act" where
  \<comment> \<open>the config batch of a new view: in order if it is executed last or not yet, and then the loop stops\<close>
  "adoptConfigBatch E idx s =
     (let n = fst (snd idx);
          ordered = rb_epoch_update (em_configBatchInOrder_update (\<lambda>_. n))
                      (modCert idx (\<lambda>c. c\<lparr>mc_isConfig := True\<rparr>) (raOn InConfChange s))
      in if n = rb_lastExec s then
           (case rb_currentState ordered of
              None \<Rightarrow> None
            | Some st \<Rightarrow>
                if n = ms_height (ss_meta st)
                then fetchCheckpoint E (rb_epoch_update (em_configBatchToCheck_update (\<lambda>_. Some (ss_meta st))) ordered)
                else Some ordered)
         else if n > rb_lastExec s then Some ordered
         else Some s)"

fun adoptLoop :: "'p env \<Rightarrow> vcPq list \<Rightarrow> u64 \<Rightarrow> 'p replica \<Rightarrow> ((u64 option) \<times> 'p replica) option" where
  \<comment> \<open>the first loop of \<open>processNewView\<close>: the pre-prepares of the new view and the highest number;
     no number: the pool refused a batch and \<open>processNewView\<close> returns\<close>
  "adoptLoop E [] maxN s = Some (Some maxN, s)"
| "adoptLoop E (m # rest) maxN s =
     (let n = pq_n m; d = pq_d m in
      if n \<le> cc_H (rb_cc s) then adoptLoop E rest maxN s
      else if d \<noteq> [] \<and> \<not> ghas (sm_batchStore (rb_store s)) d then adoptLoop E rest maxN s
      else
        let idx = (cc_view (rb_cc s), n, d); s1 = snd (getCert idx s);
            ob = (if d = [] then None else gget (sm_batchStore (rb_store s1)) d);
            s2 = (case ob of None \<Rightarrow> s1
                  | Some b \<Rightarrow> if n > rb_lastExec s1 then rb_store_update (sm_outstanding_update (gput d b)) s1 else s1)
        in (case (case ob of None \<Rightarrow> (Some [], rb_pool s2) | Some b \<Rightarrow> en_poolReConstruct E b (rb_pool s2)) of
              (None, q) \<Rightarrow> map_option (Pair None) (dropEvent (sendViewChange E False) (withPool q s2))
            | (Some dups, q) \<Rightarrow>
                let pp = newViewPrePrepare n d ob dups s2;
                    s3 = persistQSet (Some pp) (modCert idx (\<lambda>c. c\<lparr>mc_prePrepare := Some pp\<rparr>) (withPool q s2));
                    s4 = rb_store_update (sm_seqMap_update (gput n d)) s3;
                    maxN' = (if n > maxN then n else maxN)
                in if risConfigBatch n s4 then map_option (Pair (Some maxN')) (adoptConfigBatch E idx s4)
                   else adoptLoop E rest maxN' s4))"

definition voteAgain :: "'p env \<Rightarrow> bool \<Rightarrow> vcPq \<Rightarrow> 'p act" where
  \<comment> \<open>the second loop of \<open>processNewView\<close>: a backup prepares every entry, and what is executed already is
     committed again; a message is sent after the replica has processed it itself\<close>
  "voteAgain E primary m s =
     (let n = pq_n m; d = pq_d m in do {
        s2 \<leftarrow> (if primary then Some s
               else let p = \<lparr>pr_replicaId = selfID s, pr_view = cc_view (rb_cc s), pr_n = n, pr_digest = d\<rparr>;
                        idx = (cc_view (rb_cc s), n, d)
                    in map_option (broadcast (MPrepare p))
                         (if n > cc_H (rb_cc s)
                          then recvPrepare E p (modCert idx (\<lambda>c. c\<lparr>mc_sentPrepare := True\<rparr>) (snd (getCert idx s)))
                          else Some s));
        (if n > cc_H (rb_cc s2) \<and> n \<le> rb_lastExec s2
         then let c = \<lparr>cm_replicaId = selfID s2, cm_view = cc_view (rb_cc s2), cm_n = n, cm_digest = d\<rparr>;
                  idx = (cc_view (rb_cc s2), n, d)
              in map_option (broadcast (MCommit c))
                   (recvCommit E c (modCert idx (\<lambda>c. c\<lparr>mc_sentCommit := True\<rparr>) (snd (getCert idx s2))))
         else Some s2) })"

definition processNewView :: "'p env \<Rightarrow> vcPq list \<Rightarrow> 'p act" where
  "processNewView E msgs s =
     (if msgs = [] then Some s
      else let primary = isPrimary (selfID s) s in do {
        (top, s1) \<leftarrow> adoptLoop E msgs (rb_lastExec s) s;
        (case top of
           None \<Rightarrow> Some s1
         | Some maxN \<Rightarrow> mfold (voteAgain E primary) msgs (rb_batch_update (bm_seqNo_update (\<lambda>_. maxN)) s1)) })"

definition resetStateForNewView :: "'p env \<Rightarrow> 'p handler" where
  "resetStateForNewView E s =
     (case gget (vm_newViewStore (rb_vc s)) (cc_view (rb_cc s)) of
        None \<Rightarrow> Some (None, s)
      | Some nv \<Rightarrow>
          if \<not> ratomicIn InViewChange s then Some (None, s)
          else do {
            let s1 = rb_batch_update (bm_seqNo_update (\<lambda>_. rb_lastExec s)) (cleanOutstandingAndCert s);
            s2 \<leftarrow> processNewView E (nv_xset nv) (putBackRequestBatches E (nv_xset nv) s1);
            s3 \<leftarrow> persistNewView E nv False s2;
            Some (if ratomicIn InViewChange s3 then Some (LocalEvent ViewChangeDone) else None, s3) })"

definition recvFetchBatchResponse :: "'p env \<Rightarrow> requestBatch option \<Rightarrow> string \<Rightarrow> 'p handler" where
  \<comment> \<open>a missing batch is dereferenced; the batch is stored under the digest of the message, which is not
     compared with its contents\<close>
  "recvFetchBatchResponse E ob digest s =
     (if \<not> ghas (sm_missingReqBatches (rb_store s)) digest then Some (None, s)
      else do {
        b \<leftarrow> ob;
        (if \<not> (\<forall>t \<in> set (rq_txs b). en_txDecodes E t) then Some (None, s)
         else do {
           s1 \<leftarrow> persistBatch digest (rb_store_update (sm_batchStore_update (gput digest b)) s);
           let s2 = rb_store_update (sm_missingReqBatches_update (gdel digest)) s1;
           (if gsize (sm_missingReqBatches (rb_store s2)) = 0 \<and> ratomicIn InViewChange s2 \<and>
               ghas (vm_newViewStore (rb_vc s2)) (cc_view (rb_cc s2))
            then resetStateForNewView E s2 else Some (None, s2)) }) })"

section \<open>Checking a new view\<close>

definition primaryCheckNewView :: "'p env \<Rightarrow> vcPq list \<Rightarrow> 'p handler" where
  "primaryCheckNewView E xset s =
     (case checkIfNeedFetchMissingReqBatch xset s of (need, s1) \<Rightarrow>
        if need then Some (None, fetchRequestBatches s1) else resetStateForNewView E s1)"

definition sameXset :: "vcPq list \<Rightarrow> vcPq list \<Rightarrow> bool" where
  \<comment> \<open>the views of the entries are not compared\<close>
  "sameXset a b = (map (\<lambda>m. (pq_n m, pq_d m)) a = map (\<lambda>m. (pq_n m, pq_d m)) b)"

definition newViewBases :: "newView \<Rightarrow> vcBasis list option" where
  \<comment> \<open>a new view without view changes is dereferenced, and so is a view change without basis\<close>
  "newViewBases nv = Option.bind (nv_viewChangeSet nv) (\<lambda>vcs. those (map vc_basis vcs))"

definition replicaCheckNewView :: "'p env \<Rightarrow> 'p handler" where
  "replicaCheckNewView E s =
     (case gget (vm_newViewStore (rb_vc s)) (cc_view (rb_cc s)) of
        None \<Rightarrow> Some (None, s)
      | Some nv \<Rightarrow>
          if \<not> ratomicIn InViewChange s \<or> vm_vcHandled (rb_vc s) then Some (None, s)
          else do {
            basis \<leftarrow> newViewBases nv;
            (case selectInitialCheckpoint E (rb_cc s) basis of
               None \<Rightarrow> sendViewChange E False s
             | Some (cs, cset) \<Rightarrow>
                 (case assignSequenceNumbers (rb_cc s) basis (ms_height (cs_meta cs)) of
                    None \<Rightarrow> sendViewChange E False s
                  | Some msgs \<Rightarrow>
                      if \<not> sameXset msgs (nv_xset nv) then sendViewChange E False s
                      else do {
                        (need, s1) \<leftarrow> checkIfNeedStateUpdate E cs cset (rb_vc_update (vm_vcHandled_update (\<lambda>_. True)) s);
                        (if need \<or> ratomicIn StateTransferring s1 then Some (None, s1)
                         else primaryCheckNewView E msgs s1) })) })"

definition verifySignedNewView :: "'p env \<Rightarrow> newView \<Rightarrow> bytes option" where
  \<comment> \<open>the hash of the new view if its signature is right\<close>
  "verifySignedNewView E nv =
     (let h = en_hashNewView E (nv_replicaId nv, nv_view nv, nv_xset nv, nv_autoTermUpdate nv, nv_info nv)
      in if en_verify E (if nv_autoTermUpdate nv then nv_fromId nv else nv_replicaId nv) (nv_signature nv) h
         then Some h else None)"

definition acceptedNow :: "u64 \<Rightarrow> bytes \<Rightarrow> 'p replica \<Rightarrow> (u64 \<times> string) option" where
  \<comment> \<open>the last branches of \<open>checkNewView\<close>: whether the status of the replica lets the view in\<close>
  "acceptedNow target h s =
     (if risNormal s then (if target > cc_view (rb_cc s) then Some (target, []) else None)
      else if ratomicIn InRecovery s then Some (target, hexEncode h)
      else if ratomicIn InViewChange s then (if target \<ge> cc_view (rb_cc s) then Some (target, []) else None)
      else Some (target, []))"

definition checkNewView :: "'p env \<Rightarrow> newView \<Rightarrow> 'p replica \<Rightarrow> (u64 \<times> string) option option" where
  \<comment> \<open>\<open>Some None\<close>: the new view is not valid\<close>
  "checkNewView E nv s =
     (if nv_view nv = 0 then Some None
      else if ratomicIn StateTransferring s then Some None
      else do {
        ok \<leftarrow> (if isProposerElectionTypeWRF (rb_cc s) then Some True
               else map_option (\<lambda>p. p = nv_replicaId nv)
                      (calPrimaryIDByView (en_sha256 E) (rb_cc s) (nv_view nv) (cc_dynInfo (rb_cc s))));
        (if \<not> ok then Some None
         else do {
           vcs \<leftarrow> nv_viewChangeSet nv;
           (if \<exists>vc \<in> set vcs. vcViewOf vc \<noteq> nv_view nv then Some None
            else do {
              info \<leftarrow> selectValidatorDynamicInfo E (rb_cc s) vcs;
              (case (info, verifySignedNewView E nv) of
                 (Some i, Some h) \<Rightarrow>
                   if i \<noteq> nv_info nv \<or> \<not> (\<forall>vc \<in> set vcs. verifySignedViewChange E vc (vcReplicaOf vc)) then Some None
                   else Some (acceptedNow (if vcs = [] then 0 else nv_view nv) h s)
               | _ \<Rightarrow> Some None) }) }) })"

section \<open>Sending and receiving a new view\<close>

definition buildNewView :: "'p env \<Rightarrow> nodeDynamicInfo list \<Rightarrow> checkpointState \<Rightarrow> vcPq list \<Rightarrow> 'p replica \<Rightarrow> newView" where
  "buildNewView E info cs msgs s =
     \<lparr>nv_replicaId = selfID s, nv_view = cc_view (rb_cc s), nv_xset = msgs,
      nv_viewChangeSet = Some (fst (getViewChangeBasis s)),
      nv_quorumCheckpoint = Some \<lparr>qc_checkpoint = Some (Checkpoint 0
          (Some \<lparr>es_height = ms_height (cs_meta cs), es_digest = ms_digest (cs_meta cs), es_batchDigest = []\<rparr>) False None),
        qc_signatures = gempty, qc_validatorSet = gempty\<rparr>,
      nv_signature = [], nv_fromId = selfID s, nv_autoTermUpdate = False, nv_info = info\<rparr>"

definition sendNewView :: "'p env \<Rightarrow> 'p handler" where
  "sendNewView E s =
     (if ghas (vm_newViewStore (rb_vc s)) (cc_view (rb_cc s)) then Some (None, s)
      else do {
        dyn \<leftarrow> selectValidatorDynamicInfo E (rb_cc s) (fst (getViewChangeBasis s));
        (case dyn of
           None \<Rightarrow> Some (None, s)
         | Some info \<Rightarrow> do {
             basis \<leftarrow> those (snd (getViewChangeBasis s));
             (case selectInitialCheckpoint E (rb_cc s) basis of
                None \<Rightarrow> Some (None, s)
              | Some (cs, cset) \<Rightarrow>
                  (case assignSequenceNumbers (rb_cc s) basis (ms_height (cs_meta cs)) of
                     None \<Rightarrow> Some (None, s)
                   | Some msgs \<Rightarrow>
                       let nv = buildNewView E info cs msgs s in
                       (case signNewView E nv s of
                          (None, s1) \<Rightarrow> Some (None, s1)
                        | (Some sig, s1) \<Rightarrow> do {
                            (need, s2) \<leftarrow> checkIfNeedStateUpdate E cs cset s1;
                            (if need \<or> ratomicIn StateTransferring s2 then Some (None, s2)
                             else let nv' = nv\<lparr>nv_signature := sig\<rparr>;
                                      s3 = broadcast (MNewView nv') s2
                               in primaryCheckNewView E msgs
                                    (rb_vc_update (vm_newViewStore_update (gput (cc_view (rb_cc s3)) nv')) s3)) }))) }) })"

definition recvNewView :: "(event \<Rightarrow> 'p act) \<Rightarrow> 'p env \<Rightarrow> newView \<Rightarrow> 'p handler" where
  "recvNewView run E nv s = do {
     r \<leftarrow> checkNewView E nv s;
     (case r of
        None \<Rightarrow> Some (None, s)
      | Some (target, _) \<Rightarrow> do {
          vcs \<leftarrow> nv_viewChangeSet nv;
          s1 \<leftarrow> processQuorumViewChange run E vcs True s;
          (if nv_view (vm_latestNewView (rb_vc s1)) \<ge> target then Some (None, s1)
           else replicaCheckNewView E (rb_vc_update (vm_newViewStore_update (gput target nv)) s1)) }) }"

section \<open>Fetching a view\<close>

fun tryFetchLoop :: "'p env \<Rightarrow> (u64 \<times> u64) list \<Rightarrow> 'p act" where
  "tryFetchLoop E [] s = startFetchViewTimer E s"
| "tryFetchLoop E ((remote, v) # rest) s =
     (if v > cc_view (rb_cc s) then Some (unicast E (FetchView (selfID s) (cc_view (rb_cc s))) remote s)
      else tryFetchLoop E rest (rb_vc_update (vm_higherViewRecord_update (gdel remote)) s))"

definition tryFetchView :: "'p env \<Rightarrow> 'p act" where
  "tryFetchView E s =
     (if \<not> ratomicIn InViewChange s then Some s else tryFetchLoop E (vm_higherViewRecord (rb_vc s)) s)"

definition recvFetchView :: "'p env \<Rightarrow> u64 \<Rightarrow> u64 \<Rightarrow> 'p replica \<Rightarrow> 'p replica" where
  "recvFetchView E requester v s =
     (if \<not> cc_view (rb_cc s) > v then s
      else case vm_latestQuorumViewChange (rb_vc s) of
          Some (_, vcs) \<Rightarrow> unicast E (QuorumViewChange (selfID s) vcs) requester s
        | None \<Rightarrow> unicast E (MNewView (vm_latestNewView (rb_vc s))) requester s)"

section \<open>Recovering into a view\<close>

definition countRecovery :: "newViewIdx \<Rightarrow> signedCheckpoint \<Rightarrow> 'p replica \<Rightarrow> newViewCert \<times> 'p replica" where
  \<comment> \<open>one more response for this view; responses of the same peer count again\<close>
  "countRecovery idx c s =
     (let old = (case gget (vm_newViewCache (rb_vc s)) idx of
                   None \<Rightarrow> \<lparr>nc_forwardPeers = [], nc_initialCheckpoints = []\<rparr> | Some nc \<Rightarrow> nc);
          nc = \<lparr>nc_forwardPeers = nc_forwardPeers old @ [sc_author c],
                nc_initialCheckpoints = nc_initialCheckpoints old @ [c]\<rparr>
      in (nc, rb_vc_update (vm_newViewCache_update (gput idx nc)) s))"

definition resetStateForRecovery :: "'p env \<Rightarrow> u64 \<Rightarrow> string \<Rightarrow> newView \<Rightarrow> signedCheckpoint \<Rightarrow> 'p handler" where
  "resetStateForRecovery E target h nv c s =
     (if sc_author c = 0 then Some (None, s)
      else if \<not> verifySignedCheckpoint E c then Some (None, s)
      else do {
           k \<leftarrow> sc_checkpoint c;
           (case countRecovery \<lparr>ni_targetView = target, ni_hash = h, ni_initial = csOf k\<rparr> c s of
              (nc, s1) \<Rightarrow>
                if List.length (nc_forwardPeers nc) < oneCorrectQuorum (rb_cc s1) then Some (None, s1)
                else do {
                  (_, s2) \<leftarrow> checkIfNeedStateUpdate E (csOf k) (nc_initialCheckpoints nc) s1;
                  s3 \<leftarrow> setView E target (stopT vcResendTimer s2);
                  replicaCheckNewView E (rb_vc_update (vm_newViewStore_update (gput target nv)) s3) }) })"

definition recvRecoveryResponse :: "'p env \<Rightarrow> recoveryResponse \<Rightarrow> 'p handler" where
  \<comment> \<open>a different genesis digest is only logged\<close>
  "recvRecoveryResponse E r s =
     (case (rr_newView r, rr_initialCheckpoint r) of
        (Some nv, Some c) \<Rightarrow>
          if ratomicIn InRecovery s then do {
            v \<leftarrow> checkNewView E nv s;
            (case v of None \<Rightarrow> Some (None, s) | Some (target, h) \<Rightarrow> resetStateForRecovery E target h nv c s) }
          else Some (None, s)
      | _ \<Rightarrow> Some (None, s))"

section \<open>Period of view changes\<close>

definition updateViewChangeSeqNo :: "u64 \<Rightarrow> u64 \<Rightarrow> 'p act" where
  "updateViewChangeSeqNo n k s =
     (if vm_viewChangePeriod (rb_vc s) = 0 then Some s
      else if k = 0 then None
      else Some (rb_vc_update (\<lambda>m. m\<lparr>vm_viewChangeSeqNo := n - n mod k + vm_viewChangePeriod m * k\<rparr>) s))"

end
