(* ===== verification/NewViewSafety.thy ===== *)
theory NewViewSafety
  imports NewView Sample
begin

text \<open>
  Properties of entering a view: what a new view has been checked for before it changes anything, that the
  new view of an honest primary is recomputed and adopted by a backup, and how the responses to a
  recovering replica are counted.
\<close>

section \<open>What a new view is checked for\<close>

definition primaryOf :: "'p env \<Rightarrow> u64 \<Rightarrow> u64 \<Rightarrow> 'p replica \<Rightarrow> bool" where
  \<comment> \<open>with the rotating election the replica is the primary of the view; the weighted one is not checked\<close>
  "primaryOf E v i s = (isProposerElectionTypeWRF (rb_cc s) \<or>
     calPrimaryIDByView (en_sha256 E) (rb_cc s) v (cc_dynInfo (rb_cc s)) = Some i)"

definition newViewSound :: "'p env \<Rightarrow> newView \<Rightarrow> viewChange list \<Rightarrow> 'p replica \<Rightarrow> bool" where
  "newViewSound E nv vcs s =
     (nv_viewChangeSet nv = Some vcs \<and> nv_view nv \<noteq> 0 \<and> primaryOf E (nv_view nv) (nv_replicaId nv) s \<and>
      verifySignedNewView E nv \<noteq> None \<and>
      (\<forall>vc \<in> set vcs. vcViewOf vc = nv_view nv \<and> verifySignedViewChange E vc (vcReplicaOf vc)) \<and>
      selectValidatorDynamicInfo E (rb_cc s) vcs = Some (Some (nv_info nv)))"

lemma checkNewView_sound:
  assumes "checkNewView E nv s = Some (Some r)"
  obtains vcs h where "newViewSound E nv vcs s" "\<not> ratomicIn StateTransferring s"
    "acceptedNow (if vcs = [] then 0 else nv_view nv) h s = Some r"
proof -
  from assms have z: "nv_view nv \<noteq> 0" "\<not> ratomicIn StateTransferring s" by (auto simp: checkNewView_def split: if_splits)
  with assms obtain ok where ok: "(if isProposerElectionTypeWRF (rb_cc s) then Some True
        else map_option (\<lambda>p. p = nv_replicaId nv)
          (calPrimaryIDByView (en_sha256 E) (rb_cc s) (nv_view nv) (cc_dynInfo (rb_cc s)))) = Some ok" "ok"
    by (auto simp: checkNewView_def bind_eq_Some_conv split: if_splits)
  then have p: "primaryOf E (nv_view nv) (nv_replicaId nv) s" by (auto simp: primaryOf_def split: if_splits)
  from assms z ok obtain vcs info where v: "nv_viewChangeSet nv = Some vcs" "\<not> (\<exists>vc \<in> set vcs. vcViewOf vc \<noteq> nv_view nv)"
    "selectValidatorDynamicInfo E (rb_cc s) vcs = Some info"
    by (auto simp: checkNewView_def bind_eq_Some_conv split: if_splits)
  with assms z ok obtain i h where ih: "info = Some i" "verifySignedNewView E nv = Some h"
    by (cases info; cases "verifySignedNewView E nv") (auto simp: checkNewView_def)
  with assms z ok v have c: "\<not> (i \<noteq> nv_info nv \<or> \<not> (\<forall>vc \<in> set vcs. verifySignedViewChange E vc (vcReplicaOf vc)))"
    by (auto simp: checkNewView_def split: if_splits)
  with assms z ok v ih have "acceptedNow (if vcs = [] then 0 else nv_view nv) h s = Some r"
    by (simp add: checkNewView_def)
  with z p v ih c show thesis by (intro that) (auto simp: newViewSound_def)
qed

lemma acceptedNow_view:
  assumes "acceptedNow v h s = Some (t, x)"
  shows "t = v" "risNormal s \<Longrightarrow> v > cc_view (rb_cc s)"
    "\<not> risNormal s \<Longrightarrow> \<not> ratomicIn InRecovery s \<Longrightarrow> ratomicIn InViewChange s \<Longrightarrow> v \<ge> cc_view (rb_cc s)"
  using assms by (auto simp: acceptedNow_def split: if_splits)


section \<open>The new view of an honest primary\<close>

definition sameParameters :: "chainConfig \<Rightarrow> chainConfig \<Rightarrow> bool" where
  "sameParameters a b = (cc_N a = cc_N b \<and> cc_F a = cc_F b \<and> cc_L a = cc_L b \<and> cc_view a = cc_view b)"

lemma sameParameters_quorums:
  assumes "sameParameters a b"
  shows "commonCaseQuorum a = commonCaseQuorum b" "oneCorrectQuorum a = oneCorrectQuorum b" "cc_L a = cc_L b"
  using assms by (simp_all add: sameParameters_def commonCaseQuorum_def oneCorrectQuorum_def)

lemma selectValidatorDynamicInfo_cong:
  "sameParameters a b \<Longrightarrow> selectValidatorDynamicInfo E a vcs = selectValidatorDynamicInfo E b vcs"
  by (simp add: selectValidatorDynamicInfo_def sameParameters_quorums)

lemma selectInitialCheckpoint_cong:
  assumes "sameParameters a b"
  shows "selectInitialCheckpoint E a bs = selectInitialCheckpoint E b bs"
proof -
  have "eligibleCheckpoint a bs = eligibleCheckpoint b bs"
    by (intro ext) (simp add: eligibleCheckpoint_def sameParameters_quorums [OF assms])
  then show ?thesis
    by (simp add: selectInitialCheckpoint_def highestCheckpoint_def sameParameters_quorums [OF assms] split: option.splits)
qed

lemma assignSequenceNumbers_cong:
  assumes "sameParameters a b"
  shows "assignSequenceNumbers a bs h = assignSequenceNumbers b bs h"
proof -
  have "selectEntry a bs n = selectEntry b bs n" for n
    by (simp add: selectEntry_def sameParameters_quorums [OF assms])
  then have "assignLoop a bs ns m mx = assignLoop b bs ns m mx" for ns m mx
    by (induction ns arbitrary: m mx) (auto simp: sameParameters_quorums [OF assms] split: option.splits)
  then show ?thesis by (simp add: assignSequenceNumbers_def sameParameters_quorums [OF assms])
qed

definition proposal :: "'p env \<Rightarrow> 'p replica \<Rightarrow> (newView \<times> checkpointState \<times> signedCheckpoint list) option" where
  \<comment> \<open>the new view a primary makes from its view changes, and the initial checkpoint it starts from\<close>
  "proposal E s = do {
     basis \<leftarrow> those (map vc_basis (currentVC s));
     dyn \<leftarrow> selectValidatorDynamicInfo E (rb_cc s) (currentVC s);
     info \<leftarrow> dyn;
     (cs, cset) \<leftarrow> selectInitialCheckpoint E (rb_cc s) basis;
     msgs \<leftarrow> assignSequenceNumbers (rb_cc s) basis (ms_height (cs_meta cs));
     sig \<leftarrow> fst (signNewView E (buildNewView E info cs msgs s) s);
     Some ((buildNewView E info cs msgs s)\<lparr>nv_signature := sig\<rparr>, cs, cset) }"

definition storeNewView :: "newView \<Rightarrow> 'p replica \<Rightarrow> 'p replica" where
  "storeNewView nv s = rb_vc_update (vm_newViewStore_update (gput (cc_view (rb_cc s)) nv)) s"

definition handled :: "'p replica \<Rightarrow> 'p replica" where
  "handled = rb_vc_update (vm_vcHandled_update (\<lambda>_. True))"

lemma proposalE:
  assumes "proposal E p = Some (nv, cs, cset)"
  obtains basis info msgs sig where "those (map vc_basis (currentVC p)) = Some basis"
    "selectValidatorDynamicInfo E (rb_cc p) (currentVC p) = Some (Some info)"
    "selectInitialCheckpoint E (rb_cc p) basis = Some (cs, cset)"
    "assignSequenceNumbers (rb_cc p) basis (ms_height (cs_meta cs)) = Some msgs"
    "signNewView E (buildNewView E info cs msgs p) p = (Some sig, p)"
    "nv = (buildNewView E info cs msgs p)\<lparr>nv_signature := sig\<rparr>"
proof -
  from assms obtain basis info msgs sig where *: "those (map vc_basis (currentVC p)) = Some basis"
    "selectValidatorDynamicInfo E (rb_cc p) (currentVC p) = Some (Some info)"
    "selectInitialCheckpoint E (rb_cc p) basis = Some (cs, cset)"
    "assignSequenceNumbers (rb_cc p) basis (ms_height (cs_meta cs)) = Some msgs"
    "fst (signNewView E (buildNewView E info cs msgs p) p) = Some sig"
    "nv = (buildNewView E info cs msgs p)\<lparr>nv_signature := sig\<rparr>"
    unfolding proposal_def by (auto simp: bind_eq_Some_conv)
  from *(5) have "signNewView E (buildNewView E info cs msgs p) p = (Some sig, p)"
    by (auto simp: signNewView_def split: option.splits)
  then show thesis by (rule that [OF *(1-4) _ *(6)])
qed

lemma sendNewView_proposal:
  assumes "proposal E p = Some (nv, cs, cset)" "\<not> ghas (vm_newViewStore (rb_vc p)) (cc_view (rb_cc p))"
  shows "sendNewView E p = do {
       (need, s) \<leftarrow> checkIfNeedStateUpdate E cs cset p;
       if need \<or> ratomicIn StateTransferring s then Some (None, s)
       else primaryCheckNewView E (nv_xset nv) (storeNewView nv (broadcast (MNewView nv) s)) }"
proof -
  from assms(1) obtain basis info msgs sig where pr: "those (map vc_basis (currentVC p)) = Some basis"
    "selectValidatorDynamicInfo E (rb_cc p) (currentVC p) = Some (Some info)"
    "selectInitialCheckpoint E (rb_cc p) basis = Some (cs, cset)"
    "assignSequenceNumbers (rb_cc p) basis (ms_height (cs_meta cs)) = Some msgs"
    "signNewView E (buildNewView E info cs msgs p) p = (Some sig, p)"
    "nv = (buildNewView E info cs msgs p)\<lparr>nv_signature := sig\<rparr>" by (rule proposalE)
  then have "nv_xset nv = msgs" by (simp add: buildNewView_def)
  then show ?thesis
    using assms(2) pr by (simp add: sendNewView_def getViewChangeBasis_def storeNewView_def Let_def cong: if_cong)
qed

lemma currentVC_views: "vcStoreOk p \<Longrightarrow> vc \<in> set (currentVC p) \<Longrightarrow> vcViewOf vc = cc_view (rb_cc p)"
  using currentVC_distinct [of p] by (simp add: vcView_def vcViewOf_def)

text \<open>C15. The new view of an honest primary is adopted by every backup of the view with the same parameters:
  the backup's checks accept it, and after the check for a state transfer both go on with the very same
  list of requests, the primary having broadcast the new view.\<close>

theorem honest_newView_adopted:
  assumes "proposal E p = Some (nv, cs, cset)" "\<not> ghas (vm_newViewStore (rb_vc p)) (cc_view (rb_cc p))"
    and "vcStoreOk p" "\<forall>vc \<in> set (currentVC p). verifySignedViewChange E vc (vcReplicaOf vc)"
    and "\<And>h sig. en_sign E h = Some sig \<Longrightarrow> en_verify E (selfID p) sig h" "cc_view (rb_cc p) \<noteq> 0"
    and "sameParameters (rb_cc b) (rb_cc p)" "primaryOf E (cc_view (rb_cc p)) (selfID p) b"
    and "ratomicIn InViewChange b" "\<not> vm_vcHandled (rb_vc b)" "\<not> ratomicIn StateTransferring b"
  shows "sendNewView E p = do {
       (need, s) \<leftarrow> checkIfNeedStateUpdate E cs cset p;
       if need \<or> ratomicIn StateTransferring s then Some (None, s)
       else primaryCheckNewView E (nv_xset nv) (storeNewView nv (broadcast (MNewView nv) s)) }
    \<and> (\<exists>h. checkNewView E nv b = Some (acceptedNow (if currentVC p = [] then 0 else nv_view nv) h b))
    \<and> replicaCheckNewView E (storeNewView nv b) = do {
       (need, s) \<leftarrow> checkIfNeedStateUpdate E cs cset (handled (storeNewView nv b));
       if need \<or> ratomicIn StateTransferring s then Some (None, s)
       else primaryCheckNewView E (nv_xset nv) s }"
proof (intro conjI)
  from assms(1) obtain basis info msgs sig where pr: "those (map vc_basis (currentVC p)) = Some basis"
    "selectValidatorDynamicInfo E (rb_cc p) (currentVC p) = Some (Some info)"
    "selectInitialCheckpoint E (rb_cc p) basis = Some (cs, cset)"
    "assignSequenceNumbers (rb_cc p) basis (ms_height (cs_meta cs)) = Some msgs"
    "signNewView E (buildNewView E info cs msgs p) p = (Some sig, p)"
    "nv = (buildNewView E info cs msgs p)\<lparr>nv_signature := sig\<rparr>" by (rule proposalE)
  have nv: "nv_view nv = cc_view (rb_cc p)" "nv_xset nv = msgs" "nv_viewChangeSet nv = Some (currentVC p)"
    "nv_info nv = info" "nv_replicaId nv = selfID p" "nv_autoTermUpdate nv = False" "nv_signature nv = sig"
    by (simp_all add: pr(6) buildNewView_def getViewChangeBasis_def)
  show "sendNewView E p = do {
       (need, s) \<leftarrow> checkIfNeedStateUpdate E cs cset p;
       if need \<or> ratomicIn StateTransferring s then Some (None, s)
       else primaryCheckNewView E (nv_xset nv) (storeNewView nv (broadcast (MNewView nv) s)) }"
    by (rule sendNewView_proposal [OF assms(1,2)])
  define h where "h = en_hashNewView E (nv_replicaId nv, nv_view nv, nv_xset nv, nv_autoTermUpdate nv, nv_info nv)"
  have "en_sign E h = Some sig"
    using pr(5) nv by (auto simp: h_def signNewView_def buildNewView_def split: option.splits)
  then have "verifySignedNewView E nv = Some h"
    using assms(5) nv by (simp add: verifySignedNewView_def h_def)
  moreover have "selectValidatorDynamicInfo E (rb_cc b) (currentVC p) = Some (Some info)"
    using pr(2) selectValidatorDynamicInfo_cong [OF assms(7), of E] by simp
  moreover have "\<not> (\<exists>vc \<in> set (currentVC p). vcViewOf vc \<noteq> nv_view nv)"
    using currentVC_views [OF assms(3)] nv(1) by simp
  ultimately show "\<exists>h. checkNewView E nv b = Some (acceptedNow (if currentVC p = [] then 0 else nv_view nv) h b)"
    using assms(4,6,8,11) nv by (intro exI [of _ h]) (auto simp: checkNewView_def primaryOf_def)
  have "newViewBases nv = Some basis" using pr(1) nv(3) by (simp add: newViewBases_def)
  then show "replicaCheckNewView E (storeNewView nv b) = do {
       (need, s) \<leftarrow> checkIfNeedStateUpdate E cs cset (handled (storeNewView nv b));
       if need \<or> ratomicIn StateTransferring s then Some (None, s)
       else primaryCheckNewView E (nv_xset nv) s }"
    using assms(9,10) pr(3,4) nv(2) selectInitialCheckpoint_cong [OF assms(7), of E]
      assignSequenceNumbers_cong [OF assms(7)]
    by (simp add: replicaCheckNewView_def storeNewView_def handled_def sameXset_def ratomicIn_def cong: if_cong)
qed

definition sampleInfo :: "nodeDynamicInfo list" where
  "sampleInfo = [\<lparr>nd_id = 1, nd_power = 1000, nd_reduced = False, nd_reduceView = 0\<rparr>]"

definition sampleVote :: "u64 \<Rightarrow> viewChange" where
  \<comment> \<open>the view change of a replica that prepared \<open>d1\<close> at 1 and is at the checkpoint of height 0\<close>
  "sampleVote i = (let p = \<lparr>pq_n = 1, pq_d = ''d1'', pq_v = 1\<rparr> in
     ViewChange (Some (VcBasis i 2 0 [p] [p] [sampleCheckpoint i 0] sampleInfo sampleInfo)) [] 1000 False)"

definition sampleProposer :: "unit replica" where
  \<comment> \<open>replica 1 as primary of view 2 with the view changes of replicas 1 to 3\<close>
  "sampleProposer = rb_vc_update (vm_viewChangeStore_update (\<lambda>_. [((2, 1), sampleVote 1), ((2, 2), sampleVote 2), ((2, 3), sampleVote 3)]))
     (raOn InViewChange (roff Normal (rb_cc_update (\<lambda>c. c\<lparr>cc_view := 2, cc_primaryID := 1\<rparr>) sampleReplica)))"

definition sampleFollower :: "unit replica" where
  \<comment> \<open>replica 4 in the same view\<close>
  "sampleFollower = rb_vc_update (vm_viewChangeStore_update (\<lambda>_. gempty))
     (rb_cc_update (cc_selfID_update (\<lambda>_. 4)) sampleProposer)"

lemma sampleProposer_proposes:
  "map_option (\<lambda>(nv, cs, cset). (nv_xset nv, nv_view nv)) (proposal sampleEnv sampleProposer) =
     Some ([\<lparr>pq_n = 1, pq_d = ''d1'', pq_v = 0\<rparr>], 2)"
  by code_simp

lemma sampleProposer_simps:
  "cc_view (rb_cc sampleProposer) = 2" "cc_view (rb_cc sampleFollower) = 2" "currentVC sampleProposer \<noteq> []"
  "\<not> ghas (vm_newViewStore (rb_vc sampleProposer)) 2" "sameParameters (rb_cc sampleFollower) (rb_cc sampleProposer)"
  "primaryOf sampleEnv 2 (selfID sampleProposer) sampleFollower" "ratomicIn InViewChange sampleFollower"
  "\<not> vm_vcHandled (rb_vc sampleFollower)" "\<not> ratomicIn StateTransferring sampleFollower"
  by code_simp+

lemma sampleProposer_ok: "vcStoreOk sampleProposer"
  by (simp add: vcStoreOk_def sampleProposer_def raOn_def roff_def gwf_def sampleVote_def Let_def correctViewChange_def
    sampleCheckpoint_def sc_Height_def ck_Height_def)

theorem honest_newView_adopted_witness:
  "\<exists>nv cs cset h. proposal sampleEnv sampleProposer = Some (nv, cs, cset) \<and> nv_view nv = 2 \<and>
     nv_xset nv = [\<lparr>pq_n = 1, pq_d = ''d1'', pq_v = 0\<rparr>] \<and>
     checkNewView sampleEnv nv sampleFollower = Some (acceptedNow 2 h sampleFollower)"
proof -
  obtain nv cs cset where p: "proposal sampleEnv sampleProposer = Some (nv, cs, cset)"
    and nv: "nv_xset nv = [\<lparr>pq_n = 1, pq_d = ''d1'', pq_v = 0\<rparr>]" "nv_view nv = 2"
    using sampleProposer_proposes by auto
  have "\<forall>vc \<in> set (currentVC sampleProposer). verifySignedViewChange sampleEnv vc (vcReplicaOf vc)"
    by (simp add: verifySignedViewChange_def)
  with honest_newView_adopted [OF p _ sampleProposer_ok _ _ _ sampleProposer_simps(5)] sampleProposer_simps nv p
  show ?thesis by auto
qed

definition sampleNewView :: newView where
  "sampleNewView = (case proposal sampleEnv sampleProposer of None \<Rightarrow> initialNewView | Some (nv, _) \<Rightarrow> nv)"

lemma sampleNewView_stored:
  "map_option (\<lambda>(e, s). ghas (vm_newViewStore (rb_vc s)) 2) (recvNewView (\<lambda>e. Some) sampleEnv sampleNewView sampleFollower) = Some True"
  "ghas (vm_newViewStore (rb_vc sampleFollower)) 2 = False"
  by code_simp+


section \<open>Counting the responses to a recovering replica\<close>

definition responded :: "newViewIdx \<Rightarrow> signedCheckpoint \<Rightarrow> 'p replica \<Rightarrow> 'p replica" where
  "responded idx c s = snd (countRecovery idx c s)"

lemma responded_frame [simp]:
  "rb_cc (responded idx c s) = rb_cc s" "rb_cc ((responded idx c ^^ j) s) = rb_cc s"
  by (induction j) (simp_all add: responded_def countRecovery_def Let_def)

lemma responded_repeat:
  assumes "gget (vm_newViewCache (rb_vc s)) idx = None"
  shows "gget (vm_newViewCache (rb_vc ((responded idx c ^^ Suc j) s))) idx =
     Some \<lparr>nc_forwardPeers = replicate (Suc j) (sc_author c), nc_initialCheckpoints = replicate (Suc j) c\<rparr>"
proof (induction j)
  case 0
  then show ?case using assms by (simp add: responded_def countRecovery_def Let_def)
next
  case (Suc j)
  have app: "replicate n x @ [x] = x # replicate n x" for n and x :: 'c by (induction n) auto
  have "gget (vm_newViewCache (rb_vc (responded idx c t))) idx = Some \<lparr>nc_forwardPeers = nc_forwardPeers nc @ [sc_author c],
      nc_initialCheckpoints = nc_initialCheckpoints nc @ [c]\<rparr>"
    if "gget (vm_newViewCache (rb_vc t)) idx = Some nc" for nc and t :: "'a replica"
    using that by (simp add: responded_def countRecovery_def Let_def)
  from this [OF Suc] show ?case by (simp add: app)
qed

lemma countRecovery_repeat:
  assumes "gget (vm_newViewCache (rb_vc s)) idx = None"
  shows "countRecovery idx c ((responded idx c ^^ j) s) =
     (\<lparr>nc_forwardPeers = replicate (Suc j) (sc_author c), nc_initialCheckpoints = replicate (Suc j) c\<rparr>,
      (responded idx c ^^ Suc j) s)"
proof -
  let ?t = "(responded idx c ^^ j) s"
  have "gget (vm_newViewCache (rb_vc (responded idx c ?t))) idx = Some (fst (countRecovery idx c ?t))"
    by (simp add: responded_def countRecovery_def Let_def)
  with responded_repeat [OF assms, of j c] have "fst (countRecovery idx c ?t) =
    \<lparr>nc_forwardPeers = replicate (Suc j) (sc_author c), nc_initialCheckpoints = replicate (Suc j) c\<rparr>"
    by simp
  moreover have "snd (countRecovery idx c ?t) = (responded idx c ^^ Suc j) s" by (simp add: responded_def)
  ultimately show ?thesis by (metis prod.collapse)
qed

text \<open>C38. The responses to a recovering replica are counted, not their senders: copies of one signed response
  are kept waiting until there are F + 1 of them, and with the last copy the replica takes over the view
  and the initial checkpoint of this single peer.\<close>

theorem recovery_counts_copies:
  assumes "sc_author c \<noteq> 0" "verifySignedCheckpoint E c" "sc_checkpoint c = Some k"
    and "idx = \<lparr>ni_targetView = target, ni_hash = h, ni_initial = csOf k\<rparr>"
    and "gget (vm_newViewCache (rb_vc s)) idx = None"
  shows "(\<forall>j < cc_F (rb_cc s). resetStateForRecovery E target h nv c ((responded idx c ^^ j) s) =
       Some (None, (responded idx c ^^ Suc j) s)) \<and>
    resetStateForRecovery E target h nv c ((responded idx c ^^ cc_F (rb_cc s)) s) = do {
       (_, s2) \<leftarrow> checkIfNeedStateUpdate E (csOf k) (replicate (Suc (cc_F (rb_cc s))) c)
                    ((responded idx c ^^ Suc (cc_F (rb_cc s))) s);
       s3 \<leftarrow> setView E target (stopT vcResendTimer s2);
       replicaCheckNewView E (rb_vc_update (vm_newViewStore_update (gput target nv)) s3) }"
proof -
  note step = countRecovery_repeat [OF assms(5), of c]
  have q: "oneCorrectQuorum (rb_cc ((responded idx c ^^ j) s)) = Suc (cc_F (rb_cc s))" for j
    by (simp add: oneCorrectQuorum_def)
  show ?thesis
    using assms(1-3) step q
    by (auto simp: resetStateForRecovery_def assms(4) [symmetric] simp del: funpow.simps replicate.simps)
qed

theorem recovery_counts_copies_witness:
  "resetStateForRecovery sampleEnv 5 [] sampleNewView (sampleCheckpoint 3 1) sampleFollower =
     Some (None, responded \<lparr>ni_targetView = 5, ni_hash = [], ni_initial = csOf (the (sc_checkpoint (sampleCheckpoint 3 1)))\<rparr>
       (sampleCheckpoint 3 1) sampleFollower)"
proof -
  have "cc_F (rb_cc sampleFollower) = 1" "vm_newViewCache (rb_vc sampleFollower) = []" by code_simp+
  with recovery_counts_copies [of "sampleCheckpoint 3 1" sampleEnv _ _ 5 "[]" sampleFollower sampleNewView]
  show ?thesis by (fastforce simp: sampleCheckpoint_def verifySignedCheckpoint_def)
qed

end
