(* ===== verification/Copies.thy ===== *)
theory Copies
  imports NewViewSafety
begin

text \<open>
  The checks of a new view count the entries of its set of view changes and not their senders. So a primary
  that copies its own view change often enough decides on the checkpoint and on the requests alone.
\<close>

lemma those_Some: "those (map Some xs) = Some xs"
  by (induction xs) simp_all

section \<open>The selections from copies of one view change\<close>

lemma quorum_of_copies:
  assumes "derivedOk c"
  shows "3 \<le> commonCaseQuorum c" "oneCorrectQuorum c \<le> commonCaseQuorum c"
  using assms by (auto simp: derivedOk_def commonCaseQuorum_def oneCorrectQuorum_def)

lemma countInfo_copies:
  assumes "gget m (hash info) = Some k" "k < q" "q \<le> k + j"
  shows "\<exists>m'. (countInfo hash q info ^^ j) (m, best) = (m', info)"
proof -
  have "\<exists>m'. gget m' (hash info) = Some (k + i) \<and>
      (countInfo hash q info ^^ i) (m, best) = (m', if q \<le> k + i then info else best)" for i
  proof (induction i)
    case (Suc i)
    then obtain m' where "gget m' (hash info) = Some (k + i)"
      "(countInfo hash q info ^^ i) (m, best) = (m', if q \<le> k + i then info else best)" by blast
    then show ?case by (auto simp: countInfo_def)
  qed (use assms(1,2) in simp)
  then show ?thesis using assms(3) by (metis (full_types))
qed

lemma countInfo_from_empty:
  assumes "2 \<le> q" "q \<le> n"
  shows "\<exists>m. (countInfo hash q info ^^ n) (gempty, []) = (m, info)"
proof -
  have "(countInfo hash q info ^^ Suc (n - 1)) (gempty, []) = (countInfo hash q info ^^ (n - 1)) (gput (hash info) 1 gempty, [])"
    using assms by (simp only: funpow_Suc_right o_apply) (simp add: countInfo_def)
  then show ?thesis
    using countInfo_copies [of "gput (hash info) 1 gempty" hash info 1 q "n - 1" "[]"] assms by simp
qed

lemma dynStep_same:
  assumes "\<forall>vc \<in> set vcs. \<exists>b. vc_basis vc = Some b \<and> vb_ifRecover b = i \<and> vb_ifNotRecover b = j" "i \<noteq> []" "j \<noteq> []"
  shows "\<exists>d'. mfold (dynStep hash q) vcs d = Some d' \<and>
    (dc_recover d', dc_quorumRecover d') = (countInfo hash q i ^^ List.length vcs) (dc_recover d, dc_quorumRecover d) \<and>
    (dc_notRecover d', dc_quorumNotRecover d') = (countInfo hash q j ^^ List.length vcs) (dc_notRecover d, dc_quorumNotRecover d) \<and>
    dc_recoverCount d' = dc_recoverCount d + List.length (filter vc_recovery vcs) \<and>
    dc_notRecoverCount d' = dc_notRecoverCount d + List.length (filter (\<lambda>vc. \<not> vc_recovery vc) vcs)"
  using assms(1)
proof (induction vcs arbitrary: d)
  case (Cons vc vcs)
  obtain m1 q1 m2 q2 where c: "countInfo hash q i (dc_recover d, dc_quorumRecover d) = (m1, q1)"
    "countInfo hash q j (dc_notRecover d, dc_quorumNotRecover d) = (m2, q2)" by fastforce
  define d1 where "d1 = \<lparr>dc_recover = m1, dc_notRecover = m2,
     dc_recoverCount = dc_recoverCount d + (if vc_recovery vc then 1 else 0),
     dc_notRecoverCount = dc_notRecoverCount d + (if vc_recovery vc then 0 else 1),
     dc_quorumRecover = q1, dc_quorumNotRecover = q2\<rparr>"
  have "dynStep hash q vc d = Some d1"
    using Cons.prems assms(2,3) c by (auto simp: dynStep_def d1_def)
  moreover obtain d' where "mfold (dynStep hash q) vcs d1 = Some d'"
    "(dc_recover d', dc_quorumRecover d') = (countInfo hash q i ^^ List.length vcs) (m1, q1)"
    "(dc_notRecover d', dc_quorumNotRecover d') = (countInfo hash q j ^^ List.length vcs) (m2, q2)"
    "dc_recoverCount d' = dc_recoverCount d1 + List.length (filter vc_recovery vcs)"
    "dc_notRecoverCount d' = dc_notRecoverCount d1 + List.length (filter (\<lambda>vc. \<not> vc_recovery vc) vcs)"
    using Cons.IH [of d1] Cons.prems by (auto simp: d1_def)
  ultimately show ?case
    using c by (intro exI [of _ d']) (simp add: d1_def funpow_Suc_right del: funpow.simps)
qed simp

lemma selectValidatorDynamicInfo_same:
  assumes "\<forall>vc \<in> set vcs. \<exists>b. vc_basis vc = Some b \<and> vb_ifRecover b = i \<and> vb_ifNotRecover b = j" "i \<noteq> []" "j \<noteq> []"
    and "derivedOk c" "commonCaseQuorum c \<le> List.length vcs"
  shows "selectValidatorDynamicInfo E c vcs =
     Some (Some (if List.length (filter (\<lambda>vc. \<not> vc_recovery vc) vcs) \<le> List.length (filter vc_recovery vcs) then i else j))"
proof -
  let ?q = "commonCaseQuorum c" let ?n = "List.length vcs"
  have q: "2 \<le> ?q" using quorum_of_copies(1) [OF assms(4)] by simp
  obtain d where d: "mfold (dynStep (en_hashInfo E) ?q) vcs initDyn = Some d"
    "(dc_recover d, dc_quorumRecover d) = (countInfo (en_hashInfo E) ?q i ^^ ?n) (gempty, [])"
    "(dc_notRecover d, dc_quorumNotRecover d) = (countInfo (en_hashInfo E) ?q j ^^ ?n) (gempty, [])"
    "dc_recoverCount d = List.length (filter vc_recovery vcs)"
    "dc_notRecoverCount d = List.length (filter (\<lambda>vc. \<not> vc_recovery vc) vcs)"
    using dynStep_same [OF assms(1-3), of "en_hashInfo E" ?q initDyn] by (auto simp: initDyn_def)
  have "dc_quorumRecover d = i" "dc_quorumNotRecover d = j"
    using countInfo_from_empty [OF q assms(5), of "en_hashInfo E"] d(2,3) by (metis prod.inject)+
  then show ?thesis using d(1,4,5) assms(2,3) by (simp add: selectValidatorDynamicInfo_def Let_def)
qed

lemma collectCheckpoints_copies:
  assumes "vb_cset b = [sc]" "sc_checkpoint sc = Some k"
  shows "collectCheckpoints (replicate (Suc j) b) = [(csOf k, replicate (Suc j) sc)]"
proof -
  have "fold (\<lambda>b. collectCset (vb_cset b) []) (replicate j b) [(csOf k, replicate i sc)] = [(csOf k, replicate (i + j) sc)]" for i
  proof (induction j arbitrary: i)
    case (Suc j)
    then show ?case using assms Suc.IH [of "Suc i"] by (simp add: gput_def replicate_append_same)
  qed simp
  from this [of 1] show ?thesis
    using assms by (simp add: collectCheckpoints_def gput_def gempty_def)
qed

lemma selectInitialCheckpoint_copies:
  assumes "derivedOk c" "vb_cset b = [sc]" "sc_checkpoint sc = Some k" "verifySignedCheckpoint E sc" "vb_h b \<le> ck_Height k"
  shows "selectInitialCheckpoint E c (replicate (commonCaseQuorum c) b) = Some (csOf k, replicate (commonCaseQuorum c) sc)"
proof -
  let ?q = "commonCaseQuorum c"
  obtain j where j: "?q = Suc j" using quorum_of_copies(1) [OF assms(1)] by (cases ?q) auto
  have "eligibleCheckpoint c (replicate ?q b) (csOf k) (replicate ?q sc)"
    using quorum_of_copies(2) [OF assms(1)] assms(5) by (simp add: eligibleCheckpoint_def csOf_def)
  then show ?thesis
    using collectCheckpoints_copies [OF assms(2,3), of j] quorum_of_copies(2) [OF assms(1)] assms(4)
    by (simp add: selectInitialCheckpoint_def highestCheckpoint_def j)
qed

lemma assignLoop_nulls:
  assumes "\<forall>n \<in> set ns. selectEntry c bs n = None \<and> commonCaseQuorum c \<le> List.length (filter (supportsNull n) bs)"
  shows "assignLoop c bs ns m mx = Some (fold (\<lambda>n. gput n []) ns m, mx)"
  using assms by (induction ns arbitrary: m) auto

lemma fold_gput_nulls: "gget (fold (\<lambda>n. gput n []) ns m) k = (if k \<in> set ns then Some [] else gget m k)" "gwf m \<Longrightarrow> gwf (fold (\<lambda>n. gput n []) ns m)"
  by (induction ns arbitrary: m) auto

lemma assignSequenceNumbers_copies:
  assumes "derivedOk c" "vb_pset b = [e]" "vb_qset b = [e]" "vb_h b \<le> h" "h < h + 1" "h + 1 \<le> h + cc_L c"
    and "pq_n e = h + 1" "pq_d e \<noteq> []"
  shows "assignSequenceNumbers c (replicate (commonCaseQuorum c) b) h = Some [\<lparr>pq_n = h + 1, pq_d = pq_d e, pq_v = 0\<rparr>]"
proof -
  let ?q = "commonCaseQuorum c" let ?bs = "replicate ?q b"
  obtain j where j: "?q = Suc j" using quorum_of_copies(1) [OF assms(1)] by (cases ?q) auto
  obtain ns where ns: "word_range (h + 1) (h + cc_L c) = (h + 1) # ns" "\<forall>n \<in> set ns. h + 1 < n"
  proof -
    have "h + 1 \<in> set (word_range (h + 1) (h + cc_L c))" unfolding set_word_range using assms(6) by simp
    then obtain a ns where a: "word_range (h + 1) (h + cc_L c) = a # ns" by (metis list.set_cases)
    have d: "distinct (a # ns)" "sorted (a # ns)" "set (a # ns) = {h + 1 .. h + cc_L c}"
      using word_range_sorted [of "h + 1" "h + cc_L c"] set_word_range [of "h + 1" "h + cc_L c"] unfolding a by blast+
    have "h + 1 \<in> set (a # ns)" unfolding d(3) using assms(6) by simp
    moreover have "a \<in> {h + 1 .. h + cc_L c}" unfolding d(3) [symmetric] by simp
    ultimately have "a = h + 1" using d(2) unfolding sorted_simps(2) atLeastAtMost_iff by (metis antisym set_ConsD)
    then show thesis using that a d(1,2) unfolding distinct.simps(2) sorted_simps(2) by (metis nless_le)
  qed
  have low: "vb_h b < h + 1" using assms(4,5) by (rule order_le_less_trans)
  have "supportsP (h + 1) e b" using low unfolding supportsP_def assms(2) by simp
  moreover have "supportsQ (h + 1) e b" using assms(7) unfolding supportsQ_def assms(3) by simp
  ultimately have "List.length (filter (supportsP (h + 1) e) ?bs) = ?q" "List.length (filter (supportsQ (h + 1) e) ?bs) = ?q"
    by simp_all
  moreover have "concat (map vb_pset ?bs) = e # concat (map vb_pset (replicate j b))" using assms(2) by (simp add: j)
  ultimately have first: "selectEntry c ?bs (h + 1) = Some e"
    using quorum_of_copies(2) [OF assms(1)] assms(7) unfolding selectEntry_def by simp
  have later: "selectEntry c ?bs n = None \<and> ?q \<le> List.length (filter (supportsNull n) ?bs)" if "n \<in> set ns" for n
  proof -
    have n: "h + 1 < n" using that ns(2) by blast
    then have "vb_h b < n" using low by simp
    then have "supportsNull n b" using n assms(2,7) by (auto simp: supportsNull_def)
    moreover have "selectEntry c ?bs n = None"
    proof (cases "selectEntry c ?bs n")
      case (Some em)
      then show ?thesis using selectEntry_Some(1,2) [OF Some] assms(2,7) n by auto
    qed
    ultimately show ?thesis by simp
  qed
  define m where "m = fold (\<lambda>n. gput n []) ns (gput (h + 1) (pq_d e) gempty)"
  have loop: "assignLoop c ?bs (word_range (h + 1) (h + cc_L c)) gempty (h + 1) = Some (m, h + 1)"
    using first assignLoop_nulls [of ns c ?bs] later by (simp add: ns(1) m_def)
  define pr where "pr = gkeep (\<lambda>n d. \<not> (n \<ge> h + 1 \<and> d = [])) m"
  have "gwf m" unfolding m_def by (intro fold_gput_nulls(2)) simp
  then have "gget pr n = (if n = h + 1 then Some (pq_d e) else None)" for n
    using ns(2) assms(8) by (auto simp: pr_def gget_gkeep m_def fold_gput_nulls(1))
  moreover from this have "gsize pr = 1"
    using gsize_card [of pr] \<open>gwf m\<close> by (simp add: pr_def [symmetric] dom_def) (simp add: pr_def)
  ultimately show ?thesis using loop by (simp add: assignSequenceNumbers_def pr_def)
qed

section \<open>A new view from copies of one view change\<close>

text \<open>
  C7. A single view change decides on a new view: when the set of a new view holds a quorum of copies of one
  correctly signed view change, whoever sent it, then the check of the new view accepts it (as far as
  the status of the replica lets it in), and a backup in the view change starts from the checkpoint and the request
  that this view change alone names, whatever the other validators have prepared or committed.
\<close>

theorem copies_decide_new_view:
  assumes "derivedOk (rb_cc s)" "vc_basis vc = Some b" "verifySignedViewChange E vc (vb_replicaId b)"
    and "vb_ifRecover b \<noteq> []" "vb_ifNotRecover b \<noteq> []" "vb_cset b = [sc]" "sc_checkpoint sc = Some k"
    and "verifySignedCheckpoint E sc" "ck_Height k = h" "vb_h b \<le> h" "h < h + 1" "h + 1 \<le> h + cc_L (rb_cc s)"
    and "vb_pset b = [e]" "vb_qset b = [e]" "pq_n e = h + 1" "pq_d e \<noteq> []"
    and "nv_viewChangeSet nv = Some (replicate (commonCaseQuorum (rb_cc s)) vc)" "nv_view nv = vb_view b" "vb_view b \<noteq> 0"
    and "nv_xset nv = [\<lparr>pq_n = h + 1, pq_d = pq_d e, pq_v = 0\<rparr>]"
    and "nv_info nv = (if vc_recovery vc then vb_ifRecover b else vb_ifNotRecover b)"
    and "verifySignedNewView E nv = Some sign" "primaryOf E (nv_view nv) (nv_replicaId nv) s"
    and "cc_view (rb_cc s) = vb_view b" "ratomicIn InViewChange s" "\<not> vm_vcHandled (rb_vc s)" "\<not> ratomicIn StateTransferring s"
  shows "checkNewView E nv s = Some (acceptedNow (nv_view nv) sign s) \<and>
    replicaCheckNewView E (storeNewView nv s) = do {
       (need, t) \<leftarrow> checkIfNeedStateUpdate E (csOf k) (replicate (commonCaseQuorum (rb_cc s)) sc) (handled (storeNewView nv s));
       if need \<or> ratomicIn StateTransferring t then Some (None, t)
       else primaryCheckNewView E [\<lparr>pq_n = h + 1, pq_d = pq_d e, pq_v = 0\<rparr>] t }"
proof
  let ?q = "commonCaseQuorum (rb_cc s)"
  have q: "0 < ?q" using quorum_of_copies(1) [OF assms(1)] by simp
  have "selectValidatorDynamicInfo E (rb_cc s) (replicate ?q vc) = Some (Some (nv_info nv))"
    unfolding assms(21) using selectValidatorDynamicInfo_same [OF _ assms(4,5,1), of "replicate ?q vc" E] assms(2) q by auto
  then show "checkNewView E nv s = Some (acceptedNow (nv_view nv) sign s)"
    using assms(2,3,17-19,22,23,27) q by (auto simp: checkNewView_def primaryOf_def vcViewOf_def vcReplicaOf_def)
  have "newViewBases nv = Some (replicate ?q b)"
    using assms(2,17) those_Some [of "replicate ?q b"] by (simp add: newViewBases_def)
  moreover have "ms_height (cs_meta (csOf k)) = h" using assms(9) by (simp add: csOf_def)
  ultimately show "replicaCheckNewView E (storeNewView nv s) = do {
       (need, t) \<leftarrow> checkIfNeedStateUpdate E (csOf k) (replicate ?q sc) (handled (storeNewView nv s));
       if need \<or> ratomicIn StateTransferring t then Some (None, t)
       else primaryCheckNewView E [\<lparr>pq_n = h + 1, pq_d = pq_d e, pq_v = 0\<rparr>] t }"
    using selectInitialCheckpoint_copies [OF assms(1,6-8)] assignSequenceNumbers_copies [OF assms(1,13,14,10-12,15,16)]
      assms(9,10,20,25-27)
    by (simp add: replicaCheckNewView_def storeNewView_def handled_def sameXset_def ratomicIn_def cong: if_cong)
qed

section \<open>The recovery flag of a view change is not signed\<close>

definition flagged :: "bool \<Rightarrow> viewChange \<Rightarrow> viewChange" where
  \<comment> \<open>a view change with another recovery flag\<close>
  "flagged r vc = ViewChange (vc_basis vc) (vc_signature vc) (vc_timestamp vc) r"

lemma flagged_simps [simp]:
  "vc_basis (flagged r vc) = vc_basis vc" "vc_recovery (flagged r vc) = r" "vcViewOf (flagged r vc) = vcViewOf vc"
  "vcReplicaOf (flagged r vc) = vcReplicaOf vc" "verifySignedViewChange E (flagged r vc) i = verifySignedViewChange E vc i"
  by (simp_all add: flagged_def vcViewOf_def vcReplicaOf_def verifySignedViewChange_def)

text \<open>
  C39. The signature of a view change does not cover its recovery flag, and the flags decide which information on the
  validators a new view carries. So the sender of a new view chooses between the two that a quorum of correctly signed
  view changes agrees on: it sets all flags, or none, and the check of the new view accepts either.
\<close>

theorem recovery_flag_unsigned:
  assumes "derivedOk (rb_cc s)" "commonCaseQuorum (rb_cc s) \<le> List.length vcs"
    and "\<forall>vc \<in> set vcs. \<exists>b. vc_basis vc = Some b \<and> vb_ifRecover b = i \<and> vb_ifNotRecover b = j" "i \<noteq> []" "j \<noteq> []"
    and "\<forall>vc \<in> set vcs. vcViewOf vc = v \<and> verifySignedViewChange E vc (vcReplicaOf vc)" "v \<noteq> 0"
    and "nv_viewChangeSet nv = Some (map (flagged r) vcs)" "nv_view nv = v" "nv_info nv = (if r then i else j)"
    and "verifySignedNewView E nv = Some sign" "primaryOf E v (nv_replicaId nv) s" "\<not> ratomicIn StateTransferring s"
  shows "checkNewView E nv s = Some (acceptedNow v sign s)"
proof -
  have "0 < commonCaseQuorum (rb_cc s)" using quorum_of_copies(1) [OF assms(1)] by simp
  then have ne: "vcs \<noteq> []" using assms(2) by auto
  have "selectValidatorDynamicInfo E (rb_cc s) (map (flagged r) vcs) = Some (Some (nv_info nv))"
    using selectValidatorDynamicInfo_same [OF _ assms(4,5,1), of "map (flagged r) vcs" E] assms(2,3,10) ne
    by (cases r) (simp_all add: o_def)
  then show ?thesis using assms(6-13) ne by (auto simp: checkNewView_def primaryOf_def)
qed

definition reducedInfo :: "nodeDynamicInfo list" where
  "reducedInfo = [\<lparr>nd_id = 1, nd_power = 1, nd_reduced = True, nd_reduceView = 1\<rparr>]"

definition twoInfos :: "u64 \<Rightarrow> viewChange" where
  \<comment> \<open>the view change of a replica for which the two choices differ in the voting power of validator 1\<close>
  "twoInfos k = ViewChange (Some (VcBasis k 2 0 [] [] [sampleCheckpoint k 0] reducedInfo sampleInfo)) [] 1000 False"

definition flaggedNewView :: "bool \<Rightarrow> newView" where
  "flaggedNewView r = \<lparr>nv_replicaId = 1, nv_view = 2, nv_xset = [], nv_viewChangeSet = Some (map (flagged r) (map twoInfos [1, 2, 3])),
     nv_quorumCheckpoint = None, nv_signature = [], nv_fromId = 1, nv_autoTermUpdate = False,
     nv_info = (if r then sampleInfo else reducedInfo)\<rparr>"

section \<open>A primary that votes three times\<close>

definition copiedNewView :: newView where
  \<comment> \<open>the new view of replica 1 in which all three view changes are its own\<close>
  "copiedNewView = \<lparr>nv_replicaId = 1, nv_view = 2, nv_xset = [\<lparr>pq_n = 1, pq_d = ''d1'', pq_v = 0\<rparr>],
     nv_viewChangeSet = Some (replicate 3 (sampleVote 1)), nv_quorumCheckpoint = None, nv_signature = [],
     nv_fromId = 1, nv_autoTermUpdate = False, nv_info = sampleInfo\<rparr>"

lemma sampleFollower_facts: "derivedOk (rb_cc sampleFollower)" "commonCaseQuorum (rb_cc sampleFollower) = 3" "cc_L (rb_cc sampleFollower) = 10"
  by code_simp+

lemma copiedNewView_facts: "nv_replicaId copiedNewView = selfID sampleProposer" "verifySignedNewView sampleEnv copiedNewView = Some []"
  by code_simp+

lemma copied_follower_adopts:
  "map_option (\<lambda>(e, s). vm_vcHandled (rb_vc s) \<and> cc_view (rb_cc s) = 2)
     (replicaCheckNewView sampleEnv (storeNewView copiedNewView sampleFollower)) = Some True"
  by code_simp

theorem copies_decide_new_view_witness:
  "checkNewView sampleEnv copiedNewView sampleFollower = Some (acceptedNow 2 [] sampleFollower) \<and>
   (\<exists>need t. checkIfNeedStateUpdate sampleEnv (csOf (the (sc_checkpoint (sampleCheckpoint 1 0)))) (replicate 3 (sampleCheckpoint 1 0))
     (handled (storeNewView copiedNewView sampleFollower)) = Some (need, t))"
proof -
  define b where "b = the (vc_basis (sampleVote 1))"
  define k where "k = the (sc_checkpoint (sampleCheckpoint 1 0))"
  have b: "vc_basis (sampleVote 1) = Some b" "vb_ifRecover b \<noteq> []" "vb_ifNotRecover b \<noteq> []" "vb_cset b = [sampleCheckpoint 1 0]"
    "vb_pset b = [\<lparr>pq_n = 1, pq_d = ''d1'', pq_v = 1\<rparr>]" "vb_qset b = vb_pset b" "vb_h b = 0" "vb_view b = 2"
    "nv_info copiedNewView = (if vc_recovery (sampleVote 1) then vb_ifRecover b else vb_ifNotRecover b)"
    by (simp_all add: b_def sampleVote_def Let_def copiedNewView_def sampleInfo_def)
  have k: "sc_checkpoint (sampleCheckpoint 1 0) = Some k" "ck_Height k = 0"
    by (simp_all add: k_def sampleCheckpoint_def ck_Height_def)
  have nv: "nv_viewChangeSet copiedNewView = Some (replicate (commonCaseQuorum (rb_cc sampleFollower)) (sampleVote 1))"
    "nv_view copiedNewView = vb_view b"
    "nv_xset copiedNewView = [\<lparr>pq_n = 0 + 1, pq_d = pq_d \<lparr>pq_n = 1, pq_d = ''d1'', pq_v = 1\<rparr>, pq_v = 0\<rparr>]"
    by (simp_all add: copiedNewView_def sampleFollower_facts b(8))
  have "checkNewView sampleEnv copiedNewView sampleFollower = Some (acceptedNow (nv_view copiedNewView) [] sampleFollower) \<and>
    replicaCheckNewView sampleEnv (storeNewView copiedNewView sampleFollower) = do {
       (need, t) \<leftarrow> checkIfNeedStateUpdate sampleEnv (csOf k) (replicate (commonCaseQuorum (rb_cc sampleFollower)) (sampleCheckpoint 1 0))
         (handled (storeNewView copiedNewView sampleFollower));
       if need \<or> ratomicIn StateTransferring t then Some (None, t)
       else primaryCheckNewView sampleEnv [\<lparr>pq_n = 0 + 1, pq_d = pq_d \<lparr>pq_n = 1, pq_d = ''d1'', pq_v = 1\<rparr>, pq_v = 0\<rparr>] t }"
  proof (rule copies_decide_new_view [OF sampleFollower_facts(1) b(1) _ b(2-4) k(1) _ k(2) _ _ _ b(5)])
    show "verifySignedViewChange sampleEnv (sampleVote 1) (vb_replicaId b)" "verifySignedCheckpoint sampleEnv (sampleCheckpoint 1 0)"
      by (simp_all add: verifySignedViewChange_def verifySignedCheckpoint_def)
    show "primaryOf sampleEnv (nv_view copiedNewView) (nv_replicaId copiedNewView) sampleFollower"
      using sampleProposer_simps(6) by (simp add: copiedNewView_facts(1) nv(2) b(8))
  qed (use nv b copiedNewView_facts sampleFollower_facts(3) sampleProposer_simps in simp_all)
  moreover have x: "[\<lparr>pq_n = 0 + 1, pq_d = pq_d \<lparr>pq_n = 1, pq_d = ''d1'', pq_v = 1\<rparr>, pq_v = 0\<rparr>] = [\<lparr>pq_n = 1, pq_d = ''d1'', pq_v = 0\<rparr>]"
    by simp
  ultimately have r: "checkNewView sampleEnv copiedNewView sampleFollower = Some (acceptedNow 2 [] sampleFollower) \<and>
    replicaCheckNewView sampleEnv (storeNewView copiedNewView sampleFollower) = do {
       (need, t) \<leftarrow> checkIfNeedStateUpdate sampleEnv (csOf k) (replicate 3 (sampleCheckpoint 1 0))
         (handled (storeNewView copiedNewView sampleFollower));
       if need \<or> ratomicIn StateTransferring t then Some (None, t)
       else primaryCheckNewView sampleEnv [\<lparr>pq_n = 1, pq_d = ''d1'', pq_v = 0\<rparr>] t }"
    unfolding nv(2) b(8) sampleFollower_facts(2) x by blast
  obtain e u where "replicaCheckNewView sampleEnv (storeNewView copiedNewView sampleFollower) = Some (e, u)"
    using copied_follower_adopts by auto
  then show ?thesis using r unfolding k_def by (cases "checkIfNeedStateUpdate sampleEnv (csOf (the (sc_checkpoint (sampleCheckpoint 1 0))))
      (replicate 3 (sampleCheckpoint 1 0)) (handled (storeNewView copiedNewView sampleFollower))") auto
qed

theorem recovery_flag_unsigned_witness:
  "checkNewView sampleEnv (flaggedNewView True) sampleFollower = Some (acceptedNow 2 [] sampleFollower) \<and>
   checkNewView sampleEnv (flaggedNewView False) sampleFollower = Some (acceptedNow 2 [] sampleFollower) \<and>
   nv_info (flaggedNewView True) \<noteq> nv_info (flaggedNewView False)"
proof -
  have info: "sampleInfo \<noteq> []" "reducedInfo \<noteq> []" "sampleInfo \<noteq> reducedInfo" by (simp_all add: sampleInfo_def reducedInfo_def)
  have "checkNewView sampleEnv (flaggedNewView r) sampleFollower = Some (acceptedNow 2 [] sampleFollower)" for r
  proof (rule recovery_flag_unsigned [OF sampleFollower_facts(1) _ _ info(1,2), where vcs = "map twoInfos [1, 2, 3]" and r = r])
    show "verifySignedNewView sampleEnv (flaggedNewView r) = Some []"
      by (cases r) (simp_all add: verifySignedNewView_def flaggedNewView_def sampleEnv_def)
    show "primaryOf sampleEnv 2 (nv_replicaId (flaggedNewView r)) sampleFollower"
      using sampleProposer_simps(6) copiedNewView_facts(1) by (simp add: flaggedNewView_def copiedNewView_def)
  qed (use sampleFollower_facts(2) sampleProposer_simps in
    \<open>simp_all add: flaggedNewView_def twoInfos_def vcViewOf_def vcReplicaOf_def verifySignedViewChange_def\<close>)
  moreover have "nv_info (flaggedNewView True) \<noteq> nv_info (flaggedNewView False)" using info(3) by (simp add: flaggedNewView_def)
  ultimately show ?thesis by blast
qed

end
