(* ===== verification/Survival.thy ===== *)
theory Survival
  imports Agreement Copies
begin

text \<open>
  What a cluster has committed in a view survives the next view change: the commits of a quorum are covered
  by the P lists of its members' view changes, and the new primary's choice keeps what a quorum covers.
\<close>

section \<open>The votes over runs of the normal case\<close>

lemma votesKept_propose:
  assumes "votesKept s" "pp_view pp = view s"
    and "\<And>d'. ppOf s (view s, pp_n pp, d') \<noteq> None \<Longrightarrow> d' = pp_digest pp"
  shows "votesKept (install pp s)"
proof -
  note k = votesKeptD [OF assms(1)]
  define i where "i = (pp_view pp, pp_n pp, pp_digest pp)"
  have pp: "ppOf (install pp s) j \<noteq> None \<Longrightarrow> j = i \<or> ppOf s j \<noteq> None" for j
    by (simp add: install_facts i_def split: if_splits)
  have vc: "rb_vc (install pp s) = rb_vc s" "sentCommits (install pp s) = sentCommits s" "sentBases (install pp s) = sentBases s"
    by (simp_all add: install_def getCert_cc modCert_cc)
  have prep: "prepared j (install pp s)" if p: "prepared j s" for j
  proof -
    obtain c where "rcert j s = Some c" "int (commonCaseQuorum (rb_cc s)) - 1 \<le> int (gsize (mc_prepare c))" "prePrepared j s"
      using p by (elim preparedE)
    then show ?thesis by (cases j) (auto simp: prepared_def prePrepared_def install_facts)
  qed
  have "plistOk (install pp s)"
    unfolding plistOk_def vc install_facts(6)
  proof (intro allI impI)
    fix n e assume "gget (vm_plist (rb_vc s)) n = Some e"
    then have e: "pq_n e = n" "pq_v e < view s" "\<And>idx. ppOf s idx \<noteq> None \<Longrightarrow> pq_v e < fst idx"
      using k(1) unfolding plistOk_def by blast+
    have "pq_v e < fst idx" if "ppOf (install pp s) idx \<noteq> None" for idx
    proof (cases "idx = i")
      case True
      then show ?thesis using e(2) assms(2) by (simp add: i_def)
    next
      case False
      then show ?thesis using pp [OF that] e(3) by blast
    qed
    then show "pq_n e = n \<and> pq_v e < view s \<and> (\<forall>idx. ppOf (install pp s) idx \<noteq> None \<longrightarrow> pq_v e < fst idx)"
      using e by blast
  qed
  moreover have "oneDigest (install pp s)"
    unfolding oneDigest_def
  proof (intro allI impI)
    fix v n d d' assume two: "ppOf (install pp s) (v, n, d) \<noteq> None" "ppOf (install pp s) (v, n, d') \<noteq> None"
    note o = two [THEN pp]
    show "d = d'"
    proof (cases "(v, n) = (view s, pp_n pp)")
      case True
      then have "d = pp_digest pp" "d' = pp_digest pp" using o assms(3) unfolding i_def by blast+
      then show ?thesis by simp
    next
      case False
      then have "ppOf s (v, n, d) \<noteq> None" "ppOf s (v, n, d') \<noteq> None" using o assms(2) unfolding i_def by blast+
      then show ?thesis using k(2) unfolding oneDigest_def by blast
    qed
  qed
  moreover have "fst idx \<le> view s" if "ppOf (install pp s) idx \<noteq> None" for idx
  proof (cases "idx = i")
    case True
    then show ?thesis using assms(2) by (simp add: i_def)
  next
    case False
    then show ?thesis using pp [OF that] k(3) by blast
  qed
  moreover have "gwf (sm_certStore (rb_store (install pp s)))" using k(4) by (simp add: install_def)
  moreover have "kept (install pp s) c" if "kept s c" for c
    using that prep by (auto simp: kept_def vc install_facts)
  ultimately show ?thesis
    using k(5-9) by (auto simp: votesKept_def vc install_facts(6) selfID_def install_facts(4) simp del: split_paired_All)
qed

lemma install_votes:
  assumes "normalOk s" "votesKept s" "pp_view pp = view s" "gget (sm_seqMap (rb_store s)) (pp_n pp) \<in> {None, Some (pp_digest pp)}"
  shows "votesKept (install pp s)"
proof (rule votesKept_propose [OF assms(2,3)])
  fix d' assume "ppOf s (view s, pp_n pp, d') \<noteq> None"
  then obtain p where "ppOf s (view s, pp_n pp, d') = Some p" by blast
  then show "d' = pp_digest pp" using normalOkD(3) [OF assms(1)] assms(4) by fastforce
qed

lemma sendPrePrepare_votes:
  assumes "normalOk s" "votesKept s" "isPrimary (selfID s) s" "bm_seqNo (rb_batch s) < n"
  shows "votesKept (sendPrePrepare n d b s)"
proof -
  obtain pp isConfig where f: "pp_view pp = view s" "pp_n pp = n" "pp_digest pp = d"
    and q: "quiet (rb_batch_update (bm_seqNo_update (\<lambda>_. n)) (modCert (view s, n, d) (\<lambda>c. c\<lparr>mc_isConfig := isConfig\<rparr>) (install pp s)))
       (sendPrePrepare n d b s)"
    by (rule sendPrePrepare_parts)
  have "votesKept (install pp s)"
  proof (rule votesKept_propose [OF assms(2) f(1)])
    fix d' assume "ppOf s (view s, pp_n pp, d') \<noteq> None"
    then obtain p where "ppOf s (view s, n, d') = Some p" unfolding f by blast
    then show "d' = pp_digest pp" using normalOkD(4) [OF assms(1,3)] assms(4) by fastforce
  qed
  moreover have "evolves (install pp s) (modCert (view s, n, d) (\<lambda>c. c\<lparr>mc_isConfig := isConfig\<rparr>) (install pp s))"
    by (rule modCert_evolves) simp_all
  ultimately have "votesKept (modCert (view s, n, d) (\<lambda>c. c\<lparr>mc_isConfig := isConfig\<rparr>) (install pp s))"
    using evolvesD(6) by blast
  then have "votesKept (rb_batch_update (bm_seqNo_update (\<lambda>_. n)) (modCert (view s, n, d) (\<lambda>c. c\<lparr>mc_isConfig := isConfig\<rparr>) (install pp s)))"
    by (rule votesKept_same) (simp_all add: sameVotes_def selfID_def view_def)
  then show ?thesis using quiet_votes [OF q] by blast
qed

interpretation votes: proposal_invariant "\<lambda>s. normalOk s \<and> votesKept s"
  by unfold_locales (use quiet_normalOk quiet_votes sendPrePrepare_normalOk sendPrePrepare_votes in blast)+

lemma recvPrePrepare_votes:
  assumes "recvPrePrepare E pp s = Some s'" "normalOk s" "votesKept s" "view s \<noteq> - 1"
  shows "votesKept s'"
  using recvPrePrepare_cases [OF assms(1,4)]
proof (elim disjE conjE exE)
  fix t assume acc: "accepted E pp s" and q: "quiet s t" and e: "evolves (install pp t) s'"
  have seq: "gget (sm_seqMap (rb_store t)) (pp_n pp) \<in> {None, Some (pp_digest pp)}" "pp_view pp = view t"
    using acc q isPrePrepareLegalD [of pp s] by (simp_all add: accepted_def quiet_def sameFrame_def)
  have t: "normalOk t" "votesKept t" using votes.keep_quiet [OF q] assms(2,3) by blast+
  show ?thesis using evolvesD(6) [OF e] install_votes [OF t seq(2,1)] by blast
qed (use evolvesD(6) assms(3) in blast)

lemma normalStep_votes:
  assumes "normalStep E s t" "normalOk s" "votesKept s" "view s \<noteq> - 1"
  shows "votesKept t"
  using assms(1)
proof cases
  case (prePrepare pp)
  then show ?thesis using recvPrePrepare_votes assms(2-4) by blast
next
  case (batch ob)
  then show ?thesis using votes.keep_requestBatch assms(2,3) by blast
qed (use assms(2-4) recvPrepare_evolves recvCommit_evolves recvFetchMissingResponse_evolves recvNullRequest_evolves
  evolvesD(6) in blast)+

definition freshStart :: "'p replica \<Rightarrow> bool" where
  \<comment> \<open>a replica without certificates that has sent nothing, with a P list of lower views at most\<close>
  "freshStart s = (sm_certStore (rb_store s) = gempty \<and> sentCommits s = [] \<and> sentBases s = [] \<and>
     (\<forall>x \<in> set (vm_plist (rb_vc s)). pq_n (snd x) = fst x \<and> pq_v (snd x) < view s))"

lemma normalReach_votes:
  assumes "normalReach E s0 s" "freshStart s0"
  shows "votesKept s"
proof -
  have e: "sm_certStore (rb_store s0) = gempty" using assms(2) by (simp add: freshStart_def)
  from assms(1) show ?thesis
  proof induction
    case start
    have "gget (vm_plist (rb_vc s0)) n = Some x \<Longrightarrow> pq_n x = n \<and> pq_v x < view s0" for n x
      using assms(2) map_of_SomeD [of "vm_plist (rb_vc s0)" n x] by (fastforce simp: freshStart_def gget_def)
    then show ?case using assms(2)
      by (simp add: votesKept_def freshStart_def plistOk_def oneDigest_def ppOf_def rcert_def)
  next
    case (step s t)
    then show ?case using normalStep_votes normalReach_normalOk [OF step(1) e] by blast
  qed
qed

section \<open>The next view\<close>

definition viewChanges :: "u64 set \<Rightarrow> u64 set \<Rightarrow> (u64 \<Rightarrow> 'p replica) \<Rightarrow> u64 \<Rightarrow> vcBasis list \<Rightarrow> bool" where
  \<comment> \<open>view changes for view \<open>w\<close> of different validators that pass the check of \<open>recvViewChange\<close>; those in the
     name of a replica of \<open>H\<close> were sent by it\<close>
  "viewChanges V H S w bs = (distinct (map vb_replicaId bs) \<and> (\<forall>b \<in> set bs.
     vb_replicaId b \<in> V \<and> vb_view b = w \<and> correctViewChange b = Some True \<and>
     (vb_replicaId b \<in> H \<longrightarrow> b \<in> set (sentBases (S (vb_replicaId b))))))"

lemma correctViewChange_entry:
  assumes "correctViewChange b = Some True" "e \<in> set (vb_pset b)"
  shows "pq_v e < vb_view b"
  using assms by (auto simp: correctViewChange_def split: if_splits)

lemma word_less_succ: "a < v + 1 \<Longrightarrow> v \<noteq> - 1 \<Longrightarrow> a \<le> (v :: u64)"
  by (metis add.commute leD not_less word_le_less_eq word_less_nat_alt unatSuc less_Suc_eq_le add_eq_0_iff word_le_nat_alt)

lemma word_above_succ: "\<not> n \<le> h \<Longrightarrow> h + 1 \<le> (n :: u64)"
  by (simp add: inc_le not_le)

lemma covers_holdsBack:
  assumes "covers b m" "(cm_view m, cm_n m, cm_digest m) = (v, n, d)" "correctViewChange b = Some True" "vb_view b = v + 1" "v \<noteq> - 1"
  shows "holdsBack n d v b"
proof -
  have "pq_v e \<le> v" if "e \<in> set (vb_pset b)" for e
    using correctViewChange_entry [OF assms(3) that] assms(4,5) word_less_succ by simp
  then show ?thesis
    using assms(1,2) by (fastforce simp: covers_def holdsBack_def lockedIn_def higherEntry_def)
qed

lemma few_free:
  assumes "finite V" "distinct (map g bs)" "\<forall>b \<in> set bs. g b \<in> V" "\<forall>b \<in> set bs. g b \<in> A \<longrightarrow> P b" "A \<subseteq> V"
  shows "List.length bs - List.length (filter P bs) \<le> card V - card A"
proof -
  define fs where "fs = filter (\<lambda>b. \<not> P b) bs"
  have "List.length bs - List.length (filter P bs) = List.length fs"
    using sum_length_filter_compl [of P bs] by (simp add: fs_def)
  also have "\<dots> = card (g ` set fs)"
    using assms(2) by (metis distinct_card distinct_map_filter fs_def length_map list.set_map)
  also have "\<dots> \<le> card (V - A)"
    using assms(1,3,4) by (intro card_mono) (auto simp: fs_def)
  also have "\<dots> = card V - card A" using assms(1,5) by (simp add: card_Diff_subset finite_subset)
  finally show ?thesis .
qed

text \<open>If a validator that follows the code holds a committed certificate for a batch in view \<open>v\<close>, then the
  numbers assigned from any correct view changes of different validators for view \<open>v + 1\<close> give the height to
  this very batch. Every other validator follows the normal case, in any order of messages and with view
  changes of its own, but for at most \<open>F\<close> that may send anything.\<close>

lemma committed_stays_assigned:
  assumes "cluster E V H S0 S" "authentic V H S" "\<forall>j \<in> H. freshStart (S0 j)"
    and "i \<in> H" "committed (v, n, d) (S i)" "d \<noteq> []" "v \<noteq> - 1"
    and "viewChanges V H S (v + 1) bs"
    and "derivedOk c" "cc_N c = card V" "assignSequenceNumbers c bs h = Some xs" "h + 1 \<le> n" "n \<le> h + cc_L c"
  shows "\<exists>x \<in> set xs. pq_n x = n \<and> pq_d x = d"
proof -
  obtain A where A: "A \<subseteq> V" "commonCaseQuorum (rb_cc (S i)) \<le> card A"
    "\<forall>j \<in> A \<inter> H. \<exists>m \<in> set (sentCommits (S j)). (cm_view m, cm_n m, cm_digest m) = (v, n, d)"
    using committed_senders [OF assms(1,2,4,5)] by blast
  have cl: "finite V" "H \<subseteq> V" "derivedOk (rb_cc (S i))" "cc_N (rb_cc (S i)) = card V" "card (V - H) \<le> cc_F (rb_cc (S i))"
    using assms(1,4) by (auto simp: cluster_def)
  have vcs: "distinct (map vb_replicaId bs)" "\<forall>b \<in> set bs. vb_replicaId b \<in> V"
    "\<And>b. b \<in> set bs \<Longrightarrow> vb_view b = v + 1 \<and> correctViewChange b = Some True"
    "\<And>b. b \<in> set bs \<Longrightarrow> vb_replicaId b \<in> H \<Longrightarrow> b \<in> set (sentBases (S (vb_replicaId b)))"
    using assms(8) by (simp_all add: viewChanges_def)
  have "holdsBack n d v b" if b: "b \<in> set bs" "vb_replicaId b \<in> A \<inter> H" for b
  proof -
    define j where "j = vb_replicaId b"
    obtain m where m: "m \<in> set (sentCommits (S j))" "(cm_view m, cm_n m, cm_digest m) = (v, n, d)"
      using A(3) b(2) unfolding j_def by blast
    have "votesKept (S j)"
      using assms(1,3) b(2) normalReach_votes [of "E j" "S0 j" "S j"] by (simp add: cluster_def j_def)
    then have "cm_view m < vb_view b \<Longrightarrow> covers b m" using votesKeptD(9) vcs(4) [OF b(1)] b(2) m(1) by (simp add: j_def)
    then have "covers b m" using vcs(3) [OF b(1)] m(2) word_succ_less [OF assms(7)] by simp
    then show ?thesis using covers_holdsBack m(2) vcs(3) [OF b(1)] assms(7) by blast
  qed
  then have "List.length bs - List.length (filter (holdsBack n d v) bs) \<le> card V - card (A \<inter> H)"
    using few_free [OF cl(1) vcs(1,2), of "A \<inter> H"] A(1) by blast
  moreover have "card A \<le> card (A \<inter> H) + card (V - H)"
  proof -
    have "A \<subseteq> (A \<inter> H) \<union> (V - H)" using A(1) by blast
    then have "card A \<le> card ((A \<inter> H) \<union> (V - H))" using cl(1) A(1) by (meson card_mono finite_Diff finite_Int finite_UnI finite_subset)
    then show ?thesis using card_Un_le le_trans by blast
  qed
  moreover have "card (A \<inter> H) \<le> card V" using cl(1,2) by (meson card_mono inf_le2 order_trans)
  moreover have "commonCaseQuorum (rb_cc (S i)) = commonCaseQuorum c"
    using cl(3,4) assms(9,10) by (simp add: derivedOk_def commonCaseQuorum_def)
  ultimately have "List.length bs - List.length (filter (holdsBack n d v) bs) < commonCaseQuorum c"
    using A(2) cl(4,5) ccq.quorum_large [OF cl(3)] by linarith
  moreover have "\<forall>m \<in> set bs. \<forall>e \<in> set (vb_pset m). pq_n e = n \<and> pq_d e \<noteq> d \<longrightarrow> pq_v e \<le> v"
    using correctViewChange_entry vcs(3) word_less_succ assms(7) by metis
  ultimately show ?thesis using assign_keeps_locked [OF assms(11-13,6)] by blast
qed

definition trueVotes :: "u64 set \<Rightarrow> u64 set \<Rightarrow> (u64 \<Rightarrow> 'p replica) \<Rightarrow> viewChange list \<Rightarrow> bool" where
  \<comment> \<open>the view changes are from validators, and those in the name of a replica of \<open>H\<close> were sent by it\<close>
  "trueVotes V H S vcs = (\<forall>vc \<in> set vcs. \<forall>b. vc_basis vc = Some b \<longrightarrow> vb_replicaId b \<in> V \<and>
     (vb_replicaId b \<in> H \<longrightarrow> b \<in> set (sentBases (S (vb_replicaId b)))))"

lemma those_map_Some: "those (map f xs) = Some ys \<Longrightarrow> map f xs = map Some ys"
  by (induction xs arbitrary: ys) (auto split: option.splits)

lemma stored_viewChanges:
  assumes "vcStoreOk p" "trueVotes V H S (currentVC p)" "those (map vc_basis (currentVC p)) = Some bs"
  shows "viewChanges V H S (cc_view (rb_cc p)) bs"
proof -
  have m: "map vc_basis (currentVC p) = map Some bs" using those_map_Some [OF assms(3)] .
  then have "map vcSender (currentVC p) = map vb_replicaId bs"
    by (simp add: list_eq_iff_nth_eq vcSender_def split: option.split)
  moreover have "\<exists>vc \<in> set (currentVC p). vc_basis vc = Some b" if "b \<in> set bs" for b
    using m that by (metis (no_types, lifting) imageE image_eqI list.set_map)
  ultimately show ?thesis
    using currentVC_distinct [OF assms(1)] currentVC_correct [OF assms(1)] assms(2)
    by (fastforce simp: viewChanges_def trueVotes_def vcView_def)
qed

text \<open>
  C2. What is committed survives the next view change. Let a validator that follows the code hold a committed
  certificate for a batch in view \<open>v\<close>. Then the new view that the primary of \<open>v + 1\<close> makes and broadcasts from the
  view changes it stored (under the invariant \<open>vcStoreOk\<close> that receiving them keeps) gives the height to this very batch,
  unless the height is at or below the initial checkpoint, which a quorum has passed, or beyond the
  window of the log. At most \<open>F\<close> validators may send anything; the others follow the normal case and send
  view changes of their own, in any order, and no commit or view change in their names is forged.
\<close>

theorem committed_survives_view_change:
  assumes "cluster E V H S0 S" "authentic V H S" "\<forall>j \<in> H. freshStart (S0 j)"
    and "i \<in> H" "committed (v, n, d) (S i)" "d \<noteq> []" "v \<noteq> - 1"
    and "vcStoreOk p" "cc_view (rb_cc p) = v + 1" "trueVotes V H S (currentVC p)"
    and "derivedOk (rb_cc p)" "cc_N (rb_cc p) = card V"
    and "proposal E' p = Some (nv, cs, cset)" "\<not> ghas (vm_newViewStore (rb_vc p)) (v + 1)"
  shows "sendNewView E' p = do {
       (need, s) \<leftarrow> checkIfNeedStateUpdate E' cs cset p;
       if need \<or> ratomicIn StateTransferring s then Some (None, s)
       else primaryCheckNewView E' (nv_xset nv) (storeNewView nv (broadcast (MNewView nv) s)) }
    \<and> (n \<le> ms_height (cs_meta cs) \<or> ms_height (cs_meta cs) + cc_L (rb_cc p) < n \<or>
       (\<exists>x \<in> set (nv_xset nv). pq_n x = n \<and> pq_d x = d))"
proof (rule conjI [OF sendNewView_proposal [OF assms(13)]])
  show "\<not> ghas (vm_newViewStore (rb_vc p)) (cc_view (rb_cc p))" using assms(9,14) by simp
  obtain bs info msgs sig where pr: "those (map vc_basis (currentVC p)) = Some bs"
    "assignSequenceNumbers (rb_cc p) bs (ms_height (cs_meta cs)) = Some msgs"
    "nv = (buildNewView E' info cs msgs p)\<lparr>nv_signature := sig\<rparr>"
    by (rule proposalE [OF assms(13)])
  then have "nv_xset nv = msgs" by (simp add: buildNewView_def)
  moreover have "viewChanges V H S (v + 1) bs" using stored_viewChanges [OF assms(8,10) pr(1)] assms(9) by simp
  ultimately show "n \<le> ms_height (cs_meta cs) \<or> ms_height (cs_meta cs) + cc_L (rb_cc p) < n \<or>
       (\<exists>x \<in> set (nv_xset nv). pq_n x = n \<and> pq_d x = d)"
    using committed_stays_assigned [OF assms(1-7) _ assms(11,12) pr(2)] \<open>nv_xset nv = msgs\<close> word_above_succ [of n "ms_height (cs_meta cs)"]
      not_less [of "ms_height (cs_meta cs) + cc_L (rb_cc p)" n] by blast
qed

text \<open>
  C3. A backup goes on with a new view of whatever primary only if it keeps what is committed: when the view
  changes in it are correct and of different validators, the backup either asks for another view change or the
  new view gives the height of a batch committed in the view before to this batch (unless the height
  is at or below the initial checkpoint or beyond the window of the log).
\<close>

theorem backup_keeps_committed:
  assumes "cluster E V H S0 S" "authentic V H S" "\<forall>j \<in> H. freshStart (S0 j)"
    and "i \<in> H" "committed (v, n, d) (S i)" "d \<noteq> []" "v \<noteq> - 1"
    and "gget (vm_newViewStore (rb_vc b)) (cc_view (rb_cc b)) = Some nv" "newViewBases nv = Some bs"
    and "viewChanges V H S (v + 1) bs" "derivedOk (rb_cc b)" "cc_N (rb_cc b) = card V"
    and "ratomicIn InViewChange b" "\<not> vm_vcHandled (rb_vc b)" "selectInitialCheckpoint E' (rb_cc b) bs = Some (cs, cset)"
  shows "replicaCheckNewView E' b = sendViewChange E' False b \<or>
    n \<le> ms_height (cs_meta cs) \<or> ms_height (cs_meta cs) + cc_L (rb_cc b) < n \<or>
    (\<exists>x \<in> set (nv_xset nv). pq_n x = n \<and> pq_d x = d)"
proof (cases "assignSequenceNumbers (rb_cc b) bs (ms_height (cs_meta cs))")
  case None
  then show ?thesis using assms(8,9,13-15) by (simp add: replicaCheckNewView_def)
next
  case (Some msgs)
  show ?thesis
  proof (cases "sameXset msgs (nv_xset nv)")
    case False
    then show ?thesis using Some assms(8,9,13-15) by (simp add: replicaCheckNewView_def)
  next
    case True
    have "\<exists>y \<in> set (nv_xset nv). pq_n y = pq_n x \<and> pq_d y = pq_d x" if "x \<in> set msgs" for x
    proof -
      have "(pq_n x, pq_d x) \<in> (\<lambda>m. (pq_n m, pq_d m)) ` set (nv_xset nv)"
        using True that unfolding sameXset_def by (metis (no_types, lifting) image_eqI list.set_map)
      then show ?thesis by auto
    qed
    then show ?thesis
      using committed_stays_assigned [OF assms(1-7,10-12) Some] word_above_succ [of n "ms_height (cs_meta cs)"]
      not_less [of "ms_height (cs_meta cs) + cc_L (rb_cc b)" n] by blast
  qed
qed

section \<open>A view change in the cluster of four\<close>

definition votingNode :: "u64 \<Rightarrow> unit replica" where
  \<comment> \<open>replica \<open>i\<close> of the cluster in view 1, with the checkpoint of the genesis block\<close>
  "votingNode i = rb_store_update (sm_localCheckpoints_update (gput 0 (sampleCheckpoint i 0))) (sampleNode i)"

definition sampleDigest :: string where
  "sampleDigest = calculateMD5Hash sampleEnv [''t''] 5"

definition sampleProposal :: prePrepare where
  "sampleProposal = samplePrePrepare\<lparr>pp_digest := sampleDigest,
     pp_hashBatch := Some \<lparr>hb_hashes = [''t''], hb_deDuplicate = [], hb_timestamp = 5, hb_proposer = 2\<rparr>\<rparr>"

definition commitFor :: "u64 \<Rightarrow> commit" where
  "commitFor i = \<lparr>cm_replicaId = i, cm_view = 1, cm_n = 1, cm_digest = sampleDigest\<rparr>"

definition prepareFor :: "u64 \<Rightarrow> prepare" where
  "prepareFor i = \<lparr>pr_replicaId = i, pr_view = 1, pr_n = 1, pr_digest = sampleDigest\<rparr>"

definition badProposal :: prePrepare where
  \<comment> \<open>the primary contradicts itself, on which the backups send view changes\<close>
  "badProposal = sampleProposal\<lparr>pp_digest := []\<rparr>"

definition preparingRun :: "u64 \<Rightarrow> u64 \<Rightarrow> unit replica option" where
  "preparingRun i j = do { s1 \<leftarrow> recvPrePrepare sampleEnv sampleProposal (votingNode i); s1 \<leftarrow> inViewOne s1;
     s2 \<leftarrow> recvPrepare sampleEnv (prepareFor j) s1; inViewOne s2 }"

definition committingRun :: "u64 \<Rightarrow> u64 \<Rightarrow> unit replica option" where
  "committingRun i j = do { s2 \<leftarrow> preparingRun i j; s3 \<leftarrow> recvCommit sampleEnv (commitFor 2) s2; s3 \<leftarrow> inViewOne s3;
     recvCommit sampleEnv (commitFor j) s3 }"

definition leavingRun :: "u64 \<Rightarrow> u64 \<Rightarrow> unit replica option" where
  "leavingRun i j = do { s2 \<leftarrow> preparingRun i j; recvPrePrepare sampleEnv badProposal s2 }"

definition votedInfo :: "bool \<Rightarrow> nodeDynamicInfo list" where
  \<comment> \<open>the powers of the validators without and with recovery, after two primaries failed\<close>
  "votedInfo recover = (let slow = (\<lambda>k r. \<lparr>nd_id = k, nd_power = 1, nd_reduced = True, nd_reduceView = r\<rparr>);
       full = (\<lambda>k. \<lparr>nd_id = k, nd_power = 1000, nd_reduced = False, nd_reduceView = 0\<rparr>)
     in [slow 1 0, if recover then full 2 else slow 2 1, full 3, full 4])"

definition basisWith :: "vcPq list \<Rightarrow> u64 \<Rightarrow> vcBasis" where
  "basisWith locks i = VcBasis i 2 0 locks locks [sampleCheckpoint i 0] (votedInfo False) (votedInfo True)"

definition leftBasis :: "u64 \<Rightarrow> vcBasis" where
  \<comment> \<open>what a prepared backup says on leaving view 1\<close>
  "leftBasis = basisWith [\<lparr>pq_n = 1, pq_d = sampleDigest, pq_v = 1\<rparr>]"

definition sampleBasisSet :: "vcBasis list" where
  \<comment> \<open>validator 2 claims to have prepared nothing\<close>
  "sampleBasisSet = [basisWith [] 2, leftBasis 3, leftBasis 4]"

definition committingEnd :: "unit replica \<Rightarrow> u64 \<Rightarrow> u64 \<Rightarrow> bool" where
  "committingEnd s i j = (committed (1, 1, sampleDigest) s \<and> sentCommits s = [commitFor i] \<and> derivedOk (rb_cc s) \<and>
     cc_N (rb_cc s) = 4 \<and> cc_F (rb_cc s) = 1 \<and>
     map (\<lambda>(k, c). map snd (mc_commit c)) (sm_certStore (rb_store s)) = [[commitFor i, commitFor 2, commitFor j]])"

definition leavingEnd :: "unit replica \<Rightarrow> u64 \<Rightarrow> bool" where
  "leavingEnd s i = (sentCommits s = [commitFor i] \<and> sentBases s = [leftBasis i] \<and> derivedOk (rb_cc s) \<and>
     cc_N (rb_cc s) = 4 \<and> cc_F (rb_cc s) = 1 \<and> sm_certStore (rb_store s) = [])"

lemma committingRun_end: "map_option (\<lambda>s. committingEnd s 1 3) (committingRun 1 3) = Some True"
  by code_simp

lemma leavingRun_end3: "map_option (\<lambda>s. leavingEnd s 3) (leavingRun 3 1) = Some True"
  by code_simp

lemma leavingRun_end4: "map_option (\<lambda>s. leavingEnd s 4) (leavingRun 4 1) = Some True"
  by code_simp

lemma preparingRun_reach:
  assumes "preparingRun i j = Some s"
  shows "normalReach sampleEnv (votingNode i) s \<and> view s = 1"
proof -
  obtain s1 where s1: "recvPrePrepare sampleEnv sampleProposal (votingNode i) = Some s1" "view s1 = 1"
    and s: "recvPrepare sampleEnv (prepareFor j) s1 = Some s" "view s = 1"
    using assms by (auto simp: preparingRun_def inViewOne_def bind_eq_Some_conv split: if_splits)
  have "view (votingNode i) \<noteq> - 1" by (simp add: votingNode_def sampleNode_def view_def)
  then have "normalReach sampleEnv (votingNode i) s1"
    using normalReach.step [OF normalReach.start _ normalStep.prePrepare [OF s1(1)]] by blast
  then have "normalReach sampleEnv (votingNode i) s"
    by (rule normalReach.step [OF _ _ normalStep.prepare [OF s(1)]]) (simp add: s1)
  then show ?thesis using s(2) by blast
qed

lemma committingRun_reach:
  assumes "map_option (\<lambda>s. committingEnd s i j) (committingRun i j) = Some True"
  shows "\<exists>s. normalReach sampleEnv (votingNode i) s \<and> committingEnd s i j"
proof -
  obtain s2 s3 s where s2: "preparingRun i j = Some s2"
    and s3: "recvCommit sampleEnv (commitFor 2) s2 = Some s3" "view s3 = 1"
    and s: "recvCommit sampleEnv (commitFor j) s3 = Some s" "committingEnd s i j"
    using assms by (auto simp: committingRun_def inViewOne_def bind_eq_Some_conv split: if_splits)
  have "normalReach sampleEnv (votingNode i) s3"
    by (rule normalReach.step [OF _ _ normalStep.commit [OF s3(1)]]) (use preparingRun_reach [OF s2] in simp_all)
  then have "normalReach sampleEnv (votingNode i) s"
    by (rule normalReach.step [OF _ _ normalStep.commit [OF s(1)]]) (simp add: s3)
  then show ?thesis using s(2) by blast
qed

lemma leavingRun_reach:
  assumes "map_option (\<lambda>s. leavingEnd s i) (leavingRun i j) = Some True"
  shows "\<exists>s. normalReach sampleEnv (votingNode i) s \<and> leavingEnd s i"
proof -
  obtain s2 s where s2: "preparingRun i j = Some s2"
    and s: "recvPrePrepare sampleEnv badProposal s2 = Some s" "leavingEnd s i"
    using assms by (auto simp: leavingRun_def bind_eq_Some_conv split: if_splits)
  have "normalReach sampleEnv (votingNode i) s"
    by (rule normalReach.step [OF _ _ normalStep.prePrepare [OF s(1)]]) (use preparingRun_reach [OF s2] in simp_all)
  then show ?thesis using s(2) by blast
qed

lemma votingNode_fresh: "freshStart (votingNode i)"
  by (simp add: freshStart_def votingNode_def sampleNode_def sampleReplica_def sentBases_def sentCommits_def
      List.map_filter_def newVcManager_def newStoreMgr_def gempty_def)

definition newPrimary :: "unit replica" where
  \<comment> \<open>replica 3 in view 2 with the view changes of replicas 2, 3 and 4\<close>
  "newPrimary = rb_vc_update (vm_viewChangeStore_update (\<lambda>_. map (\<lambda>b. ((2, vb_replicaId b), ViewChange (Some b) [] 0 False)) sampleBasisSet))
     (raOn InViewChange (roff Normal (rb_cc_update (\<lambda>c. c\<lparr>cc_view := 2, cc_primaryID := 3\<rparr>) (votingNode 3))))"

lemma newPrimary_facts: "derivedOk (rb_cc newPrimary)" "cc_N (rb_cc newPrimary) = 4" "cc_L (rb_cc newPrimary) = 10"
  "cc_view (rb_cc newPrimary) = 2" "\<not> ghas (vm_newViewStore (rb_vc newPrimary)) 2"
  by code_simp+

lemma newPrimary_proposal:
  "map_option (\<lambda>(nv, cs, cset). map pq_d (nv_xset nv) = [sampleDigest] \<and> ms_height (cs_meta cs) = 0) (proposal sampleEnv newPrimary) = Some True"
  by code_simp

lemma sampleBasisSet_facts: "\<forall>b \<in> set sampleBasisSet. vb_view b = 2 \<and> correctViewChange b = Some True"
  "map vb_replicaId sampleBasisSet = [2, 3, 4]"
  by code_simp+

lemma newPrimary_store: "vcStoreOk newPrimary" "map vc_basis (currentVC newPrimary) = map Some sampleBasisSet"
proof -
  have "distinct (map (\<lambda>b. (2 :: u64, vb_replicaId b)) sampleBasisSet)"
    using sampleBasisSet_facts(2) by (auto simp: sampleBasisSet_def)
  then show "vcStoreOk newPrimary"
    using sampleBasisSet_facts(1) by (simp add: vcStoreOk_def newPrimary_def gwf_def o_def)
  show "map vc_basis (currentVC newPrimary) = map Some sampleBasisSet"
    using sampleBasisSet_facts(1) by (simp add: newPrimary_def currentVC_def o_def filter_map votingNode_def sampleNode_def)
qed

lemma sample_cluster:
  "\<exists>S. cluster (\<lambda>_. sampleEnv) {1, 2, 3, 4} {1, 3, 4} votingNode S \<and> authentic {1, 2, 3, 4} {1, 3, 4} S \<and>
     committed (1, 1, sampleDigest) (S 1) \<and> sentBases (S 3) = [leftBasis 3] \<and> sentBases (S 4) = [leftBasis 4]"
proof -
  obtain s1 s3 s4 where s: "normalReach sampleEnv (votingNode 1) s1" "committingEnd s1 1 3"
    "normalReach sampleEnv (votingNode 3) s3" "leavingEnd s3 3"
    "normalReach sampleEnv (votingNode 4) s4" "leavingEnd s4 4"
    using committingRun_end [THEN committingRun_reach] leavingRun_end3 [THEN leavingRun_reach]
      leavingRun_end4 [THEN leavingRun_reach] by blast
  define S where "S = (\<lambda>i :: u64. if i = 1 then s1 else if i = 3 then s3 else s4)"
  have S: "S 1 = s1" "S 3 = s3" "S 4 = s4" by (simp_all add: S_def)
  have "{1, 2, 3, 4} - {1, 3, 4} = {2 :: u64}" by auto
  then have "cluster (\<lambda>_. sampleEnv) {1, 2, 3, 4} {1, 3, 4} votingNode S"
    using s votingNode_fresh by (simp add: cluster_def S committingEnd_def leavingEnd_def freshStart_def)
  moreover have "authentic {1, 2, 3, 4} {1, 3, 4} S"
    using s(2,4,6) by (auto simp: authentic_def S committingEnd_def leavingEnd_def commitFor_def case_prod_unfold)
  ultimately show ?thesis using s by (intro exI [of _ S]) (simp add: S committingEnd_def leavingEnd_def)
qed

lemma sample_votes:
  assumes "sentBases (S 3) = [leftBasis 3]" "sentBases (S 4) = [leftBasis 4]"
  shows "viewChanges {1, 2, 3, 4} {1, 3, 4} S 2 sampleBasisSet"
proof -
  have "vb_replicaId (leftBasis j) = j" "vb_replicaId (basisWith [] j) = j" for j
    by (simp_all add: leftBasis_def basisWith_def)
  then show ?thesis
    using assms sampleBasisSet_facts by (simp add: viewChanges_def sampleBasisSet_def)
qed

lemma sampleDigest_nonempty: "sampleDigest \<noteq> []"
  by code_simp

theorem committed_survives_view_change_witness:
  "\<exists>S nv cs cset. cluster (\<lambda>_. sampleEnv) {1, 2, 3, 4} {1, 3, 4} votingNode S \<and> committed (1, 1, sampleDigest) (S 1) \<and>
     proposal sampleEnv newPrimary = Some (nv, cs, cset) \<and> ms_height (cs_meta cs) = 0 \<and>
     (\<exists>x \<in> set (nv_xset nv). pq_n x = 1 \<and> pq_d x = sampleDigest)"
proof -
  obtain S where S: "cluster (\<lambda>_. sampleEnv) {1, 2, 3, 4} {1, 3, 4} votingNode S" "authentic {1, 2, 3, 4} {1, 3, 4} S"
    "committed (1, 1, sampleDigest) (S 1)" "sentBases (S 3) = [leftBasis 3]" "sentBases (S 4) = [leftBasis 4]"
    using sample_cluster by blast
  obtain nv cs cset where p: "proposal sampleEnv newPrimary = Some (nv, cs, cset)" "ms_height (cs_meta cs) = 0"
    using newPrimary_proposal by auto
  have "\<exists>b \<in> set sampleBasisSet. vc_basis vc = Some b" if "vc \<in> set (currentVC newPrimary)" for vc
    using newPrimary_store(2) that by (metis imageE image_eqI list.set_map)
  then have "trueVotes {1, 2, 3, 4} {1, 3, 4} S (currentVC newPrimary)"
    using sample_votes [of S, OF S(4,5)] by (fastforce simp: trueVotes_def viewChanges_def)
  then have "ms_height (cs_meta cs) + cc_L (rb_cc newPrimary) < 1 \<or> (1 :: u64) \<le> ms_height (cs_meta cs) \<or>
      (\<exists>x \<in> set (nv_xset nv). pq_n x = 1 \<and> pq_d x = sampleDigest)"
    using committed_survives_view_change [where v = 1 and i = 1 and n = 1 and p = newPrimary and E' = sampleEnv,
      OF S(1,2) _ _ S(3) sampleDigest_nonempty _ newPrimary_store(1) _ _ newPrimary_facts(1) _ p(1)]
      votingNode_fresh newPrimary_facts by auto
  then show ?thesis using S(1,3) p newPrimary_facts(3) by auto
qed

definition newViewOfThree :: newView where
  "newViewOfThree = (case proposal sampleEnv newPrimary of None \<Rightarrow> initialNewView | Some (nv, _) \<Rightarrow> nv)"

definition waitingBackup :: "unit replica" where
  \<comment> \<open>replica 1 in view 2\<close>
  "waitingBackup = raOn InViewChange (roff Normal (rb_cc_update (\<lambda>c. c\<lparr>cc_view := 2, cc_primaryID := 3\<rparr>) (votingNode 1)))"

definition lateBackup :: "unit replica" where
  "lateBackup = storeNewView newViewOfThree waitingBackup"

lemma waitingBackup_facts:
  "derivedOk (rb_cc waitingBackup)" "cc_N (rb_cc waitingBackup) = 4" "cc_L (rb_cc waitingBackup) = 10"
  "ratomicIn InViewChange waitingBackup" "\<not> vm_vcHandled (rb_vc waitingBackup)"
  by code_simp+

lemma lateBackup_facts:
  "rb_cc lateBackup = rb_cc waitingBackup" "ratomicIn InViewChange lateBackup" "\<not> vm_vcHandled (rb_vc lateBackup)"
  "gget (vm_newViewStore (rb_vc lateBackup)) (cc_view (rb_cc lateBackup)) = Some newViewOfThree"
  using waitingBackup_facts(4,5) by (simp_all add: lateBackup_def storeNewView_def ratomicIn_def)

lemma newViewOfThree_bases: "newViewBases newViewOfThree = Some sampleBasisSet"
proof -
  obtain nv cs cset where p: "proposal sampleEnv newPrimary = Some (nv, cs, cset)"
    using newPrimary_proposal by auto
  have "newViewBases nv = those (map vc_basis (currentVC newPrimary))"
    by (rule proposalE [OF p]) (simp add: newViewBases_def buildNewView_def getViewChangeBasis_def)
  then show ?thesis using p newPrimary_store(2) by (simp add: newViewOfThree_def those_Some)
qed

lemma lateBackup_checkpoint:
  "map_option (\<lambda>(cs, _). ms_height (cs_meta cs)) (selectInitialCheckpoint sampleEnv (rb_cc waitingBackup) sampleBasisSet) = Some 0"
  by code_simp

lemma lateBackup_stays: "map_option (\<lambda>(e, s). cc_view (rb_cc s)) (replicaCheckNewView sampleEnv lateBackup) = Some 2"
  by code_simp

lemma lateBackup_leaves: "map_option (\<lambda>(e, s). cc_view (rb_cc s)) (sendViewChange sampleEnv False lateBackup) = Some 3"
  by code_simp

theorem backup_keeps_committed_witness:
  "\<exists>S. cluster (\<lambda>_. sampleEnv) {1, 2, 3, 4} {1, 3, 4} votingNode S \<and> committed (1, 1, sampleDigest) (S 1) \<and>
     replicaCheckNewView sampleEnv lateBackup \<noteq> sendViewChange sampleEnv False lateBackup \<and>
     (\<exists>x \<in> set (nv_xset newViewOfThree). pq_n x = 1 \<and> pq_d x = sampleDigest)"
proof -
  obtain S where S: "cluster (\<lambda>_. sampleEnv) {1, 2, 3, 4} {1, 3, 4} votingNode S" "authentic {1, 2, 3, 4} {1, 3, 4} S"
    "committed (1, 1, sampleDigest) (S 1)" "sentBases (S 3) = [leftBasis 3]" "sentBases (S 4) = [leftBasis 4]"
    using sample_cluster by blast
  obtain cs cset where c: "selectInitialCheckpoint sampleEnv (rb_cc lateBackup) sampleBasisSet = Some (cs, cset)" "ms_height (cs_meta cs) = 0"
    using lateBackup_checkpoint lateBackup_facts(1) by auto
  have "replicaCheckNewView sampleEnv lateBackup \<noteq> sendViewChange sampleEnv False lateBackup"
    using lateBackup_stays lateBackup_leaves by auto
  moreover have "viewChanges {1, 2, 3, 4} {1, 3, 4} S (1 + 1) sampleBasisSet" using sample_votes [of S, OF S(4,5)] by simp
  ultimately show ?thesis
    using backup_keeps_committed [where v = 1 and i = 1 and n = 1 and b = lateBackup and E' = sampleEnv,
      OF S(1,2) _ _ S(3) sampleDigest_nonempty _ lateBackup_facts(4) newViewOfThree_bases _ _ _ lateBackup_facts(2,3) c(1)]
      votingNode_fresh lateBackup_facts(1) waitingBackup_facts(1-3) c(2) S(1,3) by auto
qed

end
