(* ===== verification/Restart.thy ===== *)
theory Restart
  imports Sample
begin

text \<open>
  A restart (\<open>persist.go\<close>): what was persisted of a certificate, its pre-prepare, its prepares and its commits,
  is what \<open>restoreCert\<close> builds into the empty certificate store of the restarted replica.
\<close>

section \<open>Reading a set of entries back\<close>

definition setKey :: "string \<Rightarrow> msgID \<Rightarrow> string" where
  "setKey prefix = (\<lambda>(v, n, d). qpcKey prefix v n d)"

definition setEntry :: "string \<Rightarrow> (stored \<Rightarrow> 'a option) \<Rightarrow> string \<times> stored \<Rightarrow> bool" where
  \<comment> \<open>the shape of an entry that \<open>persistQSet\<close>, \<open>persistPSet\<close> and \<open>persistCSet\<close> write\<close>
  "setEntry prefix decode e = (\<exists>idx. fst e = setKey prefix idx \<and> smallID idx \<and> decode (snd e) \<noteq> None)"

definition setOk :: "string \<Rightarrow> (stored \<Rightarrow> 'a option) \<Rightarrow> (string, stored) gomap \<Rightarrow> bool" where
  "setOk prefix decode m = (gwf m \<and> (\<forall>e \<in> set m. take (List.length prefix + 1) (fst e) = prefix @ ''.'' \<longrightarrow> setEntry prefix decode e))"

lemma parse_setKey: "smallID idx \<Longrightarrow> CHR ''.'' \<notin> set prefix \<Longrightarrow> parseQPCKey (setKey prefix idx) prefix = Inr idx"
  by (cases idx) (simp add: setKey_def smallID_def parse_qpcKey)

lemma setKey_inj: "smallID i \<Longrightarrow> smallID j \<Longrightarrow> CHR ''.'' \<notin> set prefix \<Longrightarrow> setKey prefix i = setKey prefix j \<longleftrightarrow> i = j"
  using parse_setKey by (metis sum.inject(2))

lemma setKey_prefix: "take (List.length p + 1) (setKey p idx) = p @ ''.''"
  by (cases idx) (simp add: setKey_def qpcKey_def)

lemma setKey_other:
  assumes "List.length p = List.length q" "p \<noteq> q"
  shows "setKey p i \<noteq> setKey q j"
  using assms setKey_prefix [of p i] setKey_prefix [of q j] by (metis append_same_eq)

lemma setOk_put:
  assumes "setOk p decode m" "take (List.length p + 1) k = p @ ''.'' \<longrightarrow> setEntry p decode (k, x)"
  shows "setOk p decode (gput k x m)"
  using assms by (auto simp: setOk_def dest: set_gput)

lemma restoreSet_folded:
  assumes "\<And>e. e \<in> set m \<Longrightarrow> setEntry p decode e" "gwf m" "gwf acc" "smallID idx" "CHR ''.'' \<notin> set p"
  defines "step \<equiv> (\<lambda>(key, x) acc. case parseQPCKey key p of Inl _ \<Rightarrow> acc
      | Inr idx \<Rightarrow> (case decode x of None \<Rightarrow> acc | Some y \<Rightarrow> gput idx y acc))"
  shows "gget (fold step m acc) idx = (case gget m (setKey p idx) of None \<Rightarrow> gget acc idx | Some x \<Rightarrow> decode x)
    \<and> gwf (fold step m acc)"
  using assms(1-4)
proof (induction m arbitrary: acc)
  case (Cons e m)
  obtain k x where e: "e = (k, x)" by (cases e)
  obtain i y where i: "k = setKey p i" "smallID i" "decode x = Some y"
    using Cons.prems(1) [of e] by (auto simp: setEntry_def e)
  have none: "gget m (setKey p i) = None"
    using Cons.prems(2) by (simp add: e i(1) gwf_def gget_def map_of_eq_None_iff)
  have st: "fold step (e # m) acc = fold step m (gput i y acc)"
    by (simp add: step_def e i(1,3) parse_setKey [OF i(2) assms(5)])
  have IH: "gget (fold step m (gput i y acc)) idx = (case gget m (setKey p idx) of None \<Rightarrow> gget (gput i y acc) idx | Some x \<Rightarrow> decode x)
      \<and> gwf (fold step m (gput i y acc))"
  proof (rule Cons.IH)
    show "gwf m" using Cons.prems(2) by (simp add: gwf_def)
    show "gwf (gput i y acc)" using Cons.prems(3) by (rule gwf_gput)
  qed (use Cons.prems in auto)
  show ?case
    unfolding st using IH none i(3) by (auto simp: e i(1) setKey_inj [OF i(2) Cons.prems(4) assms(5)] split: option.splits)
qed simp

lemma restoreSet_gget:
  assumes "readsByPrefix (en_readStateSet E)" "setOk p decode (rb_storage s)" "smallID idx" "CHR ''.'' \<notin> set p"
    and "readStateSet E (p @ ''.'') s \<noteq> None"
  shows "gget (restoreSet E p decode s) idx = Option.bind (gget (rb_storage s) (setKey p idx)) decode"
    "gwf (restoreSet E p decode s)"
proof -
  obtain m where m: "readStateSet E (p @ ''.'') s = Some m" using assms(5) by blast
  then have keep: "m = gkeep (\<lambda>k _. take (List.length p + 1) k = p @ ''.'') (rb_storage s)"
    using assms(1) unfolding readsByPrefix_def readStateSet_def by fastforce
  have entries: "setEntry p decode e" if "e \<in> set m" for e
    using that assms(2) by (auto simp: keep gkeep_def setOk_def)
  have "gwf m" using assms(2) by (simp add: keep setOk_def)
  note f = restoreSet_folded [of m p decode gempty, OF entries this gwf_empty(1) assms(3,4)]
  have "gget m (setKey p idx) = gget (rb_storage s) (setKey p idx)"
    unfolding keep by (simp only: gget_gkeep_key [of "\<lambda>k. take (List.length p + 1) k = p @ ''.''"] setKey_prefix if_True refl)
  then show "gget (restoreSet E p decode s) idx = Option.bind (gget (rb_storage s) (setKey p idx)) decode"
    using f m by (simp add: restoreSet_def split: option.splits)
  show "gwf (restoreSet E p decode s)" using f m by (simp add: restoreSet_def)
qed

section \<open>Building the certificates\<close>

definition unstored :: "'p replica \<Rightarrow> 'p replica" where
  \<comment> \<open>the replica but for its certificates\<close>
  "unstored = rb_store_update (sm_certStore_update (\<lambda>_. gempty))"

definition upsert :: "msgID \<Rightarrow> (msgCert \<Rightarrow> msgCert) \<Rightarrow> 'p replica \<Rightarrow> 'p replica" where
  "upsert idx f s = modCert idx f (snd (getCert idx s))"

lemma upsert_facts:
  "unstored (upsert idx f s) = unstored s"
  "rcert i (upsert idx f s) = (if i = idx then Some (f (case rcert idx s of None \<Rightarrow> newCert | Some c \<Rightarrow> c)) else rcert i s)"
  by (auto simp: upsert_def unstored_def modCert_def getCert_def rcert_def gget_gmodify split: option.splits)

definition build :: "(msgID \<Rightarrow> 'x \<Rightarrow> 'p replica \<Rightarrow> msgCert \<Rightarrow> msgCert) \<Rightarrow> (msgID, 'x) gomap \<Rightarrow> 'p replica \<Rightarrow> 'p replica" where
  "build f m = fold (\<lambda>(idx, x) s. upsert idx (f idx x s) s) m"

definition blind :: "(msgID \<Rightarrow> 'x \<Rightarrow> 'p replica \<Rightarrow> msgCert \<Rightarrow> msgCert) \<Rightarrow> bool" where
  \<comment> \<open>an entry is built without a look at the other certificates\<close>
  "blind f = (\<forall>idx x s t. unstored s = unstored t \<longrightarrow> f idx x s = f idx x t)"

lemma build_facts:
  assumes "gwf m" "blind f"
  shows "unstored (build f m s) = unstored s"
    "rcert i (build f m s) =
       (case gget m i of None \<Rightarrow> rcert i s | Some x \<Rightarrow> Some (f i x s (case rcert i s of None \<Rightarrow> newCert | Some c \<Rightarrow> c)))"
  using assms(1)
proof (induction m arbitrary: s)
  case (Cons e m)
  obtain k x where e: "e = (k, x)" by (cases e)
  have st: "build f (e # m) s = build f m (upsert k (f k x s) s)" for s by (simp add: build_def e)
  {
    case 1
    then show ?case unfolding st using Cons.IH(1) by (simp add: gwf_def upsert_facts)
  next
    case 2
    have "gget m k = None" using 2 by (simp add: e gwf_def gget_def map_of_eq_None_iff)
    moreover have "f i y (upsert k (f k x s) s) = f i y s" for i y
      using assms(2) upsert_facts(1) unfolding blind_def by blast
    ultimately show ?case unfolding st using 2 Cons.IH(2) [of "upsert k (f k x s) s"]
      by (auto simp: e gwf_def upsert_facts split: option.splits)
  }
qed (simp_all add: build_def)

definition restoredQ :: "msgID \<Rightarrow> prePrepare \<Rightarrow> 'p replica \<Rightarrow> msgCert \<Rightarrow> msgCert" where
  "restoredQ idx q s c = c\<lparr>mc_prePrepare := Some q, mc_isConfig := (case gget (sm_batchStore (rb_store s)) (snd (snd idx)) of
     None \<Rightarrow> mc_isConfig c | Some b \<Rightarrow> risConfigBatch (rq_seqNo b) s)\<rparr>"

definition restoredP :: "msgID \<Rightarrow> prepare list \<Rightarrow> 'p replica \<Rightarrow> msgCert \<Rightarrow> msgCert" where
  "restoredP idx ps s c = c\<lparr>mc_prepare := fold (\<lambda>p. gput (pr_ID p) p) ps (mc_prepare c),
     mc_sentPrepare := (mc_sentPrepare c \<or> (\<exists>p \<in> set ps. pr_replicaId p = selfID s \<and> fst (snd idx) \<le> rb_lastExec s))\<rparr>"

definition restoredC :: "msgID \<Rightarrow> commit list \<Rightarrow> 'p replica \<Rightarrow> msgCert \<Rightarrow> msgCert" where
  "restoredC idx cs s c = c\<lparr>mc_commit := fold (\<lambda>m. gput (cm_ID m) m) cs (mc_commit c),
     mc_sentCommit := (mc_sentCommit c \<or> (\<exists>m \<in> set cs. cm_replicaId m = selfID s \<and> fst (snd idx) \<le> rb_lastExec s))\<rparr>"

lemma unstored_parts:
  assumes "unstored s = unstored t"
  shows "rb_cc s = rb_cc t" "rb_lastExec s = rb_lastExec t" "rb_storage s = rb_storage t" "selfID s = selfID t"
    "sm_batchStore (rb_store s) = sm_batchStore (rb_store t)" "rb_epoch s = rb_epoch t"
proof -
  have "f (unstored s) = f (unstored t)" for f :: "'a replica \<Rightarrow> 'z" using assms by simp
  from this [of rb_cc] this [of rb_lastExec] this [of rb_storage] this [of "\<lambda>s. sm_batchStore (rb_store s)"] this [of rb_epoch]
  show "rb_cc s = rb_cc t" "rb_lastExec s = rb_lastExec t" "rb_storage s = rb_storage t" "selfID s = selfID t"
    "sm_batchStore (rb_store s) = sm_batchStore (rb_store t)" "rb_epoch s = rb_epoch t"
    by (simp_all add: unstored_def selfID_def)
qed

lemma restored_blind [simp]: "blind restoredQ" "blind restoredP" "blind restoredC"
proof -
  have "restoredQ idx q s = restoredQ idx q t \<and> restoredP idx ps s = restoredP idx ps t \<and> restoredC idx cs s = restoredC idx cs t"
    if "unstored s = unstored t" for idx q ps cs and s t :: "'p replica"
    unfolding restoredQ_def restoredP_def restoredC_def risConfigBatch_def unstored_parts [OF that] by blast
  then show "blind (restoredQ :: _ \<Rightarrow> _ \<Rightarrow> 'p replica \<Rightarrow> _)" "blind (restoredP :: _ \<Rightarrow> _ \<Rightarrow> 'p replica \<Rightarrow> _)"
    "blind (restoredC :: _ \<Rightarrow> _ \<Rightarrow> 'p replica \<Rightarrow> _)"
    unfolding blind_def by blast+
qed

lemma unstored_getCert: "unstored (snd (getCert idx s)) = unstored s"
  by (simp add: getCert_def unstored_def split: option.split)

lemma build_code:
  assumes "blind f"
  shows "fold (\<lambda>(idx, x) s. case getCert idx s of (_, s') \<Rightarrow> modCert idx (f idx x s') s') m s = build f m s"
proof -
  have "f idx x (snd (getCert idx s)) = f idx x s" for idx x s
    using assms unstored_getCert unfolding blind_def by blast
  then have "(case getCert idx s of (_, s') \<Rightarrow> modCert idx (f idx x s') s') = upsert idx (f idx x s) s" for idx x s
    by (cases "getCert idx s") (metis (no_types, lifting) case_prod_conv snd_conv upsert_def)
  then show ?thesis by (simp add: build_def)
qed

definition withQ :: "'p env \<Rightarrow> 'p replica \<Rightarrow> 'p replica" where
  "withQ E s = build restoredQ (restoreQSet E s) s"

definition withP :: "'p env \<Rightarrow> 'p replica \<Rightarrow> 'p replica" where
  "withP E s = build restoredP (restorePSet E (withQ E s)) (withQ E s)"

definition withC :: "'p env \<Rightarrow> 'p replica \<Rightarrow> 'p replica" where
  "withC E s = build restoredC (restoreCSet E (withP E s)) (withP E s)"

lemma restoreCert_withC:
  "sm_certStore (rb_store (restoreCert E s)) = gmapv (\<lambda>(v, n, d) c. if n \<le> rb_lastExec (withC E s) then c\<lparr>mc_sentExecute := True\<rparr> else c)
      (sm_certStore (rb_store (withC E s)))"
  "rb_cc (restoreCert E s) = rb_cc (withC E s)"
proof -
  have Q: "fold (\<lambda>(idx, q) s. case getCert idx s of (_, s') \<Rightarrow> modCert idx (\<lambda>c.
                 c\<lparr>mc_prePrepare := Some q,
                   mc_isConfig := (case gget (sm_batchStore (rb_store s')) (snd (snd idx)) of
                      None \<Rightarrow> mc_isConfig c
                    | Some b \<Rightarrow> risConfigBatch (rq_seqNo b) s')\<rparr>) s') m t = build restoredQ m t" for m and t :: "'a replica"
    using build_code [OF restored_blind(1), of m t] by (simp add: restoredQ_def [abs_def])
  have P: "fold (\<lambda>(idx, ps) s. case getCert idx s of (_, s') \<Rightarrow> modCert idx (\<lambda>c.
                 c\<lparr>mc_prepare := fold (\<lambda>p. gput (pr_ID p) p) ps (mc_prepare c),
                   mc_sentPrepare := (mc_sentPrepare c \<or>
                     (\<exists>p \<in> set ps. pr_replicaId p = selfID s' \<and> fst (snd idx) \<le> rb_lastExec s'))\<rparr>) s') m t = build restoredP m t" for m and t :: "'a replica"
    using build_code [OF restored_blind(2), of m t] by (simp add: restoredP_def [abs_def])
  have C: "fold (\<lambda>(idx, cs) s. case getCert idx s of (_, s') \<Rightarrow> modCert idx (\<lambda>c.
                 c\<lparr>mc_commit := fold (\<lambda>m. gput (cm_ID m) m) cs (mc_commit c),
                   mc_sentCommit := (mc_sentCommit c \<or>
                     (\<exists>m \<in> set cs. cm_replicaId m = selfID s' \<and> fst (snd idx) \<le> rb_lastExec s'))\<rparr>) s') m t = build restoredC m t" for m and t :: "'a replica"
    using build_code [OF restored_blind(3), of m t] by (simp add: restoredC_def [abs_def])
  show "sm_certStore (rb_store (restoreCert E s)) = gmapv (\<lambda>(v, n, d) c. if n \<le> rb_lastExec (withC E s) then c\<lparr>mc_sentExecute := True\<rparr> else c)
      (sm_certStore (rb_store (withC E s)))"
    "rb_cc (restoreCert E s) = rb_cc (withC E s)"
    unfolding restoreCert_def Q P C withC_def withP_def withQ_def Let_def by (simp_all split: option.split)
qed

section \<open>A certificate survives a restart\<close>

definition keyedBy :: "('a \<Rightarrow> 'k) \<Rightarrow> ('k, 'a) gomap \<Rightarrow> bool" where
  "keyedBy f m = (gwf m \<and> (\<forall>e \<in> set m. fst e = f (snd e)))"

lemma keyedBy_rebuild:
  assumes "keyedBy f m"
  shows "fold (\<lambda>x. gput (f x) x) (map snd m) gempty = m"
proof -
  have put: "gput k x acc = acc @ [(k, x)]" if "k \<notin> fst ` set acc" for k and x :: 'a and acc :: "('b, 'a) gomap"
    using that by (induction acc) (auto simp: gput_def)
  have "fold (\<lambda>x. gput (f x) x) (map snd m) acc = acc @ m"
    if "\<forall>e \<in> set m. fst e = f (snd e)" "distinct (map fst (acc @ m))" for acc
    using that
  proof (induction m arbitrary: acc)
    case (Cons e m)
    then have "gput (f (snd e)) (snd e) acc = acc @ [e]"
      using put [of "f (snd e)" acc "snd e"] by (cases e) auto
    then show ?case using Cons by simp
  qed simp
  from this [of gempty] assms show ?thesis by (simp add: keyedBy_def gwf_def gempty_def)
qed

definition persistedCert :: "msgID \<Rightarrow> prePrepare \<Rightarrow> 'p replica \<Rightarrow> 'p replica" where
  \<comment> \<open>what the normal case has written when a certificate is committed\<close>
  "persistedCert idx pp s = persistCSet idx (persistPSet idx (persistQSet (Some pp) s))"

lemma persistedCert_storage:
  assumes "rcert idx s = Some c" "pp_idx pp = idx"
  shows "rb_storage (persistedCert idx pp s) = gput (setKey ''cset'' idx) (SCset (map snd (mc_commit c)))
     (gput (setKey ''pset'' idx) (SPset (map snd (mc_prepare c))) (gput (setKey ''qset'' idx) (SPrePrepare pp) (rb_storage s)))"
proof -
  have g: "getCert idx (storeState k x s) = (c, storeState k x s)" "getCert idx (storeState k' x' (storeState k x s)) = (c, storeState k' x' (storeState k x s))" for k k' x x'
    using assms(1) by (simp_all add: getCert_def rcert_def storeState_def)
  show ?thesis
    using assms(2) g by (auto simp: persistedCert_def persistCSet_def persistPSet_def persistQSet_def setKey_def pp_idx_def storeState_def split: prod.split)
qed

lemma setOk_put_own:
  assumes "setOk p decode m" "smallID idx" "decode x \<noteq> None"
  shows "setOk p decode (gput (setKey p idx) x m)"
  by (rule setOk_put [OF assms(1)], unfold setEntry_def, intro impI exI [of _ idx]) (use assms(2,3) in simp)

lemma setOk_put_other:
  assumes "setOk p decode m" "List.length p = List.length q" "p \<noteq> q"
  shows "setOk p decode (gput (setKey q idx) x m)"
  by (rule setOk_put [OF assms(1)]) (use setKey_prefix [of q idx] assms(2,3) in simp)


definition votedCert :: msgCert where
  "votedCert = newCert\<lparr>mc_prePrepare := Some samplePrePrepare,
     mc_prepare := map (\<lambda>p. (pr_ID p, p)) (map (\<lambda>i. \<lparr>pr_replicaId = i, pr_view = 1, pr_n = 1, pr_digest = ''d1''\<rparr>) [1, 3]),
     mc_commit := map (\<lambda>m. (cm_ID m, m)) (map (\<lambda>i. \<lparr>cm_replicaId = i, cm_view = 1, cm_n = 1, cm_digest = ''d1''\<rparr>) [1, 2, 3])\<rparr>"

definition votedReplica :: "unit replica" where
  "votedReplica = sampleReplica\<lparr>rb_store := newStoreMgr\<lparr>sm_certStore := [((1, 1, ''d1''), votedCert)]\<rparr>\<rparr>"

definition restarted :: "unit replica" where
  \<comment> \<open>the replica with its storage and without its memory\<close>
  "restarted = sampleReplica\<lparr>rb_storage := rb_storage (persistedCert (1, 1, ''d1'') samplePrePrepare votedReplica)\<rparr>"

lemma votedReplica_facts: "committed (1, 1, ''d1'') votedReplica" "distinct (map fst (mc_prepare votedCert))" "distinct (map fst (mc_commit votedCert))"
  by code_simp+


end
