(* ===== verification/NormalLiveness.thy ===== *)
theory NormalLiveness
  imports NormalSafety
begin

text \<open>
  The normal case makes progress: no handler of it takes back a message that was sent, and the prepare that
  completes a quorum makes a validator send its commit.
\<close>

section \<open>Messages are only added\<close>

definition sendsMore :: "'p replica \<Rightarrow> 'p replica \<Rightarrow> bool" where
  "sendsMore s t = (\<exists>es. rb_out t = rb_out s @ es)"

lemma sendsMore_refl [simp]: "sendsMore s s"
  by (simp add: sendsMore_def)

lemma sendsMore_trans: "sendsMore s t \<Longrightarrow> sendsMore t u \<Longrightarrow> sendsMore s u"
  by (auto simp: sendsMore_def)

lemma sendsMore_out: "rb_out t = rb_out s \<Longrightarrow> sendsMore s t"
  by (simp add: sendsMore_def)

lemma sendsMore_in: "sendsMore s t \<Longrightarrow> e \<in> set (rb_out s) \<Longrightarrow> e \<in> set (rb_out t)"
  by (auto simp: sendsMore_def)

lemma getVcBasis_out: "getVcBasis E s = Some (b, t) \<Longrightarrow> rb_out t = rb_out s"
  by (auto simp: getVcBasis_def Let_def bind_eq_Some_conv split: prod.splits)

lemma beforeSendVC_out: "beforeSendVC E r s = Some t \<Longrightarrow> rb_out t = rb_out s"
  by (auto simp: beforeSendVC_def Let_def setViewWithRecovery_def setView_def raOn_def raOff_def
      stopHighWatermarkTimer_def stopFetchCheckpointTimer_def stopNewViewTimer_def
      split: option.splits if_splits elim!: setViewGenD)

lemma signViewChange_more: "signViewChange E b s = (r, t) \<Longrightarrow> sendsMore s t"
  by (auto simp: signViewChange_def stopNamespace_def sendsMore_def split: option.splits)

lemma startT_out: "startT E n ev s = Some t \<Longrightarrow> rb_out t = rb_out s"
  by (auto elim!: startTD)

lemma sendViewChangeStart_more:
  assumes "sendViewChangeStart E r s = Some (v, t)"
  shows "sendsMore s t"
proof (cases "(\<not> r \<and> rin waitCheckpointFinished s) \<or> ratomicIn StateTransferring s")
  case True
  then show ?thesis using assms by (auto simp: sendViewChangeStart_def split: if_splits)
next
  case False
  then obtain s1 b s3 where s1: "beforeSendVC E r s = Some s1"
    and s3: "getVcBasis E (if r then raOn InRecovery s1 else s1) = Some (b, s3)"
    using assms by (cases r) (auto simp: sendViewChangeStart_def bind_eq_Some_conv Let_def)
  obtain sig s4 where s4: "signViewChange E b s3 = (sig, s4)" by (cases "signViewChange E b s3")
  have rest: "(case sig of None \<Rightarrow> Some (None, s4)
         | Some sig \<Rightarrow> do {
             s5 \<leftarrow> startT E vcResendTimer ViewChangeResendTimer (broadcast (MViewChange (ViewChange (Some b) sig 0 r)) s4);
             s6 \<leftarrow> startFetchViewTimer E s5;
             Some (Some (ViewChange (Some b) sig 0 r), s6) }) = Some (v, t)"
    using assms False s1 s3 s4 by (cases r; cases sig) (simp_all add: sendViewChangeStart_def Let_def)
  have "rb_out s3 = rb_out s"
    using getVcBasis_out [OF s3] beforeSendVC_out [OF s1] by (simp add: raOn_def split: if_splits)
  then have "sendsMore s s4" using signViewChange_more [OF s4] by (simp add: sendsMore_def)
  moreover have "sendsMore s4 t"
    using rest by (auto simp: bind_eq_Some_conv startFetchViewTimer_def broadcast_def sendsMore_def split: option.splits
        dest!: startT_out)
  ultimately show ?thesis by (rule sendsMore_trans)
qed

lemma quorumReached_out: "quorumReached E v s = Some t \<Longrightarrow> rb_out t = rb_out s"
  by (auto simp: quorumReached_def softStartNewViewTimer_def softStartT_def bind_eq_Some_conv split: option.splits)

lemma sendRecoveryResponse_more [simp]: "sendsMore s (sendRecoveryResponse E i s)"
  by (auto simp: sendRecoveryResponse_def unicast_def unicastByP2PID_def getNodeInfo_def emit_def sendsMore_def
      split: option.splits prod.splits)

lemma recvStep_more:
  assumes "recvViewChangeStep E vc ok s = Some (n, t)"
  shows "sendsMore s t"
proof -
  have st: "rb_out (recvStored E vc b s) = rb_out s" for b
    by (simp add: recvStored_def dropExpired_def storeVC_def)
  have vw: "rb_out u' = rb_out u" if "setView E v u = Some u'" for v and u u' :: "'a replica"
    using that unfolding setView_def by (auto elim!: setViewGenD)
  have rr: "sendsMore s (sendRecoveryResponse E i (recvStored E vc b s))" for i b
    using sendRecoveryResponse_more [of "recvStored E vc b s" E i] by (simp add: sendsMore_def st)
  show ?thesis
    using assms
    by (auto elim!: recvStepE simp: Let_def st rr sendsMore_out dest!: vw quorumReached_out)
qed

lemma sendViewChange_more: "sendViewChange E r s = Some (e, t) \<Longrightarrow> sendsMore s t"
  by (erule sendViewChange_rel) (erule sendViewChangeStart_more, erule recvStep_more, erule (1) sendsMore_trans)

lemma commitPendingBlocks_more: "commitPendingBlocks E s = Some t \<Longrightarrow> sendsMore s t"
  by (auto simp: commitPendingBlocks_def sendsMore_def bind_eq_Some_conv split: if_splits
      dest!: commitLoop_D startTimerIfOutstandingRequests_frame(3))

lemma dropVC_more: "dropEvent (sendViewChange E r) s = Some t \<Longrightarrow> sendsMore s t"
  by (auto simp: dropEvent_def intro: sendViewChange_more)

lemma committedHere_more:
  assumes "do { s3 \<leftarrow> commitPendingBlocks E s2;
       (if rin waitCheckpointBatchExecute s3 then Some s3
        else let s4 = rb_vc_update (vm_lastNewViewTimeout_update (\<lambda>_. timeoutOf newViewTimer s3)) s3 in
          if n = vm_viewChangeSeqNo (rb_vc s4) then dropEvent (sendViewChange E False) s4 else Some s4) } = Some t"
  shows "sendsMore s2 t"
proof -
  from assms obtain s3 where s3: "commitPendingBlocks E s2 = Some s3"
    and rest: "(if rin waitCheckpointBatchExecute s3 then Some s3
        else let s4 = rb_vc_update (vm_lastNewViewTimeout_update (\<lambda>_. timeoutOf newViewTimer s3)) s3 in
          if n = vm_viewChangeSeqNo (rb_vc s4) then dropEvent (sendViewChange E False) s4 else Some s4) = Some t"
    by (auto simp: bind_eq_Some_conv)
  have "sendsMore s3 t" using rest by (auto simp: Let_def sendsMore_def split: if_splits dest!: dropVC_more)
  with commitPendingBlocks_more [OF s3] show ?thesis by (rule sendsMore_trans)
qed

lemma recvCommit_more:
  assumes "recvCommit E c s = Some t"
  shows "sendsMore s t"
proof -
  let ?idx = "(cm_view c, cm_n c, cm_digest c)"
  obtain cert s1 where g: "getCert ?idx s = (cert, s1)" by (cases "getCert ?idx s")
  have s1: "rb_out s1 = rb_out s" using cert_out(1) [of ?idx s] by (simp add: g)
  define s2 where "s2 = (if \<not> risValidator s1 \<and> cm_replicaId c = selfID s1 then s1
      else modCert ?idx (mc_commit_update (gput (cm_ID c) c)) s1)"
  define s3 where "s3 = rb_store_update (sm_committedCert_update (gput ?idx (cm_digest c))) s2"
  have o: "rb_out s2 = rb_out s" "rb_out s3 = rb_out s" by (simp_all add: s1 s2_def s3_def)
  show ?thesis
  proof (cases "isCommitLegal c s \<and> \<not> (ghas (mc_commit cert) (cm_ID c) \<and> cm_n c \<le> rb_lastExec s1) \<and>
      committed ?idx s2 \<and> \<not> (mc_sentExecute cert \<or> \<not> mc_sentCommit cert)")
    case True
    with assms g have "sendsMore s3 t"
      by (intro committedHere_more [of E s3 "cm_n c"]) (simp add: recvCommit_def Let_def s3_def s2_def)
    then show ?thesis using o by (simp add: sendsMore_def)
  next
    case False
    with assms g o(1) s1 have "rb_out t = rb_out s"
      by (auto simp: recvCommit_def Let_def s2_def [symmetric] split: if_splits)
    then show ?thesis by (rule sendsMore_out)
  qed
qed

section \<open>A quorum of prepares is answered by a commit\<close>

lemma gsize_gput_new: "\<not> ghas m k \<Longrightarrow> gsize (gput k v m) = Suc (gsize m)"
proof -
  assume "\<not> ghas m k"
  then have "k \<notin> fst ` set m" by (auto simp: ghas_def gget_def map_of_eq_None_iff [symmetric])
  then show ?thesis by (induction m) (auto simp: gput_def gsize_def)
qed

definition ownCommit :: "msgID \<Rightarrow> 'p replica \<Rightarrow> commit" where
  "ownCommit idx s = \<lparr>cm_replicaId = selfID s, cm_view = fst idx, cm_n = fst (snd idx), cm_digest = snd (snd idx)\<rparr>"

lemma sendCommit_sends:
  assumes "sendCommit E idx s = Some t" "risValidator s"
  shows "\<exists>m. Broadcast m \<in> set (rb_out t) \<and> m_payload m = MCommit (ownCommit idx s)"
proof -
  obtain v n d where idx: "idx = (v, n, d)" by (cases idx)
  define s2 where "s2 = persistPSet idx (modCert idx (\<lambda>c. c\<lparr>mc_sentCommit := True\<rparr>) (snd (getCert idx s)))"
  have cc: "rb_cc s2 = rb_cc s"
    by (simp add: s2_def persistPSet_def modCert_def getCert_def storeState_def split: prod.split option.split)
  have "recvCommit E (ownCommit idx s) (broadcast (MCommit (ownCommit idx s)) s2) = Some t"
    using assms cc
    by (simp add: sendCommit_def idx Let_def ownCommit_def selfID_def risValidator_def s2_def [unfolded idx])
      (simp add: modCert_def getCert_def split: option.splits)
  then have "sendsMore (broadcast (MCommit (ownCommit idx s)) s2) t" by (rule recvCommit_more)
  then have "Broadcast (mkMsg (MCommit (ownCommit idx s)) s2) \<in> set (rb_out t)"
    by (rule sendsMore_in) (simp add: broadcast_def)
  then show ?thesis by (auto simp: mkMsg_def)
qed

text \<open>C11. A validator that has a pre-prepare and has sent its own prepare for it, or is the primary, answers
  the prepare that completes the quorum with its commit: the commit for this view, height and digest is
  among the messages it has broadcast when the prepare has been processed.\<close>

theorem quorum_prepare_commits:
  assumes "recvPrepare E p s = Some s'" "isPrepareLegal p s" "risValidator s" "\<not> rin SkipInProgress s"
    and "idx = (pr_view p, pr_n p, pr_digest p)" "rcert idx s = Some cert" "prePrepared idx s"
    and "isPrimary (selfID s) s \<or> mc_sentPrepare cert" "\<not> mc_sentCommit cert"
    and "\<not> ghas (mc_prepare cert) (pr_ID p)" "commonCaseQuorum (rb_cc s) \<le> gsize (mc_prepare cert) + 2"
  shows "\<exists>m. Broadcast m \<in> set (rb_out s') \<and> m_payload m = MCommit (ownCommit idx s)"
proof -
  define s2 where "s2 = modCert idx (mc_prepare_update (gput (pr_ID p) p)) s"
  define cert2 where "cert2 = mc_prepare_update (gput (pr_ID p) p) cert"
  have c2: "rcert idx s2 = Some cert2" "rb_cc s2 = rb_cc s" "rb_status s2 = rb_status s"
    using assms(6) by (simp_all add: s2_def cert2_def rcert_def modCert_def gget_gmodify)
  have "prePrepared idx s2"
    using assms(6,7) c2(1) by (auto simp: prePrepared_def cert2_def split: prod.splits option.splits)
  then have "prepared idx s2"
    using c2(1,2) assms(11) gsize_gput_new [OF assms(10)] by (simp add: prepared_def cert2_def)
  then have "maybeSendCommit E idx s2 = sendCommit E idx s2"
    using assms(4,8,9) c2
    by (auto simp: maybeSendCommit_def getCert_present [OF c2(1)] rin_def isPrimary_def selfID_def cert2_def)
  moreover have "recvPrepare E p s = maybeSendCommit E idx s2"
    using assms(2,3,10) getCert_present [OF assms(6)] by (simp add: recvPrepare_def Let_def assms(5) [symmetric] s2_def)
  ultimately have "sendCommit E idx s2 = Some s'" using assms(1) by simp
  moreover have "risValidator s2" "ownCommit idx s2 = ownCommit idx s"
    using assms(3) c2(2) by (simp_all add: risValidator_def ownCommit_def selfID_def)
  ultimately show ?thesis using sendCommit_sends by metis
qed

definition samplePrepareOf :: "u64 \<Rightarrow> prepare" where
  "samplePrepareOf i = \<lparr>pr_replicaId = i, pr_view = 1, pr_n = 1, pr_digest = ''d1''\<rparr>"

definition samplePreparing :: "unit replica" where
  \<comment> \<open>the sample with the pre-prepare of height 1 and its own prepare\<close>
  "samplePreparing = sampleReplica\<lparr>rb_store := newStoreMgr\<lparr>sm_certStore := [((1, 1, ''d1''),
     newCert\<lparr>mc_prePrepare := Some samplePrePrepare, mc_sentPrepare := True,
       mc_prepare := [(pr_ID (samplePrepareOf 1), samplePrepareOf 1)]\<rparr>)]\<rparr>\<rparr>"

lemma samplePreparing_facts:
  "recvPrepare sampleEnv (samplePrepareOf 3) samplePreparing \<noteq> None" "isPrepareLegal (samplePrepareOf 3) samplePreparing"
  "risValidator samplePreparing" "\<not> rin SkipInProgress samplePreparing" "prePrepared (1, 1, ''d1'') samplePreparing"
  "rcert (1, 1, ''d1'') samplePreparing = Some (newCert\<lparr>mc_prePrepare := Some samplePrePrepare, mc_sentPrepare := True,
     mc_prepare := [(pr_ID (samplePrepareOf 1), samplePrepareOf 1)]\<rparr>)"
  "\<not> ghas [(pr_ID (samplePrepareOf 1), samplePrepareOf 1)] (pr_ID (samplePrepareOf 3))"
  "commonCaseQuorum (rb_cc samplePreparing) = 3" "\<not> mc_sentCommit newCert"
  by code_simp+

theorem quorum_prepare_commits_witness:
  "\<exists>s' m. recvPrepare sampleEnv (samplePrepareOf 3) samplePreparing = Some s' \<and> Broadcast m \<in> set (rb_out s') \<and>
     m_payload m = MCommit (ownCommit (1, 1, ''d1'') samplePreparing)"
proof -
  obtain s' where s': "recvPrepare sampleEnv (samplePrepareOf 3) samplePreparing = Some s'"
    using samplePreparing_facts(1) by blast
  have "\<exists>m. Broadcast m \<in> set (rb_out s') \<and> m_payload m = MCommit (ownCommit (1, 1, ''d1'') samplePreparing)"
    by (rule quorum_prepare_commits [OF s' samplePreparing_facts(2,3,4) _ samplePreparing_facts(6,5)])
      (use samplePreparing_facts in \<open>simp_all add: samplePrepareOf_def gsize_def\<close>)
  with s' show ?thesis by blast
qed

section \<open>A quorum of commits is answered by an execution\<close>

lemma commitLoop_progress:
  assumes "commitLoop E s = Some t" "findNextCommitBatch s \<noteq> None"
  shows "\<exists>es ef. rb_out t = rb_out s @ es \<and> ef \<in> set es \<and> exHeight ef = Some (rb_lastExec s + 1) \<and> backed E s (rb_lastExec s + 1) ef"
proof -
  obtain idx cert where f: "findNextCommitBatch s = Some (idx, cert)" using assms(2) by auto
  then obtain s1 where one: "commitOne E idx cert s = Some s1" and rest: "commitLoop E s1 = Some t"
    using assms(1) by (subst (asm) commitLoop.simps) (auto split: option.splits)
  note fd = findNextCommitBatch_D [OF f] and od = commitOne_D [OF one fd(2)]
  obtain ef where ef: "executeEffect E idx cert s = Some ef" "rb_out s1 = rb_out s @ [ef]" using od(1) by blast
  moreover have "exHeight ef = Some (rb_lastExec s + 1) \<and> backed E s (rb_lastExec s + 1) ef"
    using executeEffect_height [OF ef(1)] fd ef unfolding backed_def by metis
  moreover obtain es where "rb_out t = rb_out s1 @ es" using commitLoop_D [OF rest] by blast
  ultimately show ?thesis by (intro exI [of _ "ef # es"]) auto
qed

lemma commitPendingBlocks_progress:
  assumes "commitPendingBlocks E s = Some t" "findNextCommitBatch s \<noteq> None"
  shows "\<exists>es ef. rb_out t = rb_out s @ es \<and> ef \<in> set es \<and> exHeight ef = Some (rb_lastExec s + 1) \<and> backed E s (rb_lastExec s + 1) ef"
proof -
  obtain s1 where "commitLoop E s = Some s1" "rb_out t = rb_out s1"
    using assms(1) startTimerIfOutstandingRequests_frame(3)
    by (auto simp: commitPendingBlocks_def bind_eq_Some_conv split: if_splits)
  then show ?thesis using commitLoop_progress assms(2) by metis
qed

lemma first_map_filter_Some: "x \<in> set xs \<Longrightarrow> f x \<noteq> None \<Longrightarrow> first (List.map_filter f xs) \<noteq> None"
  by (induction xs) (auto simp: first_def List.map_filter_def split: list.splits)

lemma findNextCommitBatch_exists:
  assumes "ghas (sm_committedCert (rb_store s)) (v, n, d)" "rcert (v, n, d) s = Some cert" "mc_prePrepare cert \<noteq> None"
    and "\<not> mc_sentExecute cert" "n = rb_lastExec s + 1" "\<not> rin SkipInProgress s" "\<not> rin waitCheckpointBatchExecute s"
    and "committed (v, n, d) s" "d = [] \<or> ghas (sm_batchStore (rb_store s)) d"
  shows "findNextCommitBatch s \<noteq> None"
proof -
  obtain x where "((v, n, d), x) \<in> set (sm_committedCert (rb_store s))"
    using assms(1) by (auto simp: ghas_def gget_def dest: map_of_SomeD)
  then show ?thesis
    unfolding findNextCommitBatch_def if_not_P [OF assms(7)]
    by (rule first_map_filter_Some) (use assms(2-9) in \<open>auto simp del: split_paired_Ex\<close>)
qed

lemma recvCommit_execution:
  assumes "recvCommit E c s = Some t" "isCommitLegal c s" "rcert idx s = Some cert" "idx = (cm_view c, cm_n c, cm_digest c)"
    and "\<not> ghas (mc_commit cert) (cm_ID c)" "risValidator s" "mc_sentCommit cert" "\<not> mc_sentExecute cert"
    and "s2 = modCert idx (mc_commit_update (gput (cm_ID c) c)) s" "committed idx s2"
  shows "\<exists>s3. commitPendingBlocks E (rb_store_update (sm_committedCert_update (gput idx (cm_digest c))) s2) = Some s3 \<and> sendsMore s3 t"
proof -
  obtain s3 where s3: "commitPendingBlocks E (rb_store_update (sm_committedCert_update (gput idx (cm_digest c))) s2) = Some s3"
    and rest: "(if rin waitCheckpointBatchExecute s3 then Some s3
        else let s4 = rb_vc_update (vm_lastNewViewTimeout_update (\<lambda>_. timeoutOf newViewTimer s3)) s3 in
          if cm_n c = vm_viewChangeSeqNo (rb_vc s4) then dropEvent (sendViewChange E False) s4 else Some s4) = Some t"
    using assms by (auto simp: recvCommit_def Let_def getCert_present bind_eq_Some_conv)
  have "sendsMore s3 t" using rest by (auto simp: Let_def sendsMore_def split: if_splits dest!: dropVC_more)
  then show ?thesis using s3 by blast
qed

text \<open>C12. The commit that completes the quorum for the next height makes the replica execute it: when a validator
  that has sent its own commit holds the pre-prepare, the quorum of prepares and the batch, waits for no checkpoint and
  transfers no state, then the block of this height is handed to the application when the commit has been
  processed, and it is one of a committed certificate.\<close>

theorem quorum_commit_executes:
  assumes "recvCommit E c s = Some t" "isCommitLegal c s" "risValidator s" "cm_n c = rb_lastExec s + 1"
    and "idx = (cm_view c, cm_n c, cm_digest c)" "rcert idx s = Some cert" "prepared idx s"
    and "mc_sentCommit cert" "\<not> mc_sentExecute cert" "\<not> rin SkipInProgress s" "\<not> rin waitCheckpointBatchExecute s"
    and "cm_digest c = [] \<or> ghas (sm_batchStore (rb_store s)) (cm_digest c)"
    and "\<not> ghas (mc_commit cert) (cm_ID c)" "commonCaseQuorum (rb_cc s) \<le> gsize (mc_commit cert) + 1"
  shows "\<exists>es ef. rb_out t = rb_out s @ es \<and> ef \<in> set es \<and> exHeight ef = Some (cm_n c) \<and>
    backed E (modCert idx (mc_commit_update (gput (cm_ID c) c)) s) (cm_n c) ef"
proof -
  define s2 where "s2 = modCert idx (mc_commit_update (gput (cm_ID c) c)) s"
  define cert2 where "cert2 = mc_commit_update (gput (cm_ID c) c) cert"
  define s3 where "s3 = rb_store_update (sm_committedCert_update (gput idx (cm_digest c))) s2"
  have c2: "rcert idx s2 = Some cert2" "rb_cc s2 = rb_cc s" "rb_out s2 = rb_out s" "rb_lastExec s2 = rb_lastExec s"
    using assms(6) by (simp_all add: s2_def cert2_def rcert_def modCert_def gget_gmodify)
  have "prepared idx s2"
    using assms(6,7) c2(1,2) by (auto simp: prepared_def prePrepared_def cert2_def split: prod.splits option.splits)
  then have com: "committed idx s2"
    using c2(1,2) assms(14) gsize_gput_new [OF assms(13)] by (simp add: committed_def cert2_def)
  obtain s4 where s4: "commitPendingBlocks E s3 = Some s4" "sendsMore s4 t"
    using recvCommit_execution [OF assms(1,2,6,5,13,3,8,9) s2_def com] unfolding s3_def by blast
  have same: "rcert i s3 = rcert i s2" "committed i s3 = committed i s2" "executeEffect E i k s3 = executeEffect E i k s2" for i k
  proof -
    show rc: "rcert i s3 = rcert i s2" for i by (simp add: s3_def rcert_def)
    have "rb_cc s3 = rb_cc s2" "sm_batchStore (rb_store s3) = sm_batchStore (rb_store s2)" by (simp_all add: s3_def)
    then show "committed i s3 = committed i s2" "executeEffect E i k s3 = executeEffect E i k s2"
      by (simp_all only: committed_def prepared_def prePrepared_def executeEffect_def rc)
  qed
  have pp: "mc_prePrepare cert2 \<noteq> None"
    using com c2(1) by (auto simp: committed_def prepared_def prePrepared_def split: prod.splits option.splits)
  have "findNextCommitBatch s3 \<noteq> None"
  proof (rule findNextCommitBatch_exists)
    show "ghas (sm_committedCert (rb_store s3)) (cm_view c, cm_n c, cm_digest c)" by (simp add: s3_def ghas_def assms(5))
    show "committed (cm_view c, cm_n c, cm_digest c) s3" "rcert (cm_view c, cm_n c, cm_digest c) s3 = Some cert2"
      using com c2(1) by (simp_all add: same assms(5) [symmetric])
    show "\<not> rin SkipInProgress s3" "\<not> rin waitCheckpointBatchExecute s3" "cm_n c = rb_lastExec s3 + 1"
      "cm_digest c = [] \<or> ghas (sm_batchStore (rb_store s3)) (cm_digest c)"
      using assms(4,10-12) by (simp_all add: s3_def s2_def modCert_def rin_def)
  qed (use pp assms(9) in \<open>simp_all add: cert2_def\<close>)
  then obtain es ef where e: "rb_out s4 = rb_out s3 @ es" "ef \<in> set es" "exHeight ef = Some (rb_lastExec s3 + 1)"
    "backed E s3 (rb_lastExec s3 + 1) ef" using commitPendingBlocks_progress [OF s4(1)] by blast
  moreover have "rb_lastExec s3 + 1 = cm_n c" "rb_out s3 = rb_out s" using assms(4) c2 by (simp_all add: s3_def)
  moreover have "backed E s3 k ef = backed E s2 k ef" for k by (simp add: backed_def same)
  ultimately show ?thesis using s4(2) unfolding sendsMore_def s2_def by fastforce
qed

definition sampleCommitOf :: "u64 \<Rightarrow> commit" where
  "sampleCommitOf i = \<lparr>cm_replicaId = i, cm_view = 1, cm_n = 1, cm_digest = ''d1''\<rparr>"

definition sampleCommitting :: "unit replica" where
  \<comment> \<open>the sample with a prepared batch of height 1 and the commits of two replicas\<close>
  "sampleCommitting = sampleCommitted\<lparr>rb_store := (rb_store sampleCommitted)\<lparr>sm_committedCert := gempty,
     sm_certStore := [((1, 1, ''d1''), sampleCert\<lparr>mc_commit := map (\<lambda>i. (cm_ID (sampleCommitOf i), sampleCommitOf i)) [1, 2]\<rparr>)]\<rparr>\<rparr>"

lemma sampleCommitting_facts:
  "recvCommit sampleEnv (sampleCommitOf 3) sampleCommitting \<noteq> None" "isCommitLegal (sampleCommitOf 3) sampleCommitting"
  "risValidator sampleCommitting" "rb_lastExec sampleCommitting = 0" "prepared (1, 1, ''d1'') sampleCommitting"
  "\<not> rin SkipInProgress sampleCommitting" "\<not> rin waitCheckpointBatchExecute sampleCommitting"
  "ghas (sm_batchStore (rb_store sampleCommitting)) ''d1''" "commonCaseQuorum (rb_cc sampleCommitting) = 3"
  "\<not> ghas (map (\<lambda>i. (cm_ID (sampleCommitOf i), sampleCommitOf i)) [1, 2]) (cm_ID (sampleCommitOf 3))"
  "rb_out sampleCommitting = []"
  by code_simp+

theorem quorum_commit_executes_witness:
  "\<exists>t ef. recvCommit sampleEnv (sampleCommitOf 3) sampleCommitting = Some t \<and> ef \<in> set (rb_out t) \<and> exHeight ef = Some 1"
proof -
  obtain t where t: "recvCommit sampleEnv (sampleCommitOf 3) sampleCommitting = Some t" using sampleCommitting_facts(1) by blast
  have "\<exists>es ef. rb_out t = rb_out sampleCommitting @ es \<and> ef \<in> set es \<and> exHeight ef = Some (cm_n (sampleCommitOf 3)) \<and>
    backed sampleEnv (modCert (1, 1, ''d1'') (mc_commit_update (gput (cm_ID (sampleCommitOf 3)) (sampleCommitOf 3))) sampleCommitting)
      (cm_n (sampleCommitOf 3)) ef"
    by (rule quorum_commit_executes [OF t sampleCommitting_facts(2,3), where
        cert = "sampleCert\<lparr>mc_commit := map (\<lambda>i. (cm_ID (sampleCommitOf i), sampleCommitOf i)) [1, 2]\<rparr>"])
      (use sampleCommitting_facts in \<open>simp_all add: sampleCommitOf_def sampleCommitting_def rcert_def sampleCert_def gsize_def\<close>)
  with t show ?thesis by (auto simp: sampleCommitOf_def)
qed

end
