(* ===== verification/WatermarkSafety.thy ===== *)
theory WatermarkSafety
  imports Watermark
begin

text \<open>
  What moving the low watermark and starting a state transfer do to the log of a replica. The log is
  read abstractly as partial functions (\<open>logView\<close>); \<open>moveWatermarks\<close> refines its truncation at a
  height, and \<open>tryStateTransfer\<close> asks for exactly one transfer, to the recorded target.
\<close>

section \<open>Frames\<close>

lemma persistDel_out [simp]:
  "rb_out (storeState k x s) = rb_out s" "rb_out (delState k s) = rb_out s"
  "rb_lastExec (storeState k x s) = rb_lastExec s" "rb_lastExec (delState k s) = rb_lastExec s"
  "rb_epoch (storeState k x s) = rb_epoch s" "rb_epoch (delState k s) = rb_epoch s"
  "rb_batch (storeState k x s) = rb_batch s" "rb_batch (delState k s) = rb_batch s"
  "rb_config (storeState k x s) = rb_config s" "rb_config (delState k s) = rb_config s"
  by (simp_all add: storeState_def delState_def)

lemma persistDelQPCSet_frame2 [simp]:
  "rb_out (persistDelQPCSet i s) = rb_out s" "rb_lastExec (persistDelQPCSet i s) = rb_lastExec s"
  "rb_epoch (persistDelQPCSet i s) = rb_epoch s" "rb_batch (persistDelQPCSet i s) = rb_batch s"
  "rb_config (persistDelQPCSet i s) = rb_config s"
  by (simp_all add: persistDelQPCSet_def persistDelQSet_def persistDelPSet_def persistDelCSet_def split: prod.split)

lemma dropCert_frame [simp]:
  "rb_cc (dropCert i c s) = rb_cc s" "rb_vc (dropCert i c s) = rb_vc s" "rb_out (dropCert i c s) = rb_out s"
  "rb_status (dropCert i c s) = rb_status s" "rb_lastExec (dropCert i c s) = rb_lastExec s"
  "rb_epoch (dropCert i c s) = rb_epoch s" "rb_batch (dropCert i c s) = rb_batch s"
  "rb_config (dropCert i c s) = rb_config s" "rb_timer (dropCert i c s) = rb_timer s"
  "sm_certStore (rb_store (dropCert i c s)) = gdel i (sm_certStore (rb_store s))"
  "sm_checkpointStore (rb_store (dropCert i c s)) = sm_checkpointStore (rb_store s)"
  "sm_localCheckpoints (rb_store (dropCert i c s)) = sm_localCheckpoints (rb_store s)"
  "sm_missingInFetching (rb_store (dropCert i c s)) = sm_missingInFetching (rb_store s)"
  "sm_batchStore (rb_store (dropCert i c s)) = sm_batchStore (rb_store s)"
  "sm_highStateTarget (rb_store (dropCert i c s)) = sm_highStateTarget (rb_store s)"
  by (simp_all add: dropCert_def split: prod.split)

lemma cleanCache_frame2 [simp]:
  "rb_out (cleanCommittedCertCache h s) = rb_out s" "rb_lastExec (cleanCommittedCertCache h s) = rb_lastExec s"
  "rb_epoch (cleanCommittedCertCache h s) = rb_epoch s" "rb_batch (cleanCommittedCertCache h s) = rb_batch s"
  "rb_config (cleanCommittedCertCache h s) = rb_config s"
  "sm_certStore (rb_store (cleanCommittedCertCache h s)) = sm_certStore (rb_store s)"
  "sm_checkpointStore (rb_store (cleanCommittedCertCache h s)) = sm_checkpointStore (rb_store s)"
  "sm_localCheckpoints (rb_store (cleanCommittedCertCache h s)) = sm_localCheckpoints (rb_store s)"
  "sm_missingInFetching (rb_store (cleanCommittedCertCache h s)) = sm_missingInFetching (rb_store s)"
  "sm_batchStore (rb_store (cleanCommittedCertCache h s)) = sm_batchStore (rb_store s)"
  "sm_highStateTarget (rb_store (cleanCommittedCertCache h s)) = sm_highStateTarget (rb_store s)"
  by (simp_all add: cleanCommittedCertCache_def Let_def)

lemma dropCertsUpTo_frame [simp]:
  "rb_cc (dropCertsUpTo h s) = rb_cc s" "rb_vc (dropCertsUpTo h s) = rb_vc s" "rb_out (dropCertsUpTo h s) = rb_out s"
  "rb_status (dropCertsUpTo h s) = rb_status s" "rb_lastExec (dropCertsUpTo h s) = rb_lastExec s"
  "rb_epoch (dropCertsUpTo h s) = rb_epoch s" "rb_config (dropCertsUpTo h s) = rb_config s"
  "sm_checkpointStore (rb_store (dropCertsUpTo h s)) = sm_checkpointStore (rb_store s)"
  "sm_localCheckpoints (rb_store (dropCertsUpTo h s)) = sm_localCheckpoints (rb_store s)"
  "sm_missingInFetching (rb_store (dropCertsUpTo h s)) = sm_missingInFetching (rb_store s)"
  "sm_batchStore (rb_store (dropCertsUpTo h s)) = sm_batchStore (rb_store s)"
  "sm_highStateTarget (rb_store (dropCertsUpTo h s)) = sm_highStateTarget (rb_store s)"
  unfolding dropCertsUpTo_def
  by (simp_all, (rule fold_frame, simp add: case_prod_unfold)+)

lemma fold_dropCert:
  "gget (sm_certStore (rb_store (fold (\<lambda>(idx, c) t. if fst (snd idx) \<le> h then dropCert idx c t else t) xs s))) i =
     (if i \<in> fst ` set xs \<and> fst (snd i) \<le> h then None else gget (sm_certStore (rb_store s)) i)"
  by (induction xs arbitrary: s) (auto split: prod.splits)

lemma dropCertsUpTo_certs:
  "rcert i (dropCertsUpTo h s) = (if fst (snd i) \<le> h then None else rcert i s)"
proof (cases "i \<in> fst ` set (sm_certStore (rb_store s))")
  case True
  then show ?thesis by (simp add: rcert_def dropCertsUpTo_def fold_dropCert)
next
  case False
  then have "gget (sm_certStore (rb_store s)) i = None"
    by (metis dom_gget domIff)
  then show ?thesis using False by (simp add: rcert_def dropCertsUpTo_def fold_dropCert)
qed

lemma fold_persistDelBatch:
  "fold persistDelBatch ds s = rb_storage_update (fold (\<lambda>d. gdel (batchKey d)) ds) s"
  by (induction ds arbitrary: s) (simp_all add: persistDelBatch_def delState_def o_def)

lemma dropBatches_frame [simp]:
  "rb_cc (dropBatches E l n s) = rb_cc s" "rb_vc (dropBatches E l n s) = rb_vc s"
  "rb_out (dropBatches E l n s) = rb_out s" "rb_status (dropBatches E l n s) = rb_status s"
  "rb_lastExec (dropBatches E l n s) = rb_lastExec s" "rb_epoch (dropBatches E l n s) = rb_epoch s"
  "rb_config (dropBatches E l n s) = rb_config s"
  "sm_certStore (rb_store (dropBatches E l n s)) = sm_certStore (rb_store s)"
  "sm_checkpointStore (rb_store (dropBatches E l n s)) = sm_checkpointStore (rb_store s)"
  "sm_localCheckpoints (rb_store (dropBatches E l n s)) = sm_localCheckpoints (rb_store s)"
  "sm_missingInFetching (rb_store (dropBatches E l n s)) = sm_missingInFetching (rb_store s)"
  by (simp_all add: dropBatches_def Let_def withPool_def fold_persistDelBatch)

lemma pruneStep_frame:
  "rb_cc (persistDelCheckpoint n (deleteCheckpoint n s)) = rb_cc s"
  "rb_vc (persistDelCheckpoint n (deleteCheckpoint n s)) = rb_vc s"
  "rb_out (persistDelCheckpoint n (deleteCheckpoint n s)) = rb_out s"
  "sm_certStore (rb_store (persistDelCheckpoint n (deleteCheckpoint n s))) = sm_certStore (rb_store s)"
  "sm_checkpointStore (rb_store (persistDelCheckpoint n (deleteCheckpoint n s))) = sm_checkpointStore (rb_store s)"
  "sm_missingInFetching (rb_store (persistDelCheckpoint n (deleteCheckpoint n s))) = sm_missingInFetching (rb_store s)"
  "sm_localCheckpoints (rb_store (persistDelCheckpoint n (deleteCheckpoint n s))) = gdel n (sm_localCheckpoints (rb_store s))"
  by (simp_all add: persistDelCheckpoint_def deleteCheckpoint_def)

lemma pruneLocal_D:
  assumes "pruneLocal E e h xs s = (True, s')"
  shows "rb_cc s' = rb_cc s \<and> rb_vc s' = rb_vc s \<and> rb_out s' = rb_out s \<and>
    sm_certStore (rb_store s') = sm_certStore (rb_store s) \<and>
    sm_checkpointStore (rb_store s') = sm_checkpointStore (rb_store s) \<and>
    sm_missingInFetching (rb_store s') = sm_missingInFetching (rb_store s) \<and>
    (\<forall>n. map_option sc_checkpoint (gget (sm_localCheckpoints (rb_store s')) n) =
       (if n \<in> fst ` set xs \<and> n < h then None
        else map_option sc_checkpoint (gget (sm_localCheckpoints (rb_store s)) n)))"
  using assms
proof (induction E e h xs s rule: pruneLocal.induct)
  case (2 E e h n c rest s)
  show ?case
  proof (cases "n < h")
    case True
    then have "pruneLocal E e h rest (persistDelCheckpoint n (deleteCheckpoint n s)) = (True, s')"
      using "2.prems" by simp
    from "2.IH"(1) [OF True this] show ?thesis using True by (auto simp: pruneStep_frame)
  next
    case False
    then show ?thesis
      using "2.prems" "2.IH"(2,3)
      by (auto simp: gget_gmodify option.map_comp o_def split: if_splits option.splits)
  qed
qed simp

lemma pruneLocal_signs:
  assumes "e \<longrightarrow> (\<forall>m. en_sign E m \<noteq> None)"
  shows "fst (pruneLocal E e h xs s)"
  using assms
  by (induction E e h xs s rule: pruneLocal.induct) (auto simp: signCheckpoint_def simp del: not_None_eq split: option.splits)

section \<open>The log as a partial function\<close>

record logView =
  lv_low :: u64
  lv_certs :: "msgID \<Rightarrow> msgCert option"
  lv_prepared :: "u64 \<Rightarrow> vcPq option"
  lv_prePrepared :: "string \<times> u64 \<Rightarrow> vcPq option"
  lv_votes :: "u64 \<times> u64 \<Rightarrow> signedCheckpoint option"
  lv_fetching :: "string \<Rightarrow> msgID option"
  lv_own :: "u64 \<Rightarrow> checkpoint option option"

definition absLog :: "'p replica \<Rightarrow> logView" where
  \<comment> \<open>the log of a replica; of its own checkpoints, what they say and not how they are signed\<close>
  "absLog s = \<lparr>lv_low = cc_H (rb_cc s), lv_certs = (\<lambda>i. rcert i s), lv_prepared = gget (vm_plist (rb_vc s)),
     lv_prePrepared = gget (vm_qlist (rb_vc s)), lv_votes = gget (sm_checkpointStore (rb_store s)),
     lv_fetching = gget (sm_missingInFetching (rb_store s)),
     lv_own = (\<lambda>n. map_option sc_checkpoint (gget (sm_localCheckpoints (rb_store s)) n))\<rparr>"

definition truncateLog :: "u64 \<Rightarrow> logView \<Rightarrow> logView" where
  \<comment> \<open>the specification: nothing at or below the height stays but the own checkpoint of the height\<close>
  "truncateLog n l = \<lparr>lv_low = n,
     lv_certs = (\<lambda>i. if fst (snd i) \<le> n then None else lv_certs l i),
     lv_prepared = (\<lambda>k. if k \<le> n then None else lv_prepared l k),
     lv_prePrepared = (\<lambda>(d, k). if k \<le> n then None else lv_prePrepared l (d, k)),
     lv_votes = (\<lambda>(a, k). if k \<le> n then None else lv_votes l (a, k)),
     lv_fetching = (\<lambda>d. case lv_fetching l d of None \<Rightarrow> None | Some i \<Rightarrow> if fst (snd i) \<le> n then None else Some i),
     lv_own = (\<lambda>k. if k < n then None else lv_own l k)\<rparr>"

lemma pruneLists_eq:
  assumes "gwf (sm_missingInFetching (rb_store s))"
  shows "cc_H (rb_cc (pruneLists h s)) = cc_H (rb_cc s)"
    "sm_certStore (rb_store (pruneLists h s)) = sm_certStore (rb_store s)"
    "sm_checkpointStore (rb_store (pruneLists h s)) = sm_checkpointStore (rb_store s)"
    "sm_localCheckpoints (rb_store (pruneLists h s)) = sm_localCheckpoints (rb_store s)"
    "gget (vm_plist (rb_vc (pruneLists h s))) = (\<lambda>k. if k \<le> h then None else gget (vm_plist (rb_vc s)) k)"
    "gget (vm_qlist (rb_vc (pruneLists h s))) = (\<lambda>(d, k). if k \<le> h then None else gget (vm_qlist (rb_vc s)) (d, k))"
    "gget (sm_missingInFetching (rb_store (pruneLists h s))) = (\<lambda>d. case gget (sm_missingInFetching (rb_store s)) d of
        None \<Rightarrow> None | Some i \<Rightarrow> if fst (snd i) \<le> h then None else Some i)"
  using assms
  by (simp_all add: pruneLists_def gget_gkeep_key gget_gkeep [OF assms] case_prod_unfold fun_eq_iff split: option.split)

lemma persistH_eq: "persistH n s = rb_storage_update (gput ''rbft.h'' (SText (showU64 n))) s"
  by (simp add: persistH_def storeState_def)

text \<open>C21. Moving the low watermark up to a height refines the truncation of the log at that height:
  afterwards the watermark is the height, and of the certificates, the P and Q lists, the votes for
  checkpoints and the fetched batches exactly the entries above the height are left, and of the own
  checkpoints exactly those from the height on, all unchanged.\<close>

theorem moveWatermarks_truncates:
  assumes "moveWatermarks E n newEpoch s = Some s'" "cc_H (rb_cc s) \<le> n"
    and "newEpoch \<longrightarrow> (\<forall>m. en_sign E m \<noteq> None)" "gwf (sm_missingInFetching (rb_store s))"
  shows "absLog s' = truncateLog n (absLog s)"
proof -
  define s1 where "s1 = dropCertsUpTo n s"
  obtain low where low: "batchFloor n s1 = Some low"
    using assms(1,2) by (auto simp: moveWatermarks_def s1_def Let_def split: option.splits if_splits)
  define s3 where "s3 = rb_store_update (sm_checkpointStore_update (gkeep (\<lambda>(a, k) _. \<not> k \<le> n))) (dropBatches E low n s1)"
  obtain s4 where p: "pruneLocal E newEpoch n (sm_localCheckpoints (rb_store s3)) s3 = (True, s4)"
    using pruneLocal_signs [OF assms(3)] by (metis prod.collapse)
  have s': "s' = persistH n (rb_cc_update (cc_H_update (\<lambda>_. n)) (pruneLists n s4))"
    using assms(1,2) low p by (simp add: moveWatermarks_def Let_def s1_def s3_def leD)
  note d = pruneLocal_D [OF p]
  have w: "gwf (sm_missingInFetching (rb_store s4))" using d assms(4) by (simp add: s3_def s1_def)
  have v: "rb_vc s4 = rb_vc s" using d by (simp add: s3_def s1_def)
  have certs: "rcert i s' = (if fst (snd i) \<le> n then None else rcert i s)" for i
    using d dropCertsUpTo_certs [of i n s] by (simp add: s' persistH_eq rcert_def pruneLists_eq [OF w] s3_def s1_def)
  have own: "map_option sc_checkpoint (gget (sm_localCheckpoints (rb_store s')) k) =
      (if k < n then None else map_option sc_checkpoint (gget (sm_localCheckpoints (rb_store s)) k))" for k
  proof -
    have "k \<notin> fst ` set (sm_localCheckpoints (rb_store s)) \<Longrightarrow> gget (sm_localCheckpoints (rb_store s)) k = None"
      by (metis dom_gget domIff)
    then show ?thesis using d by (auto simp: s' persistH_eq pruneLists_eq [OF w] s3_def s1_def)
  qed
  have votes: "gget (sm_checkpointStore (rb_store s')) = (\<lambda>(a, k). if k \<le> n then None else gget (sm_checkpointStore (rb_store s)) (a, k))"
    using d by (simp add: s' persistH_eq pruneLists_eq [OF w] s3_def s1_def gget_gkeep_key case_prod_unfold fun_eq_iff)
  have pl: "gget (vm_plist (rb_vc s')) = (\<lambda>k. if k \<le> n then None else gget (vm_plist (rb_vc s)) k)"
    and ql: "gget (vm_qlist (rb_vc s')) = (\<lambda>(a, k). if k \<le> n then None else gget (vm_qlist (rb_vc s)) (a, k))"
    unfolding v [symmetric] by (simp_all add: s' persistH_eq pruneLists_eq [OF w])
  have miss: "gget (sm_missingInFetching (rb_store s')) = (\<lambda>d. case gget (sm_missingInFetching (rb_store s)) d of
      None \<Rightarrow> None | Some i \<Rightarrow> if fst (snd i) \<le> n then None else Some i)"
    using d by (simp add: s' persistH_eq pruneLists_eq [OF w] s3_def s1_def)
  show ?thesis
    by (simp add: absLog_def truncateLog_def certs own votes pl ql miss cong: if_cong) (simp add: s' persistH_eq)
qed

definition sampleCheckpointed :: "unit replica" where
  \<comment> \<open>a certificate and the own checkpoint of height 1\<close>
  "sampleCheckpointed = rb_store_update (\<lambda>m. m\<lparr>sm_localCheckpoints := [(1, sampleCheckpoint 1 1)],
     sm_checkpointStore := [((1, 1), sampleCheckpoint 1 1)]\<rparr>) sampleCommitted"

lemma sampleCheckpointed_moves:
  "moveWatermarks sampleEnv 1 False sampleCheckpointed \<noteq> None"
  "gwf (sm_missingInFetching (rb_store sampleCheckpointed))" "cc_H (rb_cc sampleCheckpointed) = 0"
  by code_simp+

theorem moveWatermarks_truncates_witness:
  "\<exists>s'. moveWatermarks sampleEnv 1 False sampleCheckpointed = Some s' \<and>
     absLog s' = truncateLog 1 (absLog sampleCheckpointed)"
proof -
  obtain s' where s': "moveWatermarks sampleEnv 1 False sampleCheckpointed = Some s'"
    using sampleCheckpointed_moves(1) by blast
  from moveWatermarks_truncates [OF s'] sampleCheckpointed_moves(2,3) s' show ?thesis by auto
qed

section \<open>State transfer\<close>

lemma exitSyncState_frame [simp]:
  "rb_cc (exitSyncState s) = rb_cc s" "rb_store (exitSyncState s) = rb_store s" "rb_out (exitSyncState s) = rb_out s"
  "rb_vc (exitSyncState s) = rb_vc s" "rb_epoch (exitSyncState s) = rb_epoch s" "rb_lastExec (exitSyncState s) = rb_lastExec s"
  "rb_status (exitSyncState s) = statusOff [NeedSyncState] (statusOff [InSyncState] (rb_status s))"
  by (simp_all add: exitSyncState_def roff_def)

lemma setAbNormal_status [simp]:
  "rb_cc (setAbNormal s) = rb_cc s" "rb_store (setAbNormal s) = rb_store s" "rb_out (setAbNormal s) = rb_out s"
  "rb_vc (setAbNormal s) = rb_vc s" "rb_epoch (setAbNormal s) = rb_epoch s" "rb_lastExec (setAbNormal s) = rb_lastExec s"
  "rb_status (setAbNormal s) = statusOff [Normal] (statusOff [NeedSyncState] (statusOff [InSyncState] (rb_status s)))"
  by (simp_all add: setAbNormal_def Let_def stopBatchTimer_def roff_def)

definition transferOf :: "stateUpdateTarget \<Rightarrow> 'p replica \<Rightarrow> effect" where
  "transferOf t s = StateUpdate (cc_H (rb_cc s)) (ms_height (tg_meta t)) (ms_digest (tg_meta t))
     (tg_checkpointSet t) (tg_epochChanges t)"

lemma tryStateTransfer_running:
  assumes "ratomicIn StateTransferring s"
  shows "rb_out (tryStateTransfer s) = rb_out s" "rb_store (tryStateTransfer s) = rb_store s"
    "rb_lastExec (tryStateTransfer s) = rb_lastExec s" "ratomicIn StateTransferring (tryStateTransfer s)"
    "rin SkipInProgress (tryStateTransfer s)" "\<not> risNormal (tryStateTransfer s)"
  using assms
  by (auto simp: tryStateTransfer_def Let_def ratomicIn_def rin_def ron_def risNormal_def isNormal_def)

lemma tryStateTransfer_start:
  assumes "\<not> ratomicIn StateTransferring s" "sm_highStateTarget (rb_store s) = Some t"
  shows "rb_out (tryStateTransfer s) = rb_out s @ [transferOf t s]"
    "rcert i (tryStateTransfer s) = (if fst (snd i) \<le> ms_height (tg_meta t) then None else rcert i s)"
    "rb_lastExec (tryStateTransfer s) = rb_lastExec s" "ratomicIn StateTransferring (tryStateTransfer s)"
    "rin SkipInProgress (tryStateTransfer s)" "\<not> risNormal (tryStateTransfer s)"
    "\<not> ratomicIn InConfChange (tryStateTransfer s)"
proof -
  have c: "rcert i (emit e u) = rcert i u" for i e and u :: "'a replica" by (simp add: rcert_def)
  show "rb_out (tryStateTransfer s) = rb_out s @ [transferOf t s]"
    "rb_lastExec (tryStateTransfer s) = rb_lastExec s" "ratomicIn StateTransferring (tryStateTransfer s)"
    "rin SkipInProgress (tryStateTransfer s)" "\<not> risNormal (tryStateTransfer s)"
    "\<not> ratomicIn InConfChange (tryStateTransfer s)"
    using assms
    by (auto simp: tryStateTransfer_def Let_def ratomicIn_def rin_def ron_def raOn_def raOff_def risNormal_def
        isNormal_def transferOf_def stopFetchCheckpointTimer_def stopHighWatermarkTimer_def)
  show "rcert i (tryStateTransfer s) = (if fst (snd i) \<le> ms_height (tg_meta t) then None else rcert i s)"
    using assms
    by (auto simp: tryStateTransfer_def Let_def ratomicIn_def rin_def ron_def raOn_def raOff_def c dropCertsUpTo_certs)
      (auto simp: rcert_def stopFetchCheckpointTimer_def stopHighWatermarkTimer_def)
qed

text \<open>C22. Starting a state transfer asks the application for exactly one transfer, to the recorded target
  and with its proofs, however often it is tried while the transfer runs; it leaves the replica
  transferring, not normal and out of a configuration change, and drops exactly the certificates up to
  the height of the target.\<close>

theorem tryStateTransfer_once:
  assumes "sm_highStateTarget (rb_store s) = Some t" "\<not> ratomicIn StateTransferring s"
  shows "rb_out ((tryStateTransfer ^^ Suc k) s) = rb_out s @ [transferOf t s] \<and>
    ratomicIn StateTransferring ((tryStateTransfer ^^ Suc k) s) \<and> rin SkipInProgress ((tryStateTransfer ^^ Suc k) s) \<and>
    \<not> risNormal ((tryStateTransfer ^^ Suc k) s) \<and> \<not> ratomicIn InConfChange (tryStateTransfer s) \<and>
    rcert i ((tryStateTransfer ^^ Suc k) s) = (if fst (snd i) \<le> ms_height (tg_meta t) then None else rcert i s)"
proof (induction k)
  case 0
  then show ?case using tryStateTransfer_start [OF assms(2,1)] by simp
next
  case (Suc k)
  then show ?case
    using tryStateTransfer_running [of "(tryStateTransfer ^^ Suc k) s"] tryStateTransfer_start(7) [OF assms(2,1)]
    by (simp add: rcert_def)
qed

definition sampleLagging :: "unit replica" where
  \<comment> \<open>a replica that knows of the checkpoint of height 5\<close>
  "sampleLagging = updateHighStateTarget \<lparr>ms_height = 5, ms_digest = ''s'', ms_batchDigest = []\<rparr>
     [sampleCheckpoint 2 5, sampleCheckpoint 3 5] [] sampleCheckpointed"

lemma sampleLagging_simps:
  "sm_highStateTarget (rb_store sampleLagging) = Some \<lparr>tg_meta = \<lparr>ms_height = 5, ms_digest = ''s'', ms_batchDigest = []\<rparr>,
     tg_checkpointSet = [sampleCheckpoint 2 5, sampleCheckpoint 3 5], tg_epochChanges = []\<rparr>"
  "\<not> ratomicIn StateTransferring sampleLagging" "cc_H (rb_cc sampleLagging) = 0" "rb_out sampleLagging = []"
  by code_simp+

theorem tryStateTransfer_once_witness:
  "rb_out (tryStateTransfer (tryStateTransfer sampleLagging)) =
     [StateUpdate 0 5 ''s'' [sampleCheckpoint 2 5, sampleCheckpoint 3 5] []]"
  using tryStateTransfer_once [OF sampleLagging_simps(1,2), of 1] sampleLagging_simps
  by (simp add: transferOf_def numeral_2_eq_2)

end
