(* ===== verification/CheckpointSafety.thy ===== *)
theory CheckpointSafety
  imports WatermarkSafety NormalSafety Checkpoint
begin

text \<open>
  When checkpoints become stable. The lemmas on \<open>weakSets\<close> compute its result as a filter of the store;
  with a store that is indexed by author and height (\<open>ckptStoreOk\<close>, kept by every checkpoint that is
  recorded) its entries count different replicas. A frame relation (\<open>keepsLow\<close>) shows that a view
  change moves no watermark, so the watermark moves only on a quorum.
\<close>

section \<open>The weak sets\<close>

definition votesFor :: "'p env \<Rightarrow> u64 \<Rightarrow> bytes \<Rightarrow> ((u64 \<times> u64) \<times> signedCheckpoint) list \<Rightarrow> signedCheckpoint list" where
  "votesFor E h x es = map snd (filter (\<lambda>((a, n), c). n = h \<and> hashOf E (sc_checkpoint c) = x) es)"

lemma votesFor_simps [simp]:
  "votesFor E h x [] = []"
  "votesFor E h x (((a, n), c) # es) = (if n = h \<and> hashOf E (sc_checkpoint c) = x then c # votesFor E h x es
     else votesFor E h x es)"
  by (auto simp: votesFor_def)

lemma weakSets_step:
  assumes "weakSets E q h (((a, n), c) # rest) sets good = Some r" "n = h"
  defines "x \<equiv> hashOf E (sc_checkpoint c)"
  shows "weakSets E q h rest (gput x (glist sets x @ [c]) sets)
    (if List.length (glist sets x @ [c]) = q then good @ [x] else good) = Some r"
  using assms by (auto simp: Let_def glist_def split: if_splits)

lemma weakSets_votes:
  "weakSets E q h es sets good = Some (sets', good') \<Longrightarrow> glist sets' x = glist sets x @ votesFor E h x es"
proof (induction es arbitrary: sets good)
  case (Cons e es)
  obtain a n c where e: "e = ((a, n), c)" by (metis surj_pair)
  show ?case
  proof (cases "n = h")
    case True
    have "glist (gput y l sets) x = (if y = x then l else glist sets x)" for y l by (simp add: glist_def)
    then show ?thesis
      using Cons.IH [OF weakSets_step [OF Cons.prems [unfolded e] True]] True by (simp add: e)
  next
    case False
    then show ?thesis using Cons by (simp add: e)
  qed
qed simp

lemma weakSets_good:
  "weakSets E q h es sets good = Some (sets', good') \<Longrightarrow> x \<in> set good' \<Longrightarrow> x \<in> set good \<or> q \<le> List.length (glist sets' x)"
proof (induction es arbitrary: sets good)
  case (Cons e es)
  obtain a n c where e: "e = ((a, n), c)" by (metis surj_pair)
  show ?case
  proof (cases "n = h")
    case True
    define y where "y = hashOf E (sc_checkpoint c)"
    define l where "l = glist sets y @ [c]"
    have r: "weakSets E q h es (gput y l sets) (if List.length l = q then good @ [y] else good) = Some (sets', good')"
      unfolding y_def l_def by (rule weakSets_step [OF Cons.prems(1) [unfolded e] True])
    have "List.length l \<le> List.length (glist sets' y)"
      using weakSets_votes [OF r, of y] by (simp add: glist_def)
    then show ?thesis using Cons.IH [OF r Cons.prems(2)] by (auto split: if_splits)
  next
    case False
    then show ?thesis using Cons by (simp add: e)
  qed
qed simp

section \<open>Comparing a checkpoint with the weak sets\<close>

definition goodVote :: "'p env \<Rightarrow> u64 \<Rightarrow> signedCheckpoint \<Rightarrow> bool" where
  "goodVote E self c = (sc_author c = self \<or> verifySignedCheckpoint E c)"

definition ckptStoreOk :: "'p env \<Rightarrow> 'p replica \<Rightarrow> bool" where
  \<comment> \<open>the store of checkpoints is indexed by what its entries say, and those of others are signed\<close>
  "ckptStoreOk E s = (gwf (sm_checkpointStore (rb_store s)) \<and>
     (\<forall>((a, n), c) \<in> set (sm_checkpointStore (rb_store s)). sc_author c = a \<and> sc_Height c = n \<and> goodVote E (selfID s) c))"

definition agreeing :: "'p env \<Rightarrow> u64 \<Rightarrow> signedCheckpoint list \<Rightarrow> bool" where
  \<comment> \<open>one checkpoint of this height, signed by different replicas\<close>
  "agreeing E h ms = (distinct (map sc_author ms) \<and> (\<exists>x. \<forall>c \<in> set ms. sc_Height c = h \<and> hashOf E (sc_checkpoint c) = x))"

definition withVote :: "signedCheckpoint \<Rightarrow> 'p replica \<Rightarrow> 'p replica" where
  "withVote c = rb_store_update (sm_checkpointStore_update (gput (sc_author c, sc_Height c) c))"

lemma ckptStoreOk_put:
  assumes "ckptStoreOk E s" "goodVote E (selfID s) c"
  shows "ckptStoreOk E (withVote c s)"
  using assms set_gput [of "sm_checkpointStore (rb_store s)" _ "(sc_author c, sc_Height c)" c]
  by (fastforce simp: ckptStoreOk_def withVote_def selfID_def)

lemma votesFor_agreeing:
  assumes "ckptStoreOk E s"
  shows "agreeing E h (votesFor E h x (sm_checkpointStore (rb_store s)))"
proof -
  have "distinct (map sc_author (votesFor E h x es))"
    if "distinct (map fst es)" "\<forall>((a, n), c) \<in> set es. sc_author c = a \<and> sc_Height c = n" for es
    using that
  proof (induction es)
    case (Cons e es)
    obtain a n c where e: "e = ((a, n), c)" by (metis surj_pair)
    have "c' \<in> set (votesFor E h x es) \<Longrightarrow> \<exists>b. ((b, h), c') \<in> set es" for c' by (auto simp: votesFor_def)
    then have "n = h \<Longrightarrow> sc_author c \<notin> sc_author ` set (votesFor E h x es)"
      using Cons.prems e by (fastforce simp: image_iff)
    then show ?case using Cons by (simp add: e)
  qed simp
  moreover have "sc_Height c = h \<and> hashOf E (sc_checkpoint c) = x" if "c \<in> set (votesFor E h x (sm_checkpointStore (rb_store s)))" for c
    using that assms by (fastforce simp: votesFor_def ckptStoreOk_def)
  ultimately show ?thesis using assms unfolding agreeing_def ckptStoreOk_def gwf_def by blast
qed

lemma compare_matching:
  assumes "compareCheckpointWithWeakSet E sc s = ((True, ms), s')" "ms \<noteq> []"
  shows "s' = withVote sc s" "inW (sc_Height sc) s"
    "\<exists>x. ms = votesFor E (sc_Height sc) x (sm_checkpointStore (rb_store s')) \<and> oneCorrectQuorum (rb_cc s) \<le> List.length ms"
    "\<forall>l. gget (sm_localCheckpoints (rb_store s)) (sc_Height sc) = Some l \<longrightarrow> sc_Digest l = sc_Digest (hd ms)"
proof -
  let ?h = "sc_Height sc" and ?s = "withVote sc s"
  have w: "inW ?h s" using assms by (auto simp: compareCheckpointWithWeakSet_def Let_def split: if_splits)
  then obtain sets x where r: "weakSets E (oneCorrectQuorum (rb_cc s)) ?h (sm_checkpointStore (rb_store ?s)) gempty [] = Some (sets, [x])"
    and ms: "ms = glist sets x" "s' = ?s"
    and l: "\<forall>l. gget (sm_localCheckpoints (rb_store s)) ?h = Some l \<longrightarrow> sc_Digest l = sc_Digest (hd ms)"
    using assms
    by (auto simp: compareCheckpointWithWeakSet_def Let_def withVote_def glist_def
        split: if_splits option.splits list.splits)
  have "ms = votesFor E ?h x (sm_checkpointStore (rb_store s'))"
    using weakSets_votes [OF r, of x] ms by (simp add: glist_def)
  moreover have "oneCorrectQuorum (rb_cc s) \<le> List.length ms"
    using weakSets_good [OF r, of x] ms by simp
  ultimately show "s' = withVote sc s" "inW ?h s"
    "\<exists>x. ms = votesFor E ?h x (sm_checkpointStore (rb_store s')) \<and> oneCorrectQuorum (rb_cc s) \<le> List.length ms"
    "\<forall>l. gget (sm_localCheckpoints (rb_store s)) ?h = Some l \<longrightarrow> sc_Digest l = sc_Digest (hd ms)"
    using ms w l by blast+
qed

section \<open>A view change moves no watermark\<close>

definition keepsLow :: "'p replica \<Rightarrow> 'p replica \<Rightarrow> bool" where
  "keepsLow s t = (cc_H (rb_cc t) = cc_H (rb_cc s))"

lemma sendViewChangeStart_low:
  assumes "sendViewChangeStart E r s = Some (ovc, s')"
  shows "keepsLow s s'"
proof (cases "vcGated r s")
  case True
  then show ?thesis using assms by (auto simp: sendViewChangeStart_def vcGated_def keepsLow_def split: if_splits)
next
  case False
  then obtain s1 where s1: "beforeSendVC E r s = Some s1"
    using assms by (auto simp: sendViewChangeStart_def vcGated_def split: if_splits Option.bind_splits)
  obtain b s3 where b: "getVcBasis E (if r then raOn InRecovery s1 else s1) = Some (b, s3)"
    using assms s1 False by (auto simp: sendViewChangeStart_def vcGated_def Let_def split: if_splits Option.bind_splits)
  have "rb_cc s' = rb_cc s3"
    using assms s1 False b
    by (auto simp: sendViewChangeStart_def vcGated_def Let_def signViewChange_def stopNamespace_def
        startFetchViewTimer_def split: if_splits Option.bind_splits option.splits prod.splits elim!: startTD)
  then show ?thesis using getVcBasis_D(4) [OF b] beforeSendVC_D(4) [OF s1] by (simp add: keepsLow_def)
qed

lemma recvStep_low:
  assumes "recvViewChangeStep E vc v s = Some (n, s')"
  shows "keepsLow s s'"
proof -
  have st: "cc_H (rb_cc (recvStored E vc b s)) = cc_H (rb_cc s)" for b
    by (simp add: recvStored_def dropExpired_def storeVC_def)
  have rr: "cc_H (rb_cc (sendRecoveryResponse E i t)) = cc_H (rb_cc t)" for i and t :: "'a replica"
    by (auto simp: sendRecoveryResponse_def unicast_def getNodeInfo_def unicastByP2PID_def split: option.splits prod.splits)
  have q: "cc_H (rb_cc t') = cc_H (rb_cc t)" if "quorumReached E w t = Some t'" for w and t t' :: "'a replica"
    using quorumReached_D(1) [OF that] by simp
  have sv: "cc_H (rb_cc t') = cc_H (rb_cc t)" if "setView E w t = Some t'" for w and t t' :: "'a replica"
    using that unfolding setView_def by (elim setViewGenD) simp
  from assms show ?thesis
    by (auto elim!: recvStepE simp: Let_def keepsLow_def st rr dest!: q sv)
qed

lemma sendViewChange_low: "sendViewChange E r s = Some (e, s') \<Longrightarrow> keepsLow s s'"
  by (erule sendViewChange_rel) (auto simp: sendViewChangeStart_low recvStep_low, simp add: keepsLow_def)

lemma tryStateTransfer_cc [simp]: "rb_cc (tryStateTransfer s) = rb_cc s"
  by (auto simp: tryStateTransfer_def Let_def stopFetchCheckpointTimer_def stopHighWatermarkTimer_def
      ron_def raOn_def raOff_def split: option.splits)

lemma updateHighStateTarget_cc [simp]: "rb_cc (updateHighStateTarget t c e s) = rb_cc s"
  by (simp add: updateHighStateTarget_def)

lemma compare_cc: "compareCheckpointWithWeakSet E sc s = (r, s') \<Longrightarrow> rb_cc s' = rb_cc s"
  by (auto simp: compareCheckpointWithWeakSet_def Let_def becomeInconsistent_def stopNamespace_def ron_def
      split: if_splits option.splits list.splits)

lemma outOfRange_frame:
  assumes "weakCheckpointSetOutOfRange E sc s = Some (b, s')"
  shows "rb_cc s' = rb_cc s \<and> sm_checkpointStore (rb_store s') = sm_checkpointStore (rb_store s) \<and>
    sm_localCheckpoints (rb_store s') = sm_localCheckpoints (rb_store s)"
  using assms
  by (auto simp: weakCheckpointSetOutOfRange_def Let_def softStartHighWatermarkTimer_def softStartT_def
      updateHighStateTarget_def split: if_splits option.splits prod.splits)

lemma lagging_low: "lagging E s = Some s' \<Longrightarrow> keepsLow s s'"
  by (auto simp: lagging_def dropEvent_def initRecovery_def keepsLow_def roff_def split: if_splits
      dest!: sendViewChange_low)

section \<open>The watermark moves only on a quorum\<close>

definition checkpointSource :: "signedCheckpoint \<Rightarrow> bool \<Rightarrow> 'p replica \<Rightarrow> signedCheckpoint option" where
  "checkpointSource sc0 local s = (if local \<and> \<not> risValidator s then storedFor (sc_Height sc0) s else Some sc0)"

lemma recvCheckpoint_moves:
  assumes "recvCheckpoint E sc0 local s = Some (e, s')" "cc_H (rb_cc s') \<noteq> cc_H (rb_cc s)"
  obtains sc k s1 ms s2 where "checkpointSource sc0 local s = Some sc" "sc_checkpoint sc = Some k"
    "local \<or> verifySignedCheckpoint E sc" "weakCheckpointSetOutOfRange E sc s = Some (False, s1)"
    "compareCheckpointWithWeakSet E sc s1 = ((True, ms), s2)" "commonCaseQuorum (rb_cc s2) \<le> List.length ms"
    "stabilise E k ms s2 = Some (e, s')"
proof -
  from assms obtain sc where sc: "checkpointSource sc0 local s = Some sc"
    by (auto simp: recvCheckpoint_def Let_def checkpointSource_def split: option.splits)
  then obtain k where k: "sc_checkpoint sc = Some k"
    using assms by (auto simp: recvCheckpoint_def Let_def checkpointSource_def split: option.splits)
  have open_gate: "\<not> ck_epoch k < ei_epoch (cc_epochInfo (rb_cc s))" "local \<or> verifySignedCheckpoint E sc"
    using assms sc k by (auto simp: recvCheckpoint_def Let_def checkpointSource_def split: option.splits if_splits)
  then have eq: "recvCheckpoint E sc0 local s = do {
         (out, s1) \<leftarrow> weakCheckpointSetOutOfRange E sc s;
         (if out then map_option (Pair None) (lagging E s1)
          else case compareCheckpointWithWeakSet E sc s1 of
            ((legal, matching), s2) \<Rightarrow>
              if \<not> legal then Some (None, s2)
              else if List.length matching < commonCaseQuorum (rb_cc s2) then Some (None, s2)
              else stabilise E k matching s2) }"
    using sc k by (cases local) (simp_all add: recvCheckpoint_def Let_def checkpointSource_def)
  obtain out s1 where o1: "weakCheckpointSetOutOfRange E sc s = Some (out, s1)"
    using assms(1) eq by (cases "weakCheckpointSetOutOfRange E sc s") auto
  have H1: "cc_H (rb_cc s1) = cc_H (rb_cc s)" using outOfRange_frame [OF o1] by simp
  have "\<not> out" using assms eq o1 H1 by (auto simp: keepsLow_def dest!: lagging_low)
  obtain legal ms s2 where c: "compareCheckpointWithWeakSet E sc s1 = ((legal, ms), s2)" by (metis surj_pair)
  have H2: "cc_H (rb_cc s2) = cc_H (rb_cc s)" using compare_cc [OF c] H1 by simp
  have "legal \<and> commonCaseQuorum (rb_cc s2) \<le> List.length ms \<and> stabilise E k ms s2 = Some (e, s')"
    using assms eq o1 c \<open>\<not> out\<close> H2 by (auto split: if_splits)
  then show ?thesis using that sc k open_gate o1 c \<open>\<not> out\<close> by auto
qed

lemma storedFor_mem:
  assumes "storedFor h s = Some c"
  shows "\<exists>a. ((a, h), c) \<in> set (sm_checkpointStore (rb_store s))"
proof -
  have "fold (\<lambda>((a, n), c) r. if n = h then Some c else r) es r = Some c \<Longrightarrow> r = Some c \<or> (\<exists>a. ((a, h), c) \<in> set es)" for es r
    by (induction es arbitrary: r) (fastforce split: prod.splits if_splits)+
  from this [of _ None] assms show ?thesis by (auto simp: storedFor_def)
qed

lemma outOfRange_ok:
  "weakCheckpointSetOutOfRange E sc s = Some (b, s') \<Longrightarrow> ckptStoreOk E s \<Longrightarrow> ckptStoreOk E s'"
  using outOfRange_frame [of E sc s b s'] by (simp add: ckptStoreOk_def selfID_def)


definition sampleTracking :: "unit replica" where
  \<comment> \<open>the sample with its tracker of recent blocks set up\<close>
  "sampleTracking = (case ccResetRecentBlockNum (en_getBlockMeta sampleEnv) 0 (rb_cc sampleReplica) of
     None \<Rightarrow> sampleReplica | Some c \<Rightarrow> sampleReplica\<lparr>rb_cc := c\<rparr>)"

lemma sampleTracking_simps:
  "cc_H (rb_cc sampleTracking) = 0" "commonCaseQuorum (rb_cc sampleTracking) = 3"
  by code_simp+

definition sampleVoting :: "unit replica" where
  \<comment> \<open>the replica with its own checkpoint of height 1 and the votes of the replicas 1 and 2 for it\<close>
  "sampleVoting = rb_store_update (\<lambda>m. m\<lparr>sm_localCheckpoints := [(1, sampleCheckpoint 1 1)],
     sm_checkpointStore := [((1, 1), sampleCheckpoint 1 1), ((2, 1), sampleCheckpoint 2 1)]\<rparr>) sampleTracking"

lemma sampleVoting_moves:
  "map_option (\<lambda>(e, s). cc_H (rb_cc s)) (recvCheckpoint sampleEnv (sampleCheckpoint 3 1) False sampleVoting) = Some 1"
  by code_simp

lemma sampleVoting_ok: "ckptStoreOk sampleEnv sampleVoting"
  by (simp add: ckptStoreOk_def sampleVoting_def gwf_def goodVote_def verifySignedCheckpoint_def sampleCheckpoint_def
      sc_Height_def ck_Height_def)


section \<open>The end of a state transfer\<close>

lemma reopenCert_frame [simp]:
  "rb_cc (reopenCert n i s) = rb_cc s" "sm_highStateTarget (rb_store (reopenCert n i s)) = sm_highStateTarget (rb_store s)"
  by (simp_all add: reopenCert_def Let_def modCert_def)

lemma reopenCerts_frame [simp]:
  "rb_cc (reopenCerts n s) = rb_cc s" "sm_highStateTarget (rb_store (reopenCerts n s)) = sm_highStateTarget (rb_store s)"
  unfolding reopenCerts_def
  by (simp_all add: case_prod_unfold fold_frame [where g = rb_cc]
      fold_frame [where g = "\<lambda>s. sm_highStateTarget (rb_store s)"])

lemma finishStateUpdate_frame [simp]:
  "rb_cc (finishStateUpdate n s) = rb_cc s"
  "sm_highStateTarget (rb_store (finishStateUpdate n s)) = sm_highStateTarget (rb_store s)"
  by (simp_all add: finishStateUpdate_def Let_def rmaybeSetNormal_def raOff_def roff_def)

lemma ccReset_epoch: "ccResetRecentBlockNum g n c = Some c' \<Longrightarrow> cc_epochInfo c' = cc_epochInfo c"
  by (auto simp: ccResetRecentBlockNum_def Let_def)

definition heightOfState :: "serviceSyncState \<Rightarrow> u64" where
  "heightOfState ss = ms_height (ss_meta (sy_state ss))"

text \<open>C23. How the errors of a state transfer are handled. A state above the target stops the node and
  changes nothing else; a state below it, in the same epoch, is recorded as executed and the transfer to
  the target is asked for once more; and a state reported at a checkpoint height of the current epoch while
  there is no target at all makes the replica panic.\<close>

theorem recvStateUpdated_errors:
  "(sm_highStateTarget (rb_store s) = Some t \<longrightarrow> heightOfState ss > ms_height (tg_meta t) \<longrightarrow>
      recvStateUpdatedEvent E ss s = Some (None, stopNamespace s)) \<and>
   (sm_highStateTarget (rb_store s) = Some t \<longrightarrow> heightOfState ss < ms_height (tg_meta t) \<longrightarrow> \<not> sy_epochChanged ss \<longrightarrow>
      (\<exists>s'. recvStateUpdatedEvent E ss s = Some (None, s') \<and> rb_lastExec s' = heightOfState ss \<and>
         rb_out s' = rb_out s @ [transferOf t s] \<and> ratomicIn StateTransferring s')) \<and>
   (sm_highStateTarget (rb_store s) = None \<longrightarrow> \<not> sy_epochChanged ss \<longrightarrow>
      ss_epoch (sy_state ss) = ei_epoch (cc_epochInfo (rb_cc s)) \<longrightarrow> heightOfState ss mod checkpointPeriod s = 0 \<longrightarrow>
      recvStateUpdatedEvent E ss s = None)"
proof (intro conjI impI)
  assume t: "sm_highStateTarget (rb_store s) = Some t" and gt: "heightOfState ss > ms_height (tg_meta t)"
  from gt have "\<not> heightOfState ss < ms_height (tg_meta t)" by simp
  with t gt show "recvStateUpdatedEvent E ss s = Some (None, stopNamespace s)"
    by (simp add: recvStateUpdatedEvent_def heightOfState_def Let_def)
next
  let ?u = "(raOff StateTransferring s)\<lparr>rb_lastExec := heightOfState ss\<rparr>"
  assume t: "sm_highStateTarget (rb_store s) = Some t" and "heightOfState ss < ms_height (tg_meta t)" "\<not> sy_epochChanged ss"
  then have "recvStateUpdatedEvent E ss s = Some (None, tryStateTransfer ?u)"
    by (simp add: recvStateUpdatedEvent_def heightOfState_def Let_def)
  moreover have "\<not> ratomicIn StateTransferring ?u" "sm_highStateTarget (rb_store ?u) = Some t"
    "rb_out ?u = rb_out s" "transferOf t ?u = transferOf t s"
    using t by (simp_all add: ratomicIn_def raOff_def transferOf_def)
  ultimately show "\<exists>s'. recvStateUpdatedEvent E ss s = Some (None, s') \<and> rb_lastExec s' = heightOfState ss \<and>
         rb_out s' = rb_out s @ [transferOf t s] \<and> ratomicIn StateTransferring s'"
    using tryStateTransfer_start(1,3,4) [of ?u t] by simp
next
  assume none: "sm_highStateTarget (rb_store s) = None" "\<not> sy_epochChanged ss"
    "ss_epoch (sy_state ss) = ei_epoch (cc_epochInfo (rb_cc s))" "heightOfState ss mod checkpointPeriod s = 0"
  then have "recvStateUpdatedEvent E ss s = stateReached E ss s"
    by (simp add: recvStateUpdatedEvent_def)
  also have "\<dots> = None"
  proof (cases "ccResetRecentBlockNum (en_getBlockMeta E) (heightOfState ss) (rb_cc s)")
    case (Some c)
    then show ?thesis
      using none ccReset_epoch [OF Some]
      by (simp add: stateReached_def Let_def heightOfState_def checkpointPeriod_def adoptCheckpoint_def)
  qed (simp add: stateReached_def Let_def heightOfState_def)
  finally show "recvStateUpdatedEvent E ss s = None" .
qed

definition sampleReached :: "u64 \<Rightarrow> serviceSyncState" where
  "sampleReached h = \<lparr>sy_state = \<lparr>ss_meta = \<lparr>ms_height = h, ms_digest = ''s'', ms_batchDigest = []\<rparr>, ss_epoch = 1\<rparr>,
     sy_epochChanged = False\<rparr>"

theorem recvStateUpdated_errors_witness:
  "recvStateUpdatedEvent sampleEnv (sampleReached 6) sampleLagging = Some (None, stopNamespace sampleLagging) \<and>
   (\<exists>s'. recvStateUpdatedEvent sampleEnv (sampleReached 4) sampleLagging = Some (None, s') \<and>
     rb_out s' = [StateUpdate 0 5 ''s'' [sampleCheckpoint 2 5, sampleCheckpoint 3 5] []]) \<and>
   recvStateUpdatedEvent sampleEnv (sampleReached 4) sampleReplica = None"
proof (intro conjI)
  define t where "t = \<lparr>tg_meta = \<lparr>ms_height = 5, ms_digest = ''s'', ms_batchDigest = []\<rparr>,
    tg_checkpointSet = [sampleCheckpoint 2 5, sampleCheckpoint 3 5], tg_epochChanges = []\<rparr>"
  note sampleReached = heightOfState_def sampleReached_def t_def
  have t: "sm_highStateTarget (rb_store sampleLagging) = Some t" by (simp add: sampleLagging_simps t_def)
  show "recvStateUpdatedEvent sampleEnv (sampleReached 6) sampleLagging = Some (None, stopNamespace sampleLagging)"
    using recvStateUpdated_errors [of sampleLagging t "sampleReached 6" sampleEnv] t by (simp add: sampleReached)
  show "\<exists>s'. recvStateUpdatedEvent sampleEnv (sampleReached 4) sampleLagging = Some (None, s') \<and>
     rb_out s' = [StateUpdate 0 5 ''s'' [sampleCheckpoint 2 5, sampleCheckpoint 3 5] []]"
    using recvStateUpdated_errors [of sampleLagging t "sampleReached 4" sampleEnv] t
    by (auto simp: sampleReached transferOf_def sampleLagging_simps)
  have "checkpointPeriod sampleReplica = 1" "ei_epoch (cc_epochInfo (rb_cc sampleReplica)) = 1" by code_simp+
  then show "recvStateUpdatedEvent sampleEnv (sampleReached 4) sampleReplica = None"
    using recvStateUpdated_errors [of sampleReplica t "sampleReached 4" sampleEnv]
    by (simp add: sampleReached newStoreMgr_def)
qed

end
