(* ===== verification/Recovery.thy ===== *)
theory Recovery
  imports NewView
begin

text \<open>
  Synchronising states (\<open>recovery_mgr.go\<close>, \<open>compareWholeStates\<close> in \<open>helper.go\<close>): a replica asks the
  others for their view, height and digest, and compares the answer of a quorum with its own state.
\<close>

section \<open>Comparing states\<close>

record nodeState =
  ns_view :: u64
  ns_height :: u64
  ns_digest :: string

definition responseState :: "syncStateRsp \<Rightarrow> nodeState" where
  "responseState r =
     (case sr_checkpoint r of
        None \<Rightarrow> \<lparr>ns_view = sr_view r, ns_height = 0, ns_digest = []\<rparr>
      | Some c \<Rightarrow> \<lparr>ns_view = sr_view r, ns_height = sc_Height c, ns_digest = sc_Digest c\<rparr>)"

fun quorumState :: "nat \<Rightarrow> syncStateRsp list \<Rightarrow> (nodeState, signedCheckpoint list) gomap \<Rightarrow>
    (nodeState \<times> signedCheckpoint list) option" where
  \<comment> \<open>the first state that \<open>q\<close> of the responses share, with their checkpoints\<close>
  "quorumState q [] m = None"
| "quorumState q (r # rs) m =
     (case sr_checkpoint r of
        None \<Rightarrow> quorumState q rs m
      | Some c \<Rightarrow>
          let k = responseState r;
              l = (case gget m k of None \<Rightarrow> [] | Some l \<Rightarrow> l) @ [c]
          in if List.length l \<ge> q then Some (k, l) else quorumState q rs (gput k l m))"

definition compareWholeStates :: "'p env \<Rightarrow> syncStateRsp list \<Rightarrow> 'p handler" where
  "compareWholeStates E rsps s =
     (case quorumState (commonCaseQuorum (rb_cc s)) rsps gempty of
        None \<Rightarrow> Some (None, s)
      | Some (k, cset) \<Rightarrow>
          if cc_view (rb_cc s) \<noteq> ns_view k then initRecovery E s
          else (case rb_currentState s of
              None \<Rightarrow> Some (None, s)
            | Some st \<Rightarrow>
                let s1 = roff InSyncState (stopT syncStateRspTimer s) in
                if ms_height (ss_meta st) \<noteq> ns_height k
                then (if isPrimary (selfID s1) s1 then sendViewChange E False s1 else initRecovery E s1)
                else if ms_digest (ss_meta st) \<noteq> ns_digest k
                then Some (None, tryStateTransfer (updateHighStateTarget
                       \<lparr>ms_height = ns_height k, ms_digest = ns_digest k, ms_batchDigest = []\<rparr> cset [] s1))
                else Some (None, emit (SendFilterEvent (StableCheckpoint cset)) s1)))"

section \<open>Asking for states\<close>

definition recvSyncStateResponse :: "'p env \<Rightarrow> syncStateRsp \<Rightarrow> bool \<Rightarrow> 'p handler" where
  "recvSyncStateResponse E r local s =
     (if \<not> rin InSyncState s then Some (None, s)
      else case sr_checkpoint r of
          None \<Rightarrow> Some (None, s)
        | Some c \<Rightarrow>
            if sc_checkpoint c = None then Some (None, s)
            else if \<not> local \<and> \<not> verifySignedCheckpoint E c then Some (None, s)
            else if (case gget (rb_recovery s) (sr_replicaId r) of
                       None \<Rightarrow> False | Some old \<Rightarrow> ns_height (responseState old) > sc_Height c) then Some (None, s)
            else let s1 = rb_recovery_update (gput (sr_replicaId r) r) s in
              if gsize (rb_recovery s1) \<ge> commonCaseQuorum (rb_cc s1)
              then compareWholeStates E (map snd (rb_recovery s1)) s1
              else Some (None, s1))"

definition initSyncState :: "'p env \<Rightarrow> 'p act" where
  "initSyncState E s =
     (if rin InSyncState s then Some s
      else do {
        s1 \<leftarrow> startT E syncStateRspTimer RecoverySyncStateRspTimer (ron InSyncState s);
        let s2 = s1\<lparr>rb_recovery := gempty\<rparr>;
        let s3 = broadcast (SyncState (cc_selfP2P (rb_cc s2))) s2;
        (case rb_currentState s3 of
           None \<Rightarrow> Some s3
         | Some st \<Rightarrow>
             let h = ms_height (ss_meta st);
                 bd = (case gget (sm_seqMap (rb_store s3)) h of None \<Rightarrow> [] | Some d \<Rightarrow> d)
             in (case generateSignedCheckpoint E st bd (risConfigBatch h s3) False s3 of
                   None \<Rightarrow> None
                 | Some (None, s4) \<Rightarrow> Some (stopNamespace s4)
                 | Some (Some sc, s4) \<Rightarrow>
                     dropEvent (recvSyncStateResponse E
                       \<lparr>sr_replicaId = selfID s4, sr_view = cc_view (rb_cc s4), sr_checkpoint = Some sc\<rparr> True) s4)) })"

definition restartSyncState :: "'p env \<Rightarrow> 'p act" where
  "restartSyncState E s = do {
     s1 \<leftarrow> startT E syncStateRestartTimer RecoverySyncStateRestartTimer (s\<lparr>rb_recovery := gempty\<rparr>);
     initSyncState E s1 }"

definition syncBatchDigest :: "metaState \<Rightarrow> 'p replica \<Rightarrow> string option" where
  \<comment> \<open>the batch digest a replica reports: of its state, or else of its own checkpoint of that height\<close>
  "syncBatchDigest m s =
     (if ms_batchDigest m \<noteq> [] then Some (ms_batchDigest m)
      else case gget (sm_localCheckpoints (rb_store s)) (ms_height m) of
          None \<Rightarrow> Some []
        | Some c \<Rightarrow> map_option es_batchDigest (Option.bind (sc_checkpoint c) ck_state))"

definition recvSyncState :: "'p env \<Rightarrow> string \<Rightarrow> 'p act" where
  "recvSyncState E p2p s =
     (if en_nodeIDByP2P E p2p = None \<or> \<not> risNormal s then Some s
      else case rb_currentState s of
          None \<Rightarrow> Some s
        | Some st \<Rightarrow> do {
            bd \<leftarrow> syncBatchDigest (ss_meta st) s;
            (sc, s1) \<leftarrow> generateSignedCheckpoint E st bd (risConfigBatch (ms_height (ss_meta st)) s) False s;
            Some (case sc of
                    None \<Rightarrow> stopNamespace s1
                  | Some c \<Rightarrow> unicastByP2PID (SyncStateResponse (selfID s1) (cc_view (rb_cc s1)) (Some c)) p2p s1) })"

end
