(* ===== verification/Dispatch.thy ===== *)
theory Dispatch
  imports Recovery
begin

text \<open>
  The event loop (\<open>rbft_impl.go\<close>, \<open>exec.go\<close>): the filters that drop or cache a message, the dispatching
  of messages and local events to their handlers, and the loop that processes an event and every event
  that follows from it. Two handlers process further events themselves (cached events after a
  checkpoint, the view changes of a quorum): they take the loop as argument, and the knot is tied with
  fuel, one unit per processed event.
\<close>

section \<open>Filters\<close>

fun canProcessEventsWhenWaitCheckpoint :: "localEvent \<Rightarrow> bool" where
  "canProcessEventsWhenWaitCheckpoint (CoreCheckpointBlockExecuted st) = True"
| "canProcessEventsWhenWaitCheckpoint CoreCheckPoolTimer = True"
| "canProcessEventsWhenWaitCheckpoint CoreRebroadcastTxs = True"
| "canProcessEventsWhenWaitCheckpoint e = False"

fun canProcessMsgsWhenWaitCheckpoint :: "payload \<Rightarrow> bool" where
  "canProcessMsgsWhenWaitCheckpoint (MFetchMissingRequest f) = True"
| "canProcessMsgsWhenWaitCheckpoint (SyncState p) = True"
| "canProcessMsgsWhenWaitCheckpoint (SyncStateResponse i v c) = True"
| "canProcessMsgsWhenWaitCheckpoint (FetchPQCRequest i h) = True"
| "canProcessMsgsWhenWaitCheckpoint (MFetchPQCResponse r) = True"
| "canProcessMsgsWhenWaitCheckpoint (FetchCheckpoint i n) = True"
| "canProcessMsgsWhenWaitCheckpoint (EpochChangeRequest a b c p) = True"
| "canProcessMsgsWhenWaitCheckpoint (MEpochChangeProof p) = True"
| "canProcessMsgsWhenWaitCheckpoint p = False"

fun validatorAcceptMsgsFromNonValidator :: "payload \<Rightarrow> bool" where
  "validatorAcceptMsgsFromNonValidator (ReBroadcastRequestSet i ts) = True"
| "validatorAcceptMsgsFromNonValidator (MViewChange vc) = True"
| "validatorAcceptMsgsFromNonValidator (FetchCheckpoint i n) = True"
| "validatorAcceptMsgsFromNonValidator (FetchView i v) = True"
| "validatorAcceptMsgsFromNonValidator (FetchBatchRequest i d) = True"
| "validatorAcceptMsgsFromNonValidator (FetchPQCRequest i h) = True"
| "validatorAcceptMsgsFromNonValidator (MFetchMissingRequest f) = True"
| "validatorAcceptMsgsFromNonValidator (SyncState p) = True"
| "validatorAcceptMsgsFromNonValidator (EpochChangeRequest a b c p) = True"
| "validatorAcceptMsgsFromNonValidator p = False"

fun ConsensusMsgWhiteList :: "payload \<Rightarrow> bool" where
  "ConsensusMsgWhiteList (MFetchMissingRequest f) = True"
| "ConsensusMsgWhiteList (FetchCheckpoint i n) = True"
| "ConsensusMsgWhiteList (FetchBatchRequest i d) = True"
| "ConsensusMsgWhiteList (SyncState p) = True"
| "ConsensusMsgWhiteList p = False"

definition cacheEvent :: "event \<Rightarrow> 'p replica \<Rightarrow> 'p replica" where
  "cacheEvent e = rb_store_update (sm_beforeCheckpointEventCache_update (\<lambda>l. l @ [e]))"

definition checkEventCanProcessWhenWaitCheckpoint :: "bool \<Rightarrow> event \<Rightarrow> 'p replica \<Rightarrow> bool \<times> 'p replica" where
  \<comment> \<open>\<open>allowed\<close>: the type of the event is in the table\<close>
  "checkEventCanProcessWhenWaitCheckpoint allowed e s =
     (if \<not> rin waitCheckpointBatchExecute s then (True, s)
      else if allowed then (True, s)
      else (False, cacheEvent e s))"

definition checkMsgCanProcessWhenWaitCheckpoint :: "payload \<Rightarrow> event \<Rightarrow> 'p replica \<Rightarrow> bool \<times> 'p replica" where
  "checkMsgCanProcessWhenWaitCheckpoint p e s =
     (if \<not> rin waitCheckpointBatchExecute s then (True, s)
      else if canProcessMsgsWhenWaitCheckpoint p then (True, s)
      else (False, cacheEvent e s))"

definition checkMsgCanAccept :: "payload \<Rightarrow> u64 \<Rightarrow> 'p replica \<Rightarrow> bool" where
  "checkMsgCanAccept p sender s =
     (if risValidator s \<and> \<not> CheckValidator (rb_cc s) sender then validatorAcceptMsgsFromNonValidator p else True)"

definition msgToEvent :: "payload \<Rightarrow> 'p replica \<Rightarrow> bool" where
  \<comment> \<open>whether the message becomes an event: a batch nobody asked for does not; payloads decode\<close>
  "msgToEvent p s =
     (case p of
        FetchBatchResponse i b d \<Rightarrow> ghas (sm_missingReqBatches (rb_store s)) d
      | _ \<Rightarrow> True)"

section \<open>Messages\<close>

definition quietly :: "'p act \<Rightarrow> 'p handler" where
  "quietly f s = map_option (Pair None) (f s)"

definition dispatchCoreRbftMsg :: "'p env \<Rightarrow> payload \<Rightarrow> 'p handler" where
  "dispatchCoreRbftMsg E p =
     (case p of
        NullRequest i \<Rightarrow> recvNullRequest E i
      | MPrePrepare m \<Rightarrow> quietly (recvPrePrepare E m)
      | MPrepare m \<Rightarrow> quietly (recvPrepare E m)
      | MCommit m \<Rightarrow> quietly (recvCommit E m)
      | MFetchMissingRequest f \<Rightarrow> quietly (recvFetchMissingRequest E f)
      | MFetchMissingResponse r \<Rightarrow> recvFetchMissingResponse E r
      | MSignedCheckpoint c \<Rightarrow> recvCheckpoint E c False
      | ReBroadcastRequestSet i ts \<Rightarrow> quietly (Some \<circ> recvReBroadcastRequestSet E ts)
      | _ \<Rightarrow> quietly Some)"

definition dispatchViewChangeMsg :: "(event \<Rightarrow> 'p act) \<Rightarrow> 'p env \<Rightarrow> payload \<Rightarrow> 'p handler" where
  "dispatchViewChangeMsg run E p =
     (case p of
        MViewChange vc \<Rightarrow> (\<lambda>s. if rin waitCheckpointFinished s then Some (None, s) else recvViewChange E vc False s)
      | MNewView nv \<Rightarrow> recvNewView run E nv
      | FetchBatchRequest i d \<Rightarrow> quietly (Some \<circ> recvFetchRequestBatch E i d)
      | FetchBatchResponse i b d \<Rightarrow> recvFetchBatchResponse E b d
      | FetchView i v \<Rightarrow> quietly (Some \<circ> recvFetchView E i v)
      | MRecoveryResponse r \<Rightarrow> recvRecoveryResponse E r
      | QuorumViewChange i vcs \<Rightarrow> quietly (recvQuorumViewChange run E vcs)
      | _ \<Rightarrow> quietly Some)"

definition dispatchRecoveryMsg :: "'p env \<Rightarrow> payload \<Rightarrow> 'p handler" where
  "dispatchRecoveryMsg E p =
     (case p of
        SyncState a \<Rightarrow> quietly (recvSyncState E a)
      | SyncStateResponse i v c \<Rightarrow>
          recvSyncStateResponse E \<lparr>sr_replicaId = i, sr_view = v, sr_checkpoint = c\<rparr> False
      | FetchPQCRequest i h \<Rightarrow> quietly (Some \<circ> recvFetchPQCRequest E i h)
      | MFetchPQCResponse r \<Rightarrow> quietly (recvFetchPQCResponse E r)
      | _ \<Rightarrow> quietly Some)"

definition dispatchEpochMsg :: "'p env \<Rightarrow> payload \<Rightarrow> 'p handler" where
  \<comment> \<open>epoch requests and proofs of the current epoch are only logged\<close>
  "dispatchEpochMsg E p =
     (case p of
        FetchCheckpoint i n \<Rightarrow> quietly (Some \<circ> recvFetchCheckpoint E i n)
      | _ \<Rightarrow> quietly Some)"

datatype service = CoreRbftService | ViewChangeService | RecoveryService | EpochMgrService

fun dispatchMsgToService :: "payload \<Rightarrow> service" where
  "dispatchMsgToService (MViewChange vc) = ViewChangeService"
| "dispatchMsgToService (MNewView nv) = ViewChangeService"
| "dispatchMsgToService (FetchBatchRequest i d) = ViewChangeService"
| "dispatchMsgToService (FetchBatchResponse i b d) = ViewChangeService"
| "dispatchMsgToService (FetchView i v) = ViewChangeService"
| "dispatchMsgToService (MRecoveryResponse r) = ViewChangeService"
| "dispatchMsgToService (QuorumViewChange i vcs) = ViewChangeService"
| "dispatchMsgToService (FetchPQCRequest i h) = RecoveryService"
| "dispatchMsgToService (MFetchPQCResponse r) = RecoveryService"
| "dispatchMsgToService (SyncState a) = RecoveryService"
| "dispatchMsgToService (SyncStateResponse i v c) = RecoveryService"
| "dispatchMsgToService (FetchCheckpoint i n) = EpochMgrService"
| "dispatchMsgToService (EpochChangeRequest a b c p) = EpochMgrService"
| "dispatchMsgToService (MEpochChangeProof p) = EpochMgrService"
| "dispatchMsgToService p = CoreRbftService"

definition dispatchConsensusMsg :: "(event \<Rightarrow> 'p act) \<Rightarrow> 'p env \<Rightarrow> payload \<Rightarrow> 'p handler" where
  "dispatchConsensusMsg run E p =
     (case dispatchMsgToService p of
        CoreRbftService \<Rightarrow> dispatchCoreRbftMsg E p
      | ViewChangeService \<Rightarrow> dispatchViewChangeMsg run E p
      | RecoveryService \<Rightarrow> dispatchRecoveryMsg E p
      | EpochMgrService \<Rightarrow> dispatchEpochMsg E p)"

definition consensusMessageFilter :: "(event \<Rightarrow> 'p act) \<Rightarrow> 'p env \<Rightarrow> consensusMessage \<Rightarrow> 'p handler" where
  "consensusMessageFilter run E m s =
     (if m_epoch m \<noteq> ei_epoch (cc_epochInfo (rb_cc s)) \<and> \<not> ConsensusMsgWhiteList (m_payload m)
      then (case (if m_epoch m > em_epoch (rb_epoch s)
                  then checkEventCanProcessWhenWaitCheckpoint False (ConsensusEvent m) s else (True, s)) of
              (False, s1) \<Rightarrow> Some (None, s1)
            | (True, s1) \<Rightarrow> checkEpoch E m s1)
      else if \<not> checkMsgCanAccept (m_payload m) (m_from m) s then Some (None, s)
      else if \<not> msgToEvent (m_payload m) s then Some (None, s)
      else dispatchConsensusMsg run E (m_payload m) s)"

section \<open>Local events of the core\<close>

definition generateAndPost :: "'p env \<Rightarrow> genBatchEvent \<Rightarrow> 'p act" where
  \<comment> \<open>a batch of the pool is posted at once; an error of the pool is only logged\<close>
  "generateAndPost E g s =
     (case en_poolGenerate E g (rb_pool s) of
        (None, q) \<Rightarrow> Some (withPool q s)
      | (Some b, q) \<Rightarrow> postBatches E [b] (rb_batch_update (bm_lastBatchTime_update (\<lambda>_. en_now E)) (withPool q s)))"

definition handleBatchTimer :: "'p env \<Rightarrow> 'p act" where
  \<comment> \<open>\<open>CoreBatchTimerEvent\<close>; the comparison of seconds is one of nanoseconds here\<close>
  "handleBatchTimer E s =
     (if \<not> risValidator s then Some s
      else if \<not> risNormal s \<or> \<not> isPrimary (selfID s) s then Some (stopBatchTimer s)
      else if ratomicIn InConfChange s then restartBatchTimer E s
      else if bm_cacheBatch (rb_batch s) \<noteq> []
      then do { s1 \<leftarrow> restartBatchTimer E s; maybeSendPrePrepare E None s1 }
      else let s1 = stopBatchTimer s in
        if \<not> en_poolHasPending E (rb_pool s1) \<or> \<not> inPrimaryTerm s1 then restartBatchTimer E s1
        else let s2 = stopNoTxBatchTimer s1 in
          if en_now E - bm_lastBatchTime (rb_batch s2) < tc_batch (cf_timers (rb_config s2)) then Some s2
          else do {
            s3 \<leftarrow> generateAndPost E GenBatchTimeout s2;
            s4 \<leftarrow> (if cp_enableTimedGenEmptyBlock (ei_params (cc_epochInfo (rb_cc s3))) \<and>
                      \<not> bm_noTxBatchTimerActive (rb_batch s3) \<and> \<not> en_poolHasPending E (rb_pool s3)
                   then startNoTxBatchTimer E s3 else Some s3);
            restartBatchTimer E s4 })"

definition handleNoTxBatchTimer :: "'p env \<Rightarrow> 'p act" where
  "handleNoTxBatchTimer E s0 =
     (let s = stopNoTxBatchTimer s0 in
      if \<not> risValidator s \<or> \<not> risNormal s \<or> \<not> isPrimary (selfID s) s \<or>
         \<not> cp_enableTimedGenEmptyBlock (ei_params (cc_epochInfo (rb_cc s))) \<or> ratomicIn InConfChange s \<or>
         bm_cacheBatch (rb_batch s) \<noteq> [] \<or> en_poolHasPending E (rb_pool s) \<or> \<not> inPrimaryTerm s
      then Some s
      else do { s1 \<leftarrow> generateAndPost E GenBatchNoTxTimeout s; restartNoTxBatchTimer E s1 })"

definition handleCheckPool :: "'p env \<Rightarrow> bool \<Rightarrow> 'p act" where
  "handleCheckPool E timeout s = do {
     s1 \<leftarrow> processOutOfDateReqs E timeout (stopCheckPoolTimer s);
     restartCheckPoolTimer E s1 }"

definition busy :: "'p replica \<Rightarrow> bool" where
  \<comment> \<open>the status test of the notifications of the pool; it reads the flags with \<open>in\<close>\<close>
  "busy s = (\<not> risNormal s \<or> rin SkipInProgress s \<or> rin InRecovery s \<or> rin InEpochSyncing s \<or>
     rin waitCheckpointBatchExecute s)"

definition handleNotifyGenBatchEvent :: "'p env \<Rightarrow> 'p act" where
  "handleNotifyGenBatchEvent E s =
     map_option (\<lambda>t. withPool (en_poolReplySignal E (rb_pool t)) t)
       (if busy s \<or> \<not> isPrimary (selfID s) s \<or> \<not> inPrimaryTerm s then Some s
        else do {
          s1 \<leftarrow> generateAndPost E GenBatchSize (stopBatchTimer s);
          s2 \<leftarrow> restartBatchTimer E s1;
          restartNoTxBatchTimer E s2 })"

fun takeFetched :: "string list \<Rightarrow> (string, msgID) gomap \<Rightarrow> msgID list \<times> (string, msgID) gomap" where
  "takeFetched [] m = ([], m)"
| "takeFetched (h # hs) m =
     (case takeFetched hs (gdel h m) of (idxs, m') \<Rightarrow>
        (case gget m h of None \<Rightarrow> (idxs, m') | Some idx \<Rightarrow> (idx # idxs, m')))"

definition deferFetched :: "string list \<Rightarrow> 'p replica \<Rightarrow> 'p replica" where
  \<comment> \<open>a busy replica forgets the batches it was fetching, or keeps them until the checkpoint is executed\<close>
  "deferFetched hs s =
     (case takeFetched hs (sm_missingInFetching (rb_store s)) of (idxs, m) \<Rightarrow>
        let s1 = rb_store_update (sm_missingInFetching_update (\<lambda>_. m)) s
        in if rin waitCheckpointBatchExecute s
           then cacheEvent (LocalEvent (CoreFindNextPrepareBatches idxs)) s1 else s1)"

definition continueFetched :: "'p env \<Rightarrow> string \<Rightarrow> 'p act" where
  "continueFetched E h s =
     map_option (rb_store_update (sm_missingInFetching_update (gdel h)))
       (case gget (sm_missingInFetching (rb_store s)) h of
          None \<Rightarrow> Some s
        | Some idx \<Rightarrow> findNextPrepareBatch E idx s)"

definition handleNotifyFindNextBatchEvent :: "'p env \<Rightarrow> string list \<Rightarrow> 'p act" where
  \<comment> \<open>after the bookkeeping of a busy replica the code goes on\<close>
  "handleNotifyFindNextBatchEvent E hs s =
     (let s1 = (if busy s then deferFetched hs s else s)
      in if isPrimary (selfID s1) s1 then Some s1 else mfold (continueFetched E) hs s1)"

definition handleCoreRbftEvent :: "(event \<Rightarrow> 'p act) \<Rightarrow> 'p env \<Rightarrow> localEvent \<Rightarrow> 'p handler" where
  "handleCoreRbftEvent run E e s =
     (case e of
        CoreBatchTimer \<Rightarrow> quietly (handleBatchTimer E) s
      | CoreNoTxBatchTimer \<Rightarrow> quietly (handleNoTxBatchTimer E) s
      | CoreNullRequestTimer \<Rightarrow> quietly (handleNullRequestTimerEvent E) s
      | CoreCheckPoolTimer \<Rightarrow> quietly (handleCheckPool E True) s
      | CoreRebroadcastTxs \<Rightarrow> quietly (handleCheckPool E False) s
      | CoreStateUpdated st \<Rightarrow> recvStateUpdatedEvent E st s
      | CoreCheckpointBlockExecuted st \<Rightarrow> quietly (recvCheckpointBlockExecutedEvent run E st) s
      | CoreFindNextPrepareBatches idxs \<Rightarrow> quietly (mfold (findNextPrepareBatch E) idxs) s
      | CoreHighWatermark h \<Rightarrow>
          if ratomicIn InViewChange s \<or> h < cc_H (rb_cc s) then Some (None, s) else sendViewChange E False s
      | _ \<Rightarrow> Some (None, s))"

section \<open>Local events of recovery, view change and epochs\<close>

definition handleRecoveryEvent :: "'p env \<Rightarrow> localEvent \<Rightarrow> 'p handler" where
  "handleRecoveryEvent E e s =
     (case e of
        RecoveryInit v \<Rightarrow> if v < cc_view (rb_cc s) then Some (None, s) else initRecovery E s
      | RecoverySyncStateRspTimer \<Rightarrow>
          let s1 = exitSyncState s in if \<not> risNormal s1 then Some (None, s1) else initRecovery E s1
      | RecoverySyncStateRestartTimer \<Rightarrow>
          let s1 = exitSyncState s in if \<not> risNormal s1 then Some (None, s1) else quietly (restartSyncState E) s1
      | _ \<Rightarrow> Some (None, s))"

definition reportCheckpoint :: "serviceState \<Rightarrow> 'p act" where
  "reportCheckpoint st s =
     (if ratomicIn Pending s then Some s
      else let h = ms_height (ss_meta st) in
        if em_configBatchToExecute (rb_epoch s) = h then
          Some (emit (PostMsg (LocalEvent (CoreCheckpointBlockExecuted st))) s)
        else if checkpointPeriod s = 0 then None
        else Some (if h mod checkpointPeriod s = 0
                   then emit (PostMsg (LocalEvent (CoreCheckpointBlockExecuted st))) s else s))"

definition forgetOldViews :: "'p replica \<Rightarrow> 'p replica" where
  "forgetOldViews s =
     rb_vc_update (\<lambda>m. m\<lparr>
       vm_viewChangeStore := gkeep (\<lambda>(v, _) _. \<not> v \<le> cc_view (rb_cc s)) (vm_viewChangeStore m),
       vm_newViewStore := gkeep (\<lambda>v _. \<not> v < cc_view (rb_cc s)) (vm_newViewStore m),
       vm_newViewCache := gkeep (\<lambda>i _. \<not> ni_targetView i \<le> cc_view (rb_cc s)) (vm_newViewCache m)\<rparr>) s"

definition leaveViewChange :: "'p act" where
  "leaveViewChange s =
     (let s1 = raOff InViewChange s in
      if ratomicIn InRecovery s1 then
        let s2 = emit (SendFilterEvent FinishRecovery) (raOff InRecovery s1) in
        if cc_H (rb_cc s2) < ms_height (ss_meta (cf_lastServiceState (rb_config s2)))
        then reportCheckpoint (cf_lastServiceState (rb_config s2)) s2
        else Some s2
      else Some (emit (SendFilterEvent FinishViewChange) s1))"

definition resumePrimary :: "'p env \<Rightarrow> 'p act" where
  \<comment> \<open>what a replica does last in \<open>ViewChangeDoneEvent\<close>\<close>
  "resumePrimary E s =
     (if isPrimary (selfID s) s
      then do { s1 \<leftarrow> primaryResubmitTransactions E s;
                s2 \<leftarrow> restartBatchTimer E s1;
                restartNoTxBatchTimer E s2 }
      else Some (fetchRecoveryPQC s))"

definition handleViewChangeDone :: "'p env \<Rightarrow> 'p handler" where
  "handleViewChangeDone E s = do {
     s1 \<leftarrow> updateViewChangeSeqNo (rb_lastExec s) (checkpointPeriod s) s;
     let s2 = rb_vc_update (vm_newViewStore_update (gdel (cc_view (rb_cc s1)))) s1;
     let s3 = rb_store_update (sm_missingInFetching_update (\<lambda>_. gempty)) s2;
     s4 \<leftarrow> startTimerIfOutstandingRequests E (stopFetchViewTimer (stopNewViewTimer s3));
     s5 \<leftarrow> leaveViewChange s4;
     active \<leftarrow> isActiveCheckPoolTimer s5;
     s6 \<leftarrow> (if active then Some s5 else startCheckPoolTimer E s5);
     let s7 = forgetOldViews (rmaybeSetNormal s6);
     (changed, s8) \<leftarrow> (if cc_H (rb_cc s7) = ms_height (ss_meta (cf_lastServiceState (rb_config s7)))
                        then syncEpoch E s7 else Some (False, s7));
     (if changed then initRecovery E s8 else quietly (resumePrimary E) s8) }"

definition handleViewChangeEvent :: "'p env \<Rightarrow> localEvent \<Rightarrow> 'p handler" where
  "handleViewChangeEvent E e s =
     (case e of
        ViewChangeTimer demand \<Rightarrow>
          if (case demand of Some d \<Rightarrow> cc_view (rb_cc s) > d | None \<Rightarrow> ratomicIn InViewChange s)
          then Some (None, s) else sendViewChange E False s
      | ViewChangeDone \<Rightarrow> handleViewChangeDone E s
      | ViewChangeResendTimer \<Rightarrow>
          if \<not> ratomicIn InViewChange s then Some (None, s)
          else do { s1 \<leftarrow> setView E (cc_view (rb_cc s) - 1) s; initRecovery E s1 }
      | ViewChangeQuorum \<Rightarrow>
          if isPrimary (selfID s) s
          then (if rin SkipInProgress s then Some (None, s) else sendNewView E s)
          else replicaCheckNewView E s
      | FetchViewExpired \<Rightarrow> quietly (tryFetchView E) s
      | _ \<Rightarrow> Some (None, s))"

definition handleReqGetWatermarkEvent :: "'p replica \<Rightarrow> 'p replica" where
  \<comment> \<open>the answer is written to the channel of the request\<close>
  "handleReqGetWatermarkEvent s = emit (WatermarkReply (cc_H (rb_cc s))) s"

definition dispatchMiscEvent :: "'p env \<Rightarrow> event \<Rightarrow> 'p handler" where
  "dispatchMiscEvent E e =
     (case e of
        ReqGetWatermark \<Rightarrow> quietly (Some \<circ> handleReqGetWatermarkEvent)
      | NotifyGenBatch \<Rightarrow> quietly (handleNotifyGenBatchEvent E)
      | NotifyFindNextBatch hs \<Rightarrow> quietly (handleNotifyFindNextBatchEvent E hs)
      | _ \<Rightarrow> quietly Some)"

definition handleEpochMgrEvent :: "'p env \<Rightarrow> localEvent \<Rightarrow> 'p handler" where
  "handleEpochMgrEvent E e s =
     (case e of
        FetchCheckpointExpired \<Rightarrow> quietly (handleFetchCheckpointEvent E) s
      | EpochSync p \<Rightarrow> quietly (handleEpochSyncEvent E p) s
      | _ \<Rightarrow> Some (None, s))"

fun serviceOf :: "localEvent \<Rightarrow> service" where
  \<comment> \<open>the service with which every local event is created\<close>
  "serviceOf (ViewChangeTimer d) = ViewChangeService"
| "serviceOf ViewChangeResendTimer = ViewChangeService"
| "serviceOf ViewChangeQuorum = ViewChangeService"
| "serviceOf ViewChangeDone = ViewChangeService"
| "serviceOf FetchViewExpired = ViewChangeService"
| "serviceOf (RecoveryInit v) = RecoveryService"
| "serviceOf RecoverySyncStateRspTimer = RecoveryService"
| "serviceOf RecoverySyncStateRestartTimer = RecoveryService"
| "serviceOf FetchCheckpointExpired = EpochMgrService"
| "serviceOf (EpochSync p) = EpochMgrService"
| "serviceOf e = CoreRbftService"

definition dispatchLocalEvent :: "(event \<Rightarrow> 'p act) \<Rightarrow> 'p env \<Rightarrow> localEvent \<Rightarrow> 'p handler" where
  "dispatchLocalEvent run E e =
     (case serviceOf e of
        CoreRbftService \<Rightarrow> handleCoreRbftEvent run E e
      | ViewChangeService \<Rightarrow> handleViewChangeEvent E e
      | RecoveryService \<Rightarrow> handleRecoveryEvent E e
      | EpochMgrService \<Rightarrow> handleEpochMgrEvent E e)"

section \<open>The event loop\<close>

definition processEvent :: "(event \<Rightarrow> 'p act) \<Rightarrow> 'p env \<Rightarrow> event \<Rightarrow> 'p handler" where
  "processEvent run E e s =
     (case e of
        LocalEvent l \<Rightarrow>
          (case checkEventCanProcessWhenWaitCheckpoint (canProcessEventsWhenWaitCheckpoint l) e s of
             (False, s1) \<Rightarrow> Some (None, s1)
           | (True, s1) \<Rightarrow> dispatchLocalEvent run E l s1)
      | ConsensusEvent m \<Rightarrow>
          (case checkMsgCanProcessWhenWaitCheckpoint (m_payload m) e s of
             (False, s1) \<Rightarrow> Some (None, s1)
           | (True, s1) \<Rightarrow> consensusMessageFilter run E m s1)
      | _ \<Rightarrow> dispatchMiscEvent E e s)"

fun runEvents :: "nat \<Rightarrow> 'p env \<Rightarrow> event \<Rightarrow> 'p act" where
  \<comment> \<open>the inner loop of \<open>listenEvent\<close>, and of the handlers that process events themselves\<close>
  "runEvents 0 E e s = None"
| "runEvents (Suc k) E e s =
     (case processEvent (runEvents k E) E e s of
        None \<Rightarrow> None
      | Some (None, s1) \<Rightarrow> Some s1
      | Some (Some e', s1) \<Rightarrow> runEvents k E e' s1)"

definition listenEvent :: "nat \<Rightarrow> 'p env \<Rightarrow> event \<Rightarrow> 'p act" where
  \<comment> \<open>one round of the outer loop: an event from the channel, then the view of its sender\<close>
  "listenEvent k E e s =
     map_option (\<lambda>s1. case e of ConsensusEvent m \<Rightarrow> checkView m s1 | _ \<Rightarrow> s1) (runEvents k E e s)"

end
