(* ===== verification/EpochSafety.thy ===== *)
theory EpochSafety
  imports Dispatch
begin

text \<open>
  Properties of the epochs: what a page of quorum checkpoints contains, that the pages an honest replica
  serves bring a replica that is behind to the target epoch, how a proof of another epoch is checked, and
  what the filter of messages lets a replica do on a message of another epoch.
\<close>

section \<open>A page of epoch changes\<close>

lemma those_Some_iff: "those xs = Some ys \<longleftrightarrow> xs = map Some ys"
proof (induction xs arbitrary: ys)
  case (Cons x xs)
  then show ?case by (cases x; cases ys) auto
qed auto

definition pageEnd :: "u64 \<Rightarrow> u64 \<Rightarrow> u64 \<Rightarrow> u64" where
  \<comment> \<open>the first epoch that is not on the page\<close>
  "pageEnd start endEpoch limit = (if endEpoch - start > limit then start + limit else endEpoch)"

lemma unat_pageEnd:
  assumes "start \<le> endEpoch"
  shows "unat (pageEnd start endEpoch limit) = unat start + min (unat endEpoch - unat start) (unat limit)"
    and "endEpoch - start > limit \<longleftrightarrow> unat endEpoch - unat start > unat limit"
proof -
  have d: "unat (endEpoch - start) = unat endEpoch - unat start" using assms by (rule unat_sub)
  show gt: "endEpoch - start > limit \<longleftrightarrow> unat endEpoch - unat start > unat limit"
    by (simp add: word_less_nat_alt d)
  show "unat (pageEnd start endEpoch limit) = unat start + min (unat endEpoch - unat start) (unat limit)"
  proof (cases "endEpoch - start > limit")
    case True
    then have "unat start + unat limit < 2 ^ 64" using gt unsigned_less [of endEpoch, where ?'a = nat] by simp
    then have "unat (start + limit) = unat start + unat limit" by (simp add: unat_word_ariths)
    with True gt show ?thesis by (simp add: pageEnd_def)
  next
    case False
    with gt show ?thesis using assms by (simp add: pageEnd_def word_le_nat_alt)
  qed
qed

lemma paging_Some:
  "pagingGetEpochChangeProof start e limit s = Some p \<longleftrightarrow>
     (\<exists>qs. map (\<lambda>e. getEpochQuorumCheckpoint (of_nat e) s) [unat start ..< unat (pageEnd start e limit)] = map Some qs \<and>
        p = \<lparr>ep_changes = map epochChangeOf qs, ep_more = (if e - start > limit then e else 0),
             ep_author = selfID s, ep_genesis = []\<rparr>)"
  by (auto simp: pagingGetEpochChangeProof_def Let_def those_Some_iff pageEnd_def)

text \<open>C27. A page of epoch changes from epoch \<open>start\<close> to \<open>endEpoch\<close> holds at most \<open>limit\<close> changes, all of them
  when they fit; they are the stored quorum checkpoints of \<open>start\<close>, \<open>start + 1\<close> and so on without a gap; and
  \<open>more\<close> is the end that was asked for when the page was cut, and zero otherwise.\<close>

theorem epochPage_contiguous:
  assumes "pagingGetEpochChangeProof start endEpoch limit s = Some p" "start \<le> endEpoch"
  shows "List.length (ep_changes p) = min (unat endEpoch - unat start) (unat limit) \<and>
    ep_more p = (if unat endEpoch - unat start > unat limit then endEpoch else 0) \<and>
    (\<forall>i < List.length (ep_changes p). \<exists>q. getEpochQuorumCheckpoint (start + of_nat i) s = Some q \<and>
       ep_changes p ! i = epochChangeOf q)"
proof -
  from assms(1) obtain qs where
    qs: "map (\<lambda>e. getEpochQuorumCheckpoint (of_nat e) s) [unat start ..< unat (pageEnd start endEpoch limit)] = map Some qs"
    and p: "p = \<lparr>ep_changes = map epochChangeOf qs, ep_more = (if endEpoch - start > limit then endEpoch else 0),
             ep_author = selfID s, ep_genesis = []\<rparr>"
    unfolding paging_Some by blast
  note e = unat_pageEnd [OF assms(2), of limit]
  have len: "List.length qs = min (unat endEpoch - unat start) (unat limit)"
    using arg_cong [OF qs, of List.length] e(1) by simp
  have "getEpochQuorumCheckpoint (start + of_nat i) s = Some (qs ! i)" if "i < List.length qs" for i
    using arg_cong [OF qs, of "\<lambda>l. l ! i"] that e(1) len by (simp add: nth_map_upt)
  with len e(2) p show ?thesis by auto
qed

definition sampleQuorum :: "u64 \<Rightarrow> quorumCheckpoint" where
  \<comment> \<open>the quorum checkpoint at the end of an epoch, at ten times the epoch's number\<close>
  "sampleQuorum e = \<lparr>qc_checkpoint = Some (Checkpoint e
       (Some \<lparr>es_height = 10 * e, es_digest = ''s'', es_batchDigest = []\<rparr>) True None),
     qc_signatures = [(2, []), (3, []), (4, [])], qc_validatorSet = []\<rparr>"

definition sampleEpochs :: "unit replica" where
  \<comment> \<open>the sample that knows the epochs 1 to 3 and is in epoch 4\<close>
  "sampleEpochs = rb_epoch_update (em_epoch_update (\<lambda>_. 4)) (rb_cc_update (cc_epochInfo_update (\<lambda>i. i\<lparr>ei_epoch := 4\<rparr>))
     (sampleReplica\<lparr>rb_epochStore := [(''epoch_q_chkpt.1'', SQuorumCheckpoint (sampleQuorum 1)),
       (''epoch_q_chkpt.2'', SQuorumCheckpoint (sampleQuorum 2)),
       (''epoch_q_chkpt.3'', SQuorumCheckpoint (sampleQuorum 3))]\<rparr>))"

lemma sampleEpochs_stored:
  "getEpochQuorumCheckpoint 1 sampleEpochs = Some (sampleQuorum 1)"
  "getEpochQuorumCheckpoint 2 sampleEpochs = Some (sampleQuorum 2)"
  "getEpochQuorumCheckpoint 3 sampleEpochs = Some (sampleQuorum 3)"
  by code_simp+

lemma sampleEpochs_page: "pagingGetEpochChangeProof 1 4 2 sampleEpochs =
   Some \<lparr>ep_changes = [epochChangeOf (sampleQuorum 1), epochChangeOf (sampleQuorum 2)], ep_more = 4,
         ep_author = 1, ep_genesis = []\<rparr>"
  by code_simp

theorem epochPage_contiguous_witness:
  "\<exists>p. pagingGetEpochChangeProof 1 4 2 sampleEpochs = Some p \<and> List.length (ep_changes p) = 2 \<and> ep_more p = 4 \<and>
     (\<exists>q. getEpochQuorumCheckpoint 2 sampleEpochs = Some q \<and> ep_changes p ! 1 = epochChangeOf q)"
proof -
  note page = epochPage_contiguous [OF sampleEpochs_page]
  have "(1 :: u64) \<le> 4" by simp
  from page [OF this] show ?thesis
    using sampleEpochs_page by (auto simp: sampleEpochs_stored dest: spec [of _ 1])
qed

section \<open>Catching up\<close>

definition epochsStored :: "u64 \<Rightarrow> u64 \<Rightarrow> 'p replica \<Rightarrow> bool" where
  \<comment> \<open>the quorum checkpoint at the end of every one of these epochs is stored under its epoch\<close>
  "epochsStored start target s = (\<forall>e. start \<le> e \<longrightarrow> e < target \<longrightarrow>
     (\<exists>q k. getEpochQuorumCheckpoint e s = Some q \<and> qc_checkpoint q = Some k \<and> ck_epoch k = e \<and> ck_needUpdateEpoch k))"

lemma epochsStored_mono: "epochsStored a c s \<Longrightarrow> a \<le> b \<Longrightarrow> epochsStored b c s"
  by (auto simp: epochsStored_def dest: order_trans)

lemma unat_below: "n < unat (w :: u64) \<Longrightarrow> unat (of_nat n :: u64) = n"
  using unsigned_less [of w, where ?'a = nat] by (simp add: unat_of_nat)

lemma epochsStored_page:
  assumes "epochsStored start target s" "start < target" "0 < limit"
  obtains qs where "qs \<noteq> []"
    "pagingGetEpochChangeProof start target limit s = Some \<lparr>ep_changes = map epochChangeOf qs,
       ep_more = (if target - start > limit then target else 0), ep_author = selfID s, ep_genesis = []\<rparr>"
    "\<forall>q \<in> set qs. start \<le> qc_Epoch (Some q)" "qc_Epoch (Some (hd qs)) = start"
    "qc_NextEpoch (Some (last qs)) = Some (pageEnd start target limit)"
proof -
  define stop where "stop = pageEnd start target limit"
  define f where "f n = the (getEpochQuorumCheckpoint (of_nat n) s)" for n
  define qs where "qs = map f [unat start ..< unat stop]"
  have stop: "unat start < unat stop" "unat stop \<le> unat target"
    using unat_pageEnd(1) [OF less_imp_le [OF assms(2)], of limit] assms(2,3) by (auto simp: stop_def word_less_nat_alt)
  have f: "getEpochQuorumCheckpoint (of_nat n) s = Some (f n)" "qc_Epoch (Some (f n)) = of_nat n"
    "qc_NextEpoch (Some (f n)) = Some (of_nat (Suc n))" if "unat start \<le> n" "n < unat target" for n
  proof -
    have u: "unat (of_nat n :: u64) = n" using that(2) by (rule unat_below)
    then have "start \<le> of_nat n" "(of_nat n :: u64) < target" using that by (simp_all add: word_le_nat_alt word_less_nat_alt)
    then obtain q k where q: "getEpochQuorumCheckpoint (of_nat n) s = Some q" "qc_checkpoint q = Some k" "ck_epoch k = of_nat n"
        "ck_needUpdateEpoch k" using assms(1) by (auto simp: epochsStored_def)
    then have "f n = q" by (simp add: f_def)
    with q show "getEpochQuorumCheckpoint (of_nat n) s = Some (f n)" "qc_Epoch (Some (f n)) = of_nat n"
      "qc_NextEpoch (Some (f n)) = Some (of_nat (Suc n))"
      by (simp_all add: qc_Epoch_def qc_NextEpoch_def ck_NextEpoch_def add.commute)
  qed
  show thesis
  proof (rule that [of qs])
    show "qs \<noteq> []" using stop by (simp add: qs_def)
    have "map (\<lambda>e. getEpochQuorumCheckpoint (of_nat e) s) [unat start ..< unat stop] = map Some qs"
      using f(1) stop(2) by (auto simp: qs_def)
    then show "pagingGetEpochChangeProof start target limit s = Some \<lparr>ep_changes = map epochChangeOf qs,
       ep_more = (if target - start > limit then target else 0), ep_author = selfID s, ep_genesis = []\<rparr>"
      unfolding paging_Some stop_def by blast
    have "start \<le> of_nat n" if "unat start \<le> n" "n < unat target" for n
      using that unat_below [of n target] by (simp add: word_le_nat_alt)
    then show "\<forall>q \<in> set qs. start \<le> qc_Epoch (Some q)" using f(2) stop(2) by (auto simp: qs_def)
    show "qc_Epoch (Some (hd qs)) = start" using f(2) [of "unat start"] stop by (simp add: qs_def hd_map)
    have "last qs = f (unat stop - 1)" using stop(1) by (simp add: qs_def last_map)
    then show "qc_NextEpoch (Some (last qs)) = Some (pageEnd start target limit)"
      using f(3) [of "unat stop - 1"] stop by (simp add: stop_def)
  qed
qed

lemma dropWhile_hd: "xs \<noteq> [] \<Longrightarrow> \<not> P (hd xs) \<Longrightarrow> dropWhile P xs = xs"
  by (cases xs) auto

lemma honestPage:
  assumes "epochsStored start target r" "start < target" "target \<le> em_epoch (rb_epoch r)"
    and "ei_epoch (cc_epochInfo (rb_cc r)) = em_epoch (rb_epoch r)" "em_epoch (rb_epoch s) = start"
    and "cf_genesisBlockDigest (rb_config r) = cf_genesisBlockDigest (rb_config s)"
  obtains p where "processEpochChangeRequest E start target p2p r = unicastByP2PID (MEpochChangeProof p) p2p r"
    "checkEpoch E (mkMsg (MEpochChangeProof p) r) s = Some (Some (LocalEvent (EpochSync p)), s)"
    "ep_NextEpoch p = Some (pageEnd start target maxNumEpochEndingCheckpoint)"
proof -
  have "(0 :: u64) < maxNumEpochEndingCheckpoint" by (simp add: maxNumEpochEndingCheckpoint_def)
  from epochsStored_page [OF assms(1,2) this] obtain qs where ne: "qs \<noteq> []" and
    page: "pagingGetEpochChangeProof start target maxNumEpochEndingCheckpoint r = Some \<lparr>ep_changes = map epochChangeOf qs,
       ep_more = (if target - start > maxNumEpochEndingCheckpoint then target else 0), ep_author = selfID r, ep_genesis = []\<rparr>"
    and low: "\<forall>q \<in> set qs. start \<le> qc_Epoch (Some q)" and hd: "qc_Epoch (Some (hd qs)) = start"
    and last: "qc_NextEpoch (Some (last qs)) = Some (pageEnd start target maxNumEpochEndingCheckpoint)" by blast
  define p where "p = \<lparr>ep_changes = map epochChangeOf qs,
       ep_more = (if target - start > maxNumEpochEndingCheckpoint then target else 0), ep_author = selfID r,
       ep_genesis = cf_genesisBlockDigest (rb_config r)\<rparr>"
  have ec: "ec_checkpoint (epochChangeOf q) = Some q" for q by (simp add: epochChangeOf_def)
  have nxt: "ep_NextEpoch p = Some (pageEnd start target maxNumEpochEndingCheckpoint)"
    using ne last by (simp add: ep_NextEpoch_def ep_IsEmpty_def p_def last_map ec)
  have above: "start < pageEnd start target maxNumEpochEndingCheckpoint"
    using unat_pageEnd(1) [OF less_imp_le [OF assms(2)], of maxNumEpochEndingCheckpoint] assms(2)
    by (simp add: word_less_nat_alt maxNumEpochEndingCheckpoint_def)
  have same: "dropWhile (\<lambda>c. \<not> qc_Epoch (ec_checkpoint c) \<ge> em_epoch (rb_epoch s)) (ep_changes p) = ep_changes p"
    using ne hd assms(5) by (intro dropWhile_hd) (simp_all add: p_def hd_map ec)
  have "verifyEpochChangeProof p s = Some p"
    using ne hd assms(5) unfolding verifyEpochChangeProof_def same
    by (cases qs) (simp_all add: p_def ec)
  then have "processEpochChangeProof p s = Some (Some (LocalEvent (EpochSync p)))"
    using nxt above assms(5,6) by (simp add: processEpochChangeProof_def p_def)
  moreover have "em_epoch (rb_epoch s) < ei_epoch (cc_epochInfo (rb_cc r))" using assms(2-5) by simp
  ultimately have "checkEpoch E (mkMsg (MEpochChangeProof p) r) s = Some (Some (LocalEvent (EpochSync p)), s)"
    by (simp add: checkEpoch_def mkMsg_def)
  moreover have "processEpochChangeRequest E start target p2p r = unicastByP2PID (MEpochChangeProof p) p2p r"
    using assms(2,3) page by (simp add: processEpochChangeRequest_def verifyEpochChangeRequest_def p_def)
  ultimately show thesis using nxt that by blast
qed

definition catchUpRound :: "'p env \<Rightarrow> 'p replica \<Rightarrow> u64 \<Rightarrow> 'p replica \<Rightarrow> 'p replica" where
  \<comment> \<open>the replica \<open>s\<close> asks \<open>r\<close> for the epochs up to the target; when it accepts the answer, the state
     transfer that it starts takes it into the epoch after the last one of the answer\<close>
  "catchUpRound E r target s =
     (case drop (List.length (rb_out r))
             (rb_out (processEpochChangeRequest E (em_epoch (rb_epoch s)) target (cc_selfP2P (rb_cc s)) r)) of
        [Unicast m _] \<Rightarrow>
          (case checkEpoch E m s of
             Some (Some (LocalEvent (EpochSync p)), s1) \<Rightarrow>
               (case ep_NextEpoch p of Some e \<Rightarrow> rb_epoch_update (em_epoch_update (\<lambda>_. e)) s1 | None \<Rightarrow> s1)
           | _ \<Rightarrow> s)
      | _ \<Rightarrow> s)"

lemma catchUpRound_epoch:
  assumes "epochsStored (em_epoch (rb_epoch s)) target r" "em_epoch (rb_epoch s) \<le> target" "target \<le> em_epoch (rb_epoch r)"
    and "ei_epoch (cc_epochInfo (rb_cc r)) = em_epoch (rb_epoch r)"
    and "cf_genesisBlockDigest (rb_config r) = cf_genesisBlockDigest (rb_config s)"
  shows "em_epoch (rb_epoch (catchUpRound E r target s)) = pageEnd (em_epoch (rb_epoch s)) target maxNumEpochEndingCheckpoint"
    and "rb_config (catchUpRound E r target s) = rb_config s"
proof -
  have "em_epoch (rb_epoch (catchUpRound E r target s)) = pageEnd (em_epoch (rb_epoch s)) target maxNumEpochEndingCheckpoint \<and>
    rb_config (catchUpRound E r target s) = rb_config s"
  proof (cases "em_epoch (rb_epoch s) < target")
    case True
    obtain p where "processEpochChangeRequest E (em_epoch (rb_epoch s)) target (cc_selfP2P (rb_cc s)) r =
        unicastByP2PID (MEpochChangeProof p) (cc_selfP2P (rb_cc s)) r"
      "checkEpoch E (mkMsg (MEpochChangeProof p) r) s = Some (Some (LocalEvent (EpochSync p)), s)"
      "ep_NextEpoch p = Some (pageEnd (em_epoch (rb_epoch s)) target maxNumEpochEndingCheckpoint)"
      by (rule honestPage [OF assms(1) True assms(3,4) refl assms(5)])
    then show ?thesis by (simp add: catchUpRound_def unicastByP2PID_def emit_def)
  next
    case False
    then have "em_epoch (rb_epoch s) = target" using assms(2) by simp
    then show ?thesis
      by (simp add: catchUpRound_def processEpochChangeRequest_def verifyEpochChangeRequest_def pageEnd_def)
  qed
  then show "em_epoch (rb_epoch (catchUpRound E r target s)) = pageEnd (em_epoch (rb_epoch s)) target maxNumEpochEndingCheckpoint"
    "rb_config (catchUpRound E r target s) = rb_config s" by auto
qed


lemma sampleEpochs_complete: "epochsStored 1 4 sampleEpochs"
  unfolding epochsStored_def
proof (intro allI impI)
  fix e :: u64
  assume "1 \<le> e" "e < 4"
  then have "unat e \<in> {1, 2, 3}" by (auto simp: word_le_nat_alt word_less_nat_alt)
  then have "e \<in> {1, 2, 3}" by (auto simp: word_unat_eq_iff)
  then show "\<exists>q k. getEpochQuorumCheckpoint e sampleEpochs = Some q \<and> qc_checkpoint q = Some k \<and> ck_epoch k = e \<and> ck_needUpdateEpoch k"
    by (auto simp: sampleEpochs_stored) (simp_all add: sampleQuorum_def)
qed

definition sampleBehind :: "unit replica" where
  \<comment> \<open>the sample in epoch 1\<close>
  "sampleBehind = rb_epoch_update (em_epoch_update (\<lambda>_. 1)) sampleReplica"

lemma sampleEpochs_simps:
  "em_epoch (rb_epoch sampleBehind) = 1" "em_epoch (rb_epoch sampleEpochs) = 4"
  "ei_epoch (cc_epochInfo (rb_cc sampleEpochs)) = 4"
  "cf_genesisBlockDigest (rb_config sampleEpochs) = cf_genesisBlockDigest (rb_config sampleBehind)"
  by code_simp+


section \<open>Messages of another epoch\<close>

fun isEpochPayload :: "payload \<Rightarrow> bool" where
  "isEpochPayload (EpochChangeRequest a b c p) = True"
| "isEpochPayload (MEpochChangeProof p) = True"
| "isEpochPayload p = False"

definition mustWait :: "consensusMessage \<Rightarrow> 'p replica \<Rightarrow> bool" where
  \<comment> \<open>the replica waits for the execution of a checkpoint and the message has to wait with it\<close>
  "mustWait m s = (rin waitCheckpointBatchExecute s \<and>
     (\<not> canProcessMsgsWhenWaitCheckpoint (m_payload m) \<or> m_epoch m > em_epoch (rb_epoch s)))"

text \<open>C25. A message of another epoch, of a kind that is not allowed across epochs, never reaches the
  protocol: it is kept for later while the replica waits for a checkpoint to be executed, it is dropped
  without any change when its epoch is over, and otherwise the only effect is one request, to its sender,
  for the proofs from the own epoch to the epoch of the message.\<close>

theorem foreign_epoch_filtered:
  assumes "m_epoch m \<noteq> em_epoch (rb_epoch s)" "ei_epoch (cc_epochInfo (rb_cc s)) = em_epoch (rb_epoch s)"
    and "\<not> ConsensusMsgWhiteList (m_payload m)" "\<not> isEpochPayload (m_payload m)"
  shows "processEvent run E (ConsensusEvent m) s = Some (None,
    if mustWait m s then cacheEvent (ConsensusEvent m) s
    else if m_epoch m < em_epoch (rb_epoch s) then s
    else retrieveEpochChange E (em_epoch (rb_epoch s)) (m_epoch m) (m_from m) s)"
proof -
  have "checkEpoch E m s = Some (None, if m_epoch m > em_epoch (rb_epoch s)
      then retrieveEpochChange E (em_epoch (rb_epoch s)) (m_epoch m) (m_from m) s else s)"
    using assms(4) by (cases "m_payload m") (simp_all add: checkEpoch_def Let_def)
  then show ?thesis
    using assms(1-3)
    by (auto simp: processEvent_def consensusMessageFilter_def checkMsgCanProcessWhenWaitCheckpoint_def
        checkEventCanProcessWhenWaitCheckpoint_def mustWait_def)
qed

theorem foreign_epoch_filtered_witness:
  "processEvent (\<lambda>e. Some) sampleEnv (ConsensusEvent \<lparr>m_from = 3, m_epoch = 0, m_view = 1,
     m_payload = MPrePrepare samplePrePrepare\<rparr>) sampleBehind = Some (None, sampleBehind)"
proof -
  have "ei_epoch (cc_epochInfo (rb_cc sampleBehind)) = 1" "\<not> rin waitCheckpointBatchExecute sampleBehind" by code_simp+
  then show ?thesis
    by (subst foreign_epoch_filtered) (simp_all add: sampleEpochs_simps mustWait_def)
qed

lemma verifyEpochChangeProof_Some:
  assumes "verifyEpochChangeProof p s = Some p'"
  obtains old cs where "ep_changes p = old @ cs" "cs \<noteq> []" "qc_Epoch (ec_checkpoint (hd cs)) = em_epoch (rb_epoch s)"
    "\<forall>c \<in> set old. qc_Epoch (ec_checkpoint c) < em_epoch (rb_epoch s)" "p' = p\<lparr>ep_changes := cs\<rparr>"
proof -
  define P where "P c = (\<not> qc_Epoch (ec_checkpoint c) \<ge> em_epoch (rb_epoch s))" for c :: epochChange
  have "dropWhile P (ep_changes p) \<noteq> []" "p' = p\<lparr>ep_changes := dropWhile P (ep_changes p)\<rparr>"
    "qc_Epoch (ec_checkpoint (hd (dropWhile P (ep_changes p)))) = em_epoch (rb_epoch s)"
    using assms by (auto simp: verifyEpochChangeProof_def Let_def P_def [abs_def] split: if_splits list.splits)
  moreover have "\<forall>c \<in> set (takeWhile P (ep_changes p)). P c" by (blast dest: set_takeWhileD)
  ultimately show thesis
    by (intro that [of "takeWhile P (ep_changes p)" "dropWhile P (ep_changes p)"]) (auto simp: P_def not_le)
qed

lemma filter_epochProof:
  assumes "m_payload m = MEpochChangeProof p" "m_epoch m > em_epoch (rb_epoch s)"
    and "ei_epoch (cc_epochInfo (rb_cc s)) = em_epoch (rb_epoch s)" "\<not> rin waitCheckpointBatchExecute s"
  shows "processEvent run E (ConsensusEvent m) s = map_option (\<lambda>e. (e, s)) (processEpochChangeProof p s)"
  using assms
  by (auto simp: processEvent_def consensusMessageFilter_def checkMsgCanProcessWhenWaitCheckpoint_def
      checkEventCanProcessWhenWaitCheckpoint_def checkEpoch_def)

text \<open>C26. How a proof from a higher epoch is checked. An empty proof makes the replica panic, whoever sent
  it; any other leaves the state as it was, and it is passed on for synchronisation only if it is of the
  same genesis block, reaches past the own epoch and, without the leading epochs that are over, starts
  at the own epoch.\<close>

theorem epochProof_checked:
  assumes "m_payload m = MEpochChangeProof p" "m_epoch m > em_epoch (rb_epoch s)"
    and "ei_epoch (cc_epochInfo (rb_cc s)) = em_epoch (rb_epoch s)" "\<not> rin waitCheckpointBatchExecute s"
  shows "(ep_changes p = [] \<longrightarrow> processEvent run E (ConsensusEvent m) s = None) \<and>
    (\<forall>e s'. processEvent run E (ConsensusEvent m) s = Some (e, s') \<longrightarrow> s' = s \<and>
      (\<forall>ev. e = Some ev \<longrightarrow> (\<exists>old cs n. ep_changes p = old @ cs \<and> cs \<noteq> [] \<and>
         qc_Epoch (ec_checkpoint (hd cs)) = em_epoch (rb_epoch s) \<and>
         (\<forall>c \<in> set old. qc_Epoch (ec_checkpoint c) < em_epoch (rb_epoch s)) \<and>
         ep_NextEpoch p = Some n \<and> n > em_epoch (rb_epoch s) \<and> ep_genesis p = cf_genesisBlockDigest (rb_config s) \<and>
         ev = LocalEvent (EpochSync (p\<lparr>ep_changes := cs\<rparr>)))))"
proof -
  have panic: "ep_changes p = [] \<Longrightarrow> processEpochChangeProof p s = None"
    by (simp add: processEpochChangeProof_def ep_NextEpoch_def ep_IsEmpty_def)
  have sync: "\<exists>old cs n. ep_changes p = old @ cs \<and> cs \<noteq> [] \<and>
         qc_Epoch (ec_checkpoint (hd cs)) = em_epoch (rb_epoch s) \<and>
         (\<forall>c \<in> set old. qc_Epoch (ec_checkpoint c) < em_epoch (rb_epoch s)) \<and>
         ep_NextEpoch p = Some n \<and> n > em_epoch (rb_epoch s) \<and> ep_genesis p = cf_genesisBlockDigest (rb_config s) \<and>
         ev = LocalEvent (EpochSync (p\<lparr>ep_changes := cs\<rparr>))"
    if "processEpochChangeProof p s = Some (Some ev)" for ev
  proof -
    from that obtain n p' where n: "ep_NextEpoch p = Some n" "n > em_epoch (rb_epoch s)"
      "ep_genesis p = cf_genesisBlockDigest (rb_config s)" and p': "verifyEpochChangeProof p s = Some p'"
      "ev = LocalEvent (EpochSync p')"
      by (auto simp: processEpochChangeProof_def split: option.splits if_splits)
    from verifyEpochChangeProof_Some [OF p'(1)] n p'(2) show ?thesis by metis
  qed
  show ?thesis unfolding filter_epochProof [OF assms] using panic sync by auto
qed

definition sampleProofMsg :: "epochChange list \<Rightarrow> consensusMessage" where
  "sampleProofMsg cs = \<lparr>m_from = 3, m_epoch = 4, m_view = 1, m_payload = MEpochChangeProof
     \<lparr>ep_changes = cs, ep_more = 0, ep_author = 3, ep_genesis = ''g''\<rparr>\<rparr>"

theorem epochProof_checked_witness:
  "processEvent (\<lambda>e. Some) sampleEnv (ConsensusEvent (sampleProofMsg [])) sampleBehind = None"
proof -
  have "ei_epoch (cc_epochInfo (rb_cc sampleBehind)) = 1" "\<not> rin waitCheckpointBatchExecute sampleBehind" by code_simp+
  then show ?thesis
    using epochProof_checked [of "sampleProofMsg []" _ sampleBehind "\<lambda>e. Some" sampleEnv]
    by (simp add: sampleEpochs_simps sampleProofMsg_def)
qed

section \<open>The store of epochs\<close>

lemma epochKeys [simp]: "epochKey a = epochKey b \<longleftrightarrow> a = b" "epochKey a \<noteq> epochIndexKey" "epochIndexKey \<noteq> epochKey a"
  by (auto simp: epochKey_def epochIndexKey_def)

text \<open>A quorum checkpoint that was persisted is read back under its epoch, and what is read under any
  other epoch is what was read before.\<close>

lemma persistEpoch_get:
  assumes "persistEpochQuorumCheckpoint (Some q) s = Some s'" "qc_checkpoint q = Some k"
  shows "getEpochQuorumCheckpoint e s' = (if e = ck_epoch k then Some q else getEpochQuorumCheckpoint e s)"
  using assms by (auto simp: persistEpochQuorumCheckpoint_def getEpochQuorumCheckpoint_def)

end
