(* ===== verification/DispatchSafety.thy ===== *)
theory DispatchSafety
  imports Dispatch
begin

text \<open>
  Properties of the event loop: the fuel of \<open>runEvents\<close> does not matter once it is enough, the batch
  timer of a primary that is woken too early is not started again, and the resend timer of a view change
  takes the view back when it fires during a state transfer.
\<close>

section \<open>Fuel\<close>

definition extendsRun :: "(event \<Rightarrow> 'p act) \<Rightarrow> (event \<Rightarrow> 'p act) \<Rightarrow> bool" where
  \<comment> \<open>the second loop returns what the first one returns, and may return more often\<close>
  "extendsRun f g = (\<forall>e s s'. f e s = Some s' \<longrightarrow> g e s = Some s')"

lemma extendsRunD: "extendsRun f g \<Longrightarrow> f e s = Some s' \<Longrightarrow> g e s = Some s'"
  by (auto simp: extendsRun_def)

lemma mfold_extends:
  assumes "mfold f xs s = Some s'" "\<And>x s s'. f x s = Some s' \<Longrightarrow> g x s = Some s'"
  shows "mfold g xs s = Some s'"
  using assms(1)
proof (induction xs arbitrary: s)
  case (Cons x xs)
  then obtain t where "f x s = Some t" "mfold f xs t = Some s'" by (auto split: option.splits)
  then show ?case using Cons.IH assms(2) by simp
qed simp

lemma if_ext:
  assumes "(if b then x else y) = Some r" "x = Some r \<Longrightarrow> x' = Some r" "y = Some r \<Longrightarrow> y' = Some r"
  shows "(if b then x' else y') = Some r"
  using assms by (simp split: if_splits)

lemma bind_ext:
  assumes "Option.bind x f = Some r" "\<And>a. f a = Some r \<Longrightarrow> g a = Some r"
  shows "Option.bind x g = Some r"
  using assms by (cases x) auto

lemma bind_arg_ext:
  assumes "Option.bind x h = Some r" "\<And>a. x = Some a \<Longrightarrow> y = Some a"
  shows "Option.bind y h = Some r"
  using assms by (cases x) auto

lemma case_ext:
  assumes "(case x of None \<Rightarrow> a | Some y \<Rightarrow> f y) = Some r" "\<And>y. f y = Some r \<Longrightarrow> g y = Some r"
  shows "(case x of None \<Rightarrow> a | Some y \<Rightarrow> g y) = Some r"
  using assms by (cases x) auto

lemma processQuorum_extends:
  assumes "processQuorumViewChange f E vcs v s = Some s'" "extendsRun f g"
  shows "processQuorumViewChange g E vcs v s = Some s'"
  using assms(1) unfolding processQuorumViewChange_def
proof (rule mfold_extends)
  fix vc and t t' :: "'a replica"
  assume "(if vcReplicaOf vc = selfID t then Some t
      else do { (e, s1) \<leftarrow> recvViewChange E vc v t; case e of None \<Rightarrow> Some s1 | Some ev \<Rightarrow> f ev s1 }) = Some t'"
  then show "(if vcReplicaOf vc = selfID t then Some t
      else do { (e, s1) \<leftarrow> recvViewChange E vc v t; case e of None \<Rightarrow> Some s1 | Some ev \<Rightarrow> g ev s1 }) = Some t'"
    unfolding case_prod_unfold
    by (elim if_ext bind_ext case_ext) (assumption | erule extendsRunD [OF assms(2)])+
qed

lemma recvQuorum_extends:
  assumes "recvQuorumViewChange f E vcs s = Some s'" "extendsRun f g"
  shows "recvQuorumViewChange g E vcs s = Some s'"
proof (cases vcs)
  case Nil
  with assms(1) show ?thesis by (simp add: recvQuorumViewChange_def)
next
  case (Cons w ws)
  show ?thesis
    using assms(1) unfolding recvQuorumViewChange_def Cons Let_def list.case
    by (elim if_ext) (assumption | erule processQuorum_extends [OF _ assms(2)])+
qed

lemma recvNewView_extends:
  assumes "recvNewView f E nv s = Some r" "extendsRun f g"
  shows "recvNewView g E nv s = Some r"
  using assms(1) unfolding recvNewView_def case_prod_unfold
  by (elim bind_ext case_ext) (erule bind_arg_ext, erule processQuorum_extends [OF _ assms(2)])

lemma reProcess_extends:
  assumes "reProcessCacheEvents f s = Some s'" "extendsRun f g"
  shows "reProcessCacheEvents g s = Some s'"
  using assms(1) unfolding reProcessCacheEvents_def
  by (rule mfold_extends) (auto dest: extendsRunD [OF assms(2)])

lemma afterOwn_extends:
  assumes "afterOwnCheckpoint f E st b s = Some s'" "extendsRun f g"
  shows "afterOwnCheckpoint g E st b s = Some s'"
  using assms(1) by (auto simp: afterOwnCheckpoint_def Let_def split: bind_splits dest!: reProcess_extends [OF _ assms(2)])

lemma blockExecuted_extends:
  assumes "recvCheckpointBlockExecutedEvent f E st s = Some s'" "extendsRun f g"
  shows "recvCheckpointBlockExecutedEvent g E st s = Some s'"
  using assms(1) unfolding recvCheckpointBlockExecutedEvent_def Let_def
  by (elim if_ext) (assumption | erule afterOwn_extends [OF _ assms(2)])+

lemma quietly_Some: "quietly f s = Some r \<longleftrightarrow> (\<exists>s'. f s = Some s' \<and> r = (None, s'))"
  by (auto simp: quietly_def)

lemma dispatchMsg_extends:
  assumes "dispatchConsensusMsg f E p s = Some r" "extendsRun f g"
  shows "dispatchConsensusMsg g E p s = Some r"
  using assms(1) recvNewView_extends [OF _ assms(2)] recvQuorum_extends [OF _ assms(2)]
  by (cases p) (auto simp: dispatchConsensusMsg_def dispatchViewChangeMsg_def quietly_Some)

lemma filter_extends:
  assumes "consensusMessageFilter f E m s = Some r" "extendsRun f g"
  shows "consensusMessageFilter g E m s = Some r"
  using assms(1) dispatchMsg_extends [OF _ assms(2)]
  by (auto simp: consensusMessageFilter_def split: if_splits)

lemma processEvent_extends:
  assumes "processEvent f E e s = Some r" "extendsRun f g"
  shows "processEvent g E e s = Some r"
proof (cases e)
  case (LocalEvent l)
  have "dispatchLocalEvent g E l t = Some r" if "dispatchLocalEvent f E l t = Some r" for t
    using that blockExecuted_extends [OF _ assms(2)]
    by (cases l) (auto simp: dispatchLocalEvent_def handleCoreRbftEvent_def quietly_Some)
  with assms(1) LocalEvent show ?thesis by (auto simp: processEvent_def split: prod.splits bool.splits)
next
  case (ConsensusEvent m)
  with assms(1) filter_extends [OF _ assms(2)] show ?thesis
    by (auto simp: processEvent_def split: prod.splits bool.splits)
qed (use assms(1) in \<open>auto simp: processEvent_def\<close>)

lemma runEvents_extends: "extendsRun (runEvents k E) (runEvents (Suc k) E)"
proof (induction k)
  case 0
  then show ?case by (simp add: extendsRun_def)
next
  case (Suc k)
  show ?case
    unfolding extendsRun_def
  proof (intro allI impI)
    fix e s s'
    assume "runEvents (Suc k) E e s = Some s'"
    then obtain e' s1 where p: "processEvent (runEvents k E) E e s = Some (e', s1)"
      and rest: "case e' of None \<Rightarrow> s1 = s' | Some ev \<Rightarrow> runEvents k E ev s1 = Some s'"
      by (auto split: option.splits)
    from rest extendsRunD [OF Suc] have "case e' of None \<Rightarrow> s1 = s' | Some ev \<Rightarrow> runEvents (Suc k) E ev s1 = Some s'"
      by (simp split: option.splits del: runEvents.simps)
    with processEvent_extends [OF p Suc] show "runEvents (Suc (Suc k)) E e s = Some s'"
      by (subst runEvents.simps(2)) (simp split: option.splits del: runEvents.simps)
  qed
qed


definition sampleNullEvent :: event where
  "sampleNullEvent = ConsensusEvent \<lparr>m_from = 2, m_epoch = 1, m_view = 1, m_payload = NullRequest 2\<rparr>"


section \<open>The batch timer\<close>

definition timerRuns :: "string \<Rightarrow> 'p replica \<Rightarrow> bool" where
  "timerRuns n s = (case gget (rb_timer s) n of None \<Rightarrow> False | Some t \<Rightarrow> tt_count t > 0)"

lemma timerRuns_stop [simp]: "timerRuns n (stopT n s) = False" "m \<noteq> n \<Longrightarrow> timerRuns n (stopT m s) = timerRuns n s"
  by (auto simp: timerRuns_def stopT_def stopTimer_def tt_count_def gsize_def gempty_def gget_gmodify
      split: option.splits)

lemma timerRuns_update [simp]:
  "timerRuns n (rb_batch_update f s) = timerRuns n s" "timerRuns n (withPool q s) = timerRuns n s"
  by (simp_all add: timerRuns_def withPool_def)

lemma gput_not_Nil: "gput k v m \<noteq> []"
  using gget_gput [of k v m k] by (auto simp: gget_def)

lemma timerRuns_start: "startT E n ev s = Some s' \<Longrightarrow> timerRuns n s'"
  by (auto simp: startT_def startTimer_def startTimerWithNewTT_def createTimer_def timerRuns_def tt_count_def gsize_def
      containsTimer_def ghas_def gput_not_Nil gget_gmodify split: option.splits if_splits)

lemma restartBatchTimer_runs: "restartBatchTimer E s = Some s' \<Longrightarrow> timerRuns batchTimer s'"
  by (auto simp: restartBatchTimer_def startBatchTimer_def dest: timerRuns_start)

definition batchReady :: "'p replica \<Rightarrow> bool" where
  \<comment> \<open>a primary in normal state, outside a configuration change and without cached batches\<close>
  "batchReady s = (risValidator s \<and> risNormal s \<and> isPrimary (selfID s) s \<and> \<not> ratomicIn InConfChange s \<and>
     bm_cacheBatch (rb_batch s) = [])"

definition wokenEarly :: "'p env \<Rightarrow> 'p replica \<Rightarrow> bool" where
  \<comment> \<open>requests are waiting, but the last batch was made less than a timeout ago\<close>
  "wokenEarly E s = (en_poolHasPending E (rb_pool s) \<and> inPrimaryTerm s \<and>
     en_now E - bm_lastBatchTime (rb_batch s) < tc_batch (cf_timers (rb_config s)))"

lemma stopBatchTimer_frame:
  "rb_pool (stopBatchTimer s) = rb_pool s" "inPrimaryTerm (stopBatchTimer s) = inPrimaryTerm s"
  "rb_config (stopBatchTimer s) = rb_config s" "rb_out (stopBatchTimer s) = rb_out s"
  "bm_lastBatchTime (rb_batch (stopBatchTimer s)) = bm_lastBatchTime (rb_batch s)"
  by (simp_all add: stopBatchTimer_def stopT_def inPrimaryTerm_def checkpointPeriod_def)

lemma stopNoTx_frame:
  "rb_config (stopNoTxBatchTimer s) = rb_config s" "rb_out (stopNoTxBatchTimer s) = rb_out s"
  "bm_lastBatchTime (rb_batch (stopNoTxBatchTimer s)) = bm_lastBatchTime (rb_batch s)"
  by (simp_all add: stopNoTxBatchTimer_def stopT_def)

text \<open>C30. Whether batching goes on after the batch timer of a ready primary has fired: the timer runs again
  unless requests are waiting and the last batch is younger than the timeout; then both batch timers are
  stopped, nothing is sent, and the waiting requests stay where they are.\<close>

theorem batchTimer_goes_on:
  assumes "handleBatchTimer E s = Some s'" "batchReady s"
  shows "(timerRuns batchTimer s' \<longleftrightarrow> \<not> wokenEarly E s) \<and>
    (wokenEarly E s \<longrightarrow> \<not> timerRuns noTxBatchTimer s' \<and> rb_out s' = rb_out s \<and> rb_pool s' = rb_pool s)"
proof (cases "wokenEarly E s")
  case True
  with assms have "s' = stopNoTxBatchTimer (stopBatchTimer s)"
    by (auto simp: handleBatchTimer_def batchReady_def wokenEarly_def Let_def stopBatchTimer_frame stopNoTx_frame)
  moreover have "\<not> timerRuns batchTimer (stopNoTxBatchTimer (stopBatchTimer s))"
    "\<not> timerRuns noTxBatchTimer (stopNoTxBatchTimer (stopBatchTimer s))"
    by (simp_all add: stopNoTxBatchTimer_def stopBatchTimer_def)
  moreover have "rb_pool (stopNoTxBatchTimer t) = rb_pool t" for t :: "'a replica"
    by (simp add: stopNoTxBatchTimer_def stopT_def)
  ultimately show ?thesis using True by (simp add: stopBatchTimer_frame stopNoTx_frame)
next
  case False
  with assms have "\<exists>t. restartBatchTimer E t = Some s'"
    by (auto simp: handleBatchTimer_def batchReady_def wokenEarly_def Let_def stopBatchTimer_frame stopNoTx_frame
        split: if_splits bind_splits)
  with False show ?thesis by (auto dest: restartBatchTimer_runs)
qed

definition samplePending :: "unit env" where
  "samplePending = sampleEnv\<lparr>en_poolHasPending := (\<lambda>_. True)\<rparr>"

definition samplePrimary :: "unit replica" where
  \<comment> \<open>the sample as primary, whose last batch was made just now\<close>
  "samplePrimary = rb_batch_update (bm_lastBatchTime_update (\<lambda>_. 1000))
     (rb_cc_update (\<lambda>c. c\<lparr>cc_primaryID := 1\<rparr>) sampleReplica)"

theorem batchTimer_goes_on_witness:
  "\<exists>s'. handleBatchTimer samplePending samplePrimary = Some s' \<and> \<not> timerRuns batchTimer s' \<and> rb_out s' = []"
proof -
  have "batchReady samplePrimary" "wokenEarly samplePending samplePrimary" "rb_out samplePrimary = []"
    "handleBatchTimer samplePending samplePrimary \<noteq> None" by code_simp+
  then obtain s' where "handleBatchTimer samplePending samplePrimary = Some s'" by blast
  from batchTimer_goes_on [OF this \<open>batchReady samplePrimary\<close>] this \<open>wokenEarly samplePending samplePrimary\<close>
    \<open>rb_out samplePrimary = []\<close>
  show ?thesis by auto
qed

section \<open>Resending a view change\<close>

text \<open>C19. When the resend timer of a view change fires the replica steps one view back to send a recovery view
  change for the view it is in: it ends in a view that is not lower, still in view change. During a state
  transfer, though, no view change is sent, and the step back is all that happens: the replica is left in
  the view below the one it has sent a view change for.\<close>

theorem resend_lowers_view:
  assumes "handleViewChangeEvent E ViewChangeResendTimer s = Some (e, t)" "ratomicIn InViewChange s" "cc_view (rb_cc s) \<noteq> 0"
  shows "if ratomicIn StateTransferring s
    then cc_view (rb_cc t) = cc_view (rb_cc s) - 1 \<and> e = None \<and> rb_out t = rb_out s \<and> rb_status t = rb_status s
    else cc_view (rb_cc s) \<le> cc_view (rb_cc t) \<and> ratomicIn InViewChange t \<and> \<not> risNormal t"
proof -
  obtain s1 where s1: "setView E (cc_view (rb_cc s) - 1) s = Some s1" and send: "sendViewChange E True s1 = Some (e, t)"
    using assms(1,2) by (auto simp: handleViewChangeEvent_def initRecovery_def split: Option.bind_splits)
  obtain i p where "s1 = s\<lparr>rb_cc := (rb_cc s)\<lparr>cc_dynInfo := i, cc_view := cc_view (rb_cc s) - 1, cc_primaryID := p\<rparr>\<rparr>"
    using s1 unfolding setView_def by (rule setViewGenD)
  then have view: "cc_view (rb_cc s1) = cc_view (rb_cc s) - 1"
    and same: "rb_out s1 = rb_out s" "rb_status s1 = rb_status s" by simp_all
  have gated: "vcGated True s1 = ratomicIn StateTransferring s"
    by (simp add: vcGated_def ratomicIn_def same)
  show ?thesis
  proof (cases "ratomicIn StateTransferring s")
    case True
    then have "sendViewChangeStart E True s1 = Some (None, s1)"
      by (simp add: sendViewChangeStart_def ratomicIn_def same)
    then have "t = s1" "e = None" using send by (subst (asm) sendViewChange.simps; simp)+
    then show ?thesis using True view same by simp
  next
    case False
    then show ?thesis using sendViewChange_view [OF send] gated view by simp
  qed
qed

definition sampleResending :: "unit replica" where
  \<comment> \<open>the sample after its view change for view 2, during a state transfer\<close>
  "sampleResending = raOn StateTransferring (raOn InViewChange (roff Normal
     (rb_cc_update (cc_view_update (\<lambda>_. 2)) sampleRotating)))"

theorem resend_lowers_view_witness:
  "\<exists>t. handleViewChangeEvent sampleEnv ViewChangeResendTimer sampleResending = Some (None, t) \<and>
     cc_view (rb_cc sampleResending) = 2 \<and> cc_view (rb_cc t) = 1 \<and> rb_out t = []"
proof -
  have f: "handleViewChangeEvent sampleEnv ViewChangeResendTimer sampleResending \<noteq> None" "ratomicIn InViewChange sampleResending"
    "ratomicIn StateTransferring sampleResending" "cc_view (rb_cc sampleResending) = 2" "rb_out sampleResending = []"
    by code_simp+
  obtain e t where t: "handleViewChangeEvent sampleEnv ViewChangeResendTimer sampleResending = Some (e, t)" using f(1) by auto
  from resend_lowers_view [OF t f(2)] f t show ?thesis by auto
qed

end
