(* ===== verification/Lifecycle.thy ===== *)
theory Lifecycle
  imports Dispatch
begin

text \<open>
  The life of a replica (\<open>rbft_impl.go\<close>, \<open>persist.go\<close>, \<open>node.go\<close>): creating it from its configuration,
  restoring the log after a restart, starting and stopping, and the entry points by which the
  application and the network reach it. Messages posted to the event channel are effects.
\<close>

section \<open>Creating\<close>

definition effectiveCache :: "config \<Rightarrow> u64" where
  "effectiveCache c = (if cf_committedBlockCacheNumber c = 0 then 10 else cf_committedBlockCacheNumber c)"

definition newRBFT :: "config \<Rightarrow> string \<Rightarrow> (string, stored) gomap \<Rightarrow> (string, stored) gomap \<Rightarrow> 'p \<Rightarrow> 'p replica" where
  \<comment> \<open>the storage and the pool are what the application hands over\<close>
  "newRBFT c p2p storage epochStore pool =
     (let c' = c\<lparr>cf_committedBlockCacheNumber := effectiveCache c\<rparr>
      in \<lparr>rb_cc = \<lparr>cc_epochInfo = cf_genesisEpochInfo c', cc_N = 0, cc_F = 0, cc_L = 0, cc_selfID = 0,
             cc_nodeInfoMap = gempty, cc_validatorSet = gempty, cc_dynInfo = gempty,
             cc_H = ei_startBlock (cf_genesisEpochInfo c'), cc_lastStableInfo = gempty, cc_lastStableView = 0,
             cc_view = 0, cc_lastCkptHash = [], cc_lastCkptHeight = 0, cc_primaryID = 0,
             cc_tracker = NewBlockProcessorTracker, cc_selfP2P = p2p\<rparr>,
          rb_status = newStatusMgr, rb_timer = gempty, rb_lastExec = 0, rb_store = newStoreMgr,
          rb_batch = newBatchManager, rb_recovery = gempty, rb_vc = newVcManager (cf_timers c'),
          rb_epoch = newEpochManager, rb_storage = storage, rb_epochStore = epochStore, rb_pool = pool,
          rb_currentState = None, rb_config = c', rb_out = []\<rparr>)"

section \<open>Restoring the log\<close>

definition restoreEpochInfo :: "'p env \<Rightarrow> 'p replica \<Rightarrow> 'p replica" where
  "restoreEpochInfo E s =
     (let ei = (case en_epochInfo E (ss_epoch (cf_lastServiceState (rb_config s))) of
                  None \<Rightarrow> cf_genesisEpochInfo (rb_config s) | Some e \<Rightarrow> e)
      in rb_epoch_update (em_epoch_update (\<lambda>_. ei_epoch ei)) (rb_cc_update (cc_epochInfo_update (\<lambda>_. ei)) s))"

definition scanChkptKey :: "string \<Rightarrow> u64 option" where
  \<comment> \<open>\<open>fmt.Sscanf(key, "chkpt.%d", &seqNo)\<close>: blanks are skipped, then digits are read\<close>
  "scanChkptKey key =
     (if take 6 key = ''chkpt.'' then parseUint64 (takeWhile isDigit (dropWhile isBlank (drop 6 key))) else None)"

definition setLastCheckpoint :: "u64 \<Rightarrow> string \<Rightarrow> 'p replica \<Rightarrow> 'p replica" where
  "setLastCheckpoint h d = rb_cc_update (\<lambda>c. c\<lparr>cc_lastCkptHash := d, cc_lastCkptHeight := h\<rparr>)"

definition restoredCheckpoint :: "'p env \<Rightarrow> u64 \<Rightarrow> string \<Rightarrow> string \<Rightarrow> u64 \<Rightarrow> bool \<Rightarrow> 'p replica \<Rightarrow> (bool \<times> 'p replica) option" where
  \<comment> \<open>signs a checkpoint again and saves it; \<open>False\<close>: \<open>restoreState\<close> returns the error of the signature\<close>
  "restoredCheckpoint E h d bd e isConfig s =
     map_option (\<lambda>(r, s1). case r of None \<Rightarrow> (False, s1) | Some sc \<Rightarrow> (True, saveCheckpoint h sc s1))
       (generateSignedCheckpoint E
          \<lparr>ss_meta = \<lparr>ms_height = h, ms_digest = d, ms_batchDigest = []\<rparr>, ss_epoch = e\<rparr> bd isConfig False s)"

fun restoreCheckpoints :: "'p env \<Rightarrow> (string \<times> stored) list \<Rightarrow> u64 \<Rightarrow> 'p replica \<Rightarrow> (bool \<times> 'p replica) option" where
  \<comment> \<open>a value without a comma is an index out of range, and so is a value that is not text\<close>
  "restoreCheckpoints E [] best s = Some (True, s)"
| "restoreCheckpoints E ((key, x) # rest) best s =
     (case scanChkptKey key of
        None \<Rightarrow> restoreCheckpoints E rest best s
      | Some n \<Rightarrow> (case (case x of SText v \<Rightarrow> splitOn CHR '','' v | _ \<Rightarrow> []) of
          d # bd # others \<Rightarrow>
            (case restoredCheckpoint E n d bd (ei_epoch (cc_epochInfo (rb_cc s))) (risConfigBatch n s) s of
               None \<Rightarrow> None
             | Some (False, s1) \<Rightarrow> Some (False, s1)
             | Some (True, s1) \<Rightarrow>
                 if n > best then restoreCheckpoints E rest n (setLastCheckpoint n d s1)
                 else restoreCheckpoints E rest best s1)
        | _ \<Rightarrow> None))"

definition initialCheckpoint :: "'p env \<Rightarrow> 'p replica \<Rightarrow> (bool \<times> 'p replica) option" where
  \<comment> \<open>no checkpoint can be read: the last one of the ledger, or the genesis checkpoint\<close>
  "initialCheckpoint E s =
     (let g = cf_genesisEpochInfo (rb_config s); reached = ms_height (ss_meta (cf_lastServiceState (rb_config s)));
          k = cp_checkpointPeriod (ei_params g)
      in if k = 0 then None
         else let n = reached div k * k in
           if ei_startBlock g \<noteq> reached \<and> n \<noteq> 0 then
             (case en_getBlockMeta E n of
                None \<Rightarrow> Some (False, s)
              | Some b \<Rightarrow>
                  map_option (\<lambda>(ok, s1). (ok, if ok then setLastCheckpoint n (bm_hash b) s1 else s1))
                    (restoredCheckpoint E n (bm_hash b) [] (ei_epoch (cc_epochInfo (rb_cc s))) (risConfigBatch n s) s))
           else map_option (\<lambda>(ok, s1). (ok, if ok then setLastCheckpoint (ei_startBlock g) (cf_genesisBlockDigest (rb_config s)) s1 else s1))
                  (restoredCheckpoint E (ei_startBlock g) (cf_genesisBlockDigest (rb_config s)) [] (ei_epoch g) False s))"

definition restoredH :: "'p replica \<Rightarrow> u64 option" where
  \<comment> \<open>the persisted low watermark: zero when it cannot be read, no value when it does not parse\<close>
  "restoredH s =
     (case readState ''rbft.h'' s of None \<Rightarrow> Some 0 | Some (SText t) \<Rightarrow> parseUint64 t | Some _ \<Rightarrow> None)"

definition restoreState :: "'p env \<Rightarrow> 'p replica \<Rightarrow> (bool \<times> 'p replica) option" where
  \<comment> \<open>\<open>False\<close>: an error is returned\<close>
  "restoreState E s =
     (case restoredH s of
        None \<Rightarrow> Some (False, s)
      | Some h \<Rightarrow>
          let s1 = restoreEpochInfo E s in
          (case en_validatorSet E of
             None \<Rightarrow> Some (False, s1)
           | Some vs \<Rightarrow> (case updateDerivedData (en_nodeIDByP2P E) vs (rb_cc s1) of
               Inl _ \<Rightarrow> Some (False, s1)
             | Inr c \<Rightarrow> do {
                 s2 \<leftarrow> restoreView E (rb_batch_update (bm_seqNo_update (\<lambda>_. rb_lastExec s1)) (s1\<lparr>rb_cc := c\<rparr>));
                 let s3 = restoreCert E (restoreBatchStore E s2);
                 (ok, s4) \<leftarrow> (case readStateSet E ''chkpt.'' s3 of
                    Some m \<Rightarrow> restoreCheckpoints E m 0 s3
                  | None \<Rightarrow> initialCheckpoint E s3);
                 (if \<not> ok then Some (False, s4)
                  else do {
                    c' \<leftarrow> updatePrimaryID (en_sha256 E) (rb_cc s4);
                    s5 \<leftarrow> (if h \<noteq> 0 then moveWatermarks E h False (s4\<lparr>rb_cc := c'\<rparr>) else Some (s4\<lparr>rb_cc := c'\<rparr>));
                    Some (True, s5) }) })))"

section \<open>Starting and stopping\<close>

definition initReplica :: "'p env \<Rightarrow> 'p replica \<Rightarrow> (bool \<times> 'p replica) option" where
  \<comment> \<open>\<open>init\<close>, called once; the pool is initialised outside the model\<close>
  "initReplica E s = do {
     (ok, s1) \<leftarrow> restoreState E (s\<lparr>rb_lastExec := ms_height (ss_meta (cf_lastServiceState (rb_config s)))\<rparr>);
     (if \<not> ok then Some (False, s1)
      else do {
        c \<leftarrow> ccResetRecentBlockNum (en_getBlockMeta E) (cc_lastCkptHeight (rb_cc s1)) (rb_cc s1);
        let s2 = rb_timer_update (initTimers (cf_timers (rb_config s1)) (checkpointPeriod s1)) (s1\<lparr>rb_cc := c\<rparr>);
        s3 \<leftarrow> updateViewChangeSeqNo (rb_lastExec s2) (checkpointPeriod s2) (rb_status_update initStatus s2);
        Some (True, s3) }) }"

definition equalMetaState :: "metaState option \<Rightarrow> metaState option \<Rightarrow> bool" where
  "equalMetaState a b =
     (case (a, b) of
        (Some x, Some y) \<Rightarrow> ms_height x = ms_height y \<and> ms_digest x = ms_digest y
      | _ \<Rightarrow> False)"

definition startReplica :: "'p replica \<Rightarrow> 'p replica" where
  "startReplica s =
     (let s1 = raOff Pending s; h = cc_H (rb_cc s1);
          s2 = (case gget (sm_localCheckpoints (rb_store s1)) h of
                  None \<Rightarrow> s1
                | Some c \<Rightarrow>
                    if equalMetaState (em_configBatchToCheck (rb_epoch s1))
                         (Some \<lparr>ms_height = h, ms_digest = sc_Digest c, ms_batchDigest = []\<rparr>)
                    then rb_epoch_update (em_configBatchToCheck_update (\<lambda>_. None)) s1 else s1)
      in emit (PostMsg (LocalEvent (RecoveryInit (cc_view (rb_cc s2))))) s2)"

definition stopReplica :: "'p replica \<Rightarrow> 'p replica" where
  \<comment> \<open>\<open>Stop\<close> of the node: the channel is drained and the pool stopped outside the model\<close>
  "stopReplica s =
     (rb_timer_update stopAllTimers (raOn Stopped (rb_status_update initStatus s)))\<lparr>rb_currentState := None\<rparr>"

section \<open>Entry points\<close>

definition storePending :: "'p env \<Rightarrow> consensusMessage \<Rightarrow> viewChange \<Rightarrow> 'p replica \<Rightarrow> 'p replica" where
  \<comment> \<open>a view change that arrives before the replica has started; its signature is not checked\<close>
  "storePending E m vc s =
     (if m_epoch m \<noteq> ei_epoch (cc_epochInfo (rb_cc s)) then s
      else case getNodeInfo (en_getNodeInfo E) (rb_cc s) (m_from m) of
          (None, c) \<Rightarrow> s\<lparr>rb_cc := c\<rparr>
        | (Some _, c) \<Rightarrow> rb_vc_update (vm_viewChangeStore_update (gput (vcViewOf vc, vcReplicaOf vc)
              (ViewChange (vc_basis vc) (vc_signature vc) (en_now E) (vc_recovery vc)))) (s\<lparr>rb_cc := c\<rparr>))"

definition stepReplica :: "'p env \<Rightarrow> consensusMessage \<Rightarrow> 'p replica \<Rightarrow> 'p replica" where
  "stepReplica E m s =
     (if ratomicIn Pending s then
        (if ratomicIn Stopped s then s
         else case m_payload m of MViewChange vc \<Rightarrow> storePending E m vc s | _ \<Rightarrow> s)
      else if ratomicIn InEpochSyncing s then s
      else emit (PostMsg (ConsensusEvent m)) s)"

definition reportStateUpdated :: "serviceSyncState \<Rightarrow> 'p replica \<Rightarrow> 'p replica" where
  "reportStateUpdated ss s =
     (if ratomicIn Pending s then s else emit (PostMsg (LocalEvent (CoreStateUpdated ss))) s)"

definition withBatchDigest :: "string \<Rightarrow> serviceState \<Rightarrow> serviceState" where
  "withBatchDigest d st = st\<lparr>ss_meta := (ss_meta st)\<lparr>ms_batchDigest := d\<rparr>\<rparr>"

definition ReportExecuted :: "serviceState \<Rightarrow> 'p act" where
  "ReportExecuted st s =
     (let st' = withBatchDigest (case gget (sm_seqMap (rb_store s)) (ms_height (ss_meta st)) of None \<Rightarrow> [] | Some d \<Rightarrow> d) st
      in case rb_currentState s of
           None \<Rightarrow> Some (s\<lparr>rb_currentState := Some st'\<rparr>)
         | Some cur \<Rightarrow>
             if ms_height (ss_meta st) \<noteq> 0 \<and> ms_height (ss_meta st) \<le> ms_height (ss_meta cur) then Some s
             else reportCheckpoint st' (s\<lparr>rb_currentState := Some st'\<rparr>))"

definition ReportStateUpdated :: "serviceSyncState \<Rightarrow> 'p act" where
  \<comment> \<open>a state that is not higher is only logged; the batch digest comes from the target of the transfer,
     which is dereferenced\<close>
  "ReportStateUpdated ss s =
     (if ms_height (ss_meta (sy_state ss)) \<noteq> 0 \<and> rb_currentState s = None then None
      else do {
        ck \<leftarrow> firstTargetCheckpoint s;
        k \<leftarrow> ck;
        st \<leftarrow> ck_state k;
        let cur = withBatchDigest (es_batchDigest st) (sy_state ss);
        Some (reportStateUpdated (ss\<lparr>sy_state := cur\<rparr>) (s\<lparr>rb_currentState := Some cur\<rparr>)) })"

section \<open>The facade\<close>

definition nodeStart :: "'p replica \<Rightarrow> 'p replica" where
  \<comment> \<open>\<open>start\<close> returns no error\<close>
  "nodeStart s = startReplica s"

definition nodeStep :: "'p env \<Rightarrow> consensusMessage \<Rightarrow> 'p replica \<Rightarrow> 'p replica" where
  "nodeStep E m s = stepReplica E m s"

definition getCurrentState :: "'p replica \<Rightarrow> serviceState option" where
  "getCurrentState s = rb_currentState s"

definition GetLowWatermark :: "'p replica \<Rightarrow> 'p replica" where
  \<comment> \<open>the request; the caller waits for the answer of the event loop\<close>
  "GetLowWatermark s = emit (PostMsg ReqGetWatermark) s"

definition nodeNotifyGenBatch :: "'p replica \<Rightarrow> 'p replica" where
  "nodeNotifyGenBatch s = emit (PostMsg NotifyGenBatch) s"

definition nodeNotifyFindNextBatch :: "string list \<Rightarrow> 'p replica \<Rightarrow> 'p replica" where
  "nodeNotifyFindNextBatch hs s = emit (PostMsg (NotifyFindNextBatch hs)) s"

record nodeStatus =
  st_id :: u64
  st_view :: u64
  st_H :: u64
  st_epochInfo :: epochInfo
  st_status :: "statusType option"

definition getStatus :: "'p replica \<Rightarrow> nodeStatus" where
  \<comment> \<open>the status zero of the code is no status\<close>
  "getStatus s =
     \<lparr>st_id = selfID s, st_view = cc_view (rb_cc s), st_H = cc_H (rb_cc s), st_epochInfo = cc_epochInfo (rb_cc s),
      st_status =
        (if ratomicIn InConfChange s then Some InConfChange
         else if ratomicIn InEpochSyncing s then Some InConfChange
         else if ratomicIn InRecovery s then Some InRecovery
         else if ratomicIn InViewChange s then Some InViewChange
         else if ratomicIn StateTransferring s then Some StateTransferring
         else if ratomicIn Pending s then Some Pending
         else if rin Normal s then Some Normal
         else None)\<rparr>"

end
