(* ===== verification/LifecycleSafety.thy ===== *)
theory LifecycleSafety
  imports Lifecycle WatermarkSafety
begin

text \<open>
  What holds of a replica that has just been initialised, however its storage looks: the sizes derived
  from the validator set, the height it has executed, its timers and its status.
\<close>

section \<open>What restoring leaves alone\<close>

definition basics :: "'p replica \<Rightarrow> u64 \<times> nat \<times> nat \<times> u64 \<times> config" where
  \<comment> \<open>the executed height, the sizes of the network and of the window, the configuration\<close>
  "basics s = (rb_lastExec s, cc_N (rb_cc s), cc_F (rb_cc s), cc_L (rb_cc s), rb_config s)"

lemma basics_update [simp]:
  "basics (rb_store_update f s) = basics s" "basics (rb_vc_update g s) = basics s"
  "basics (rb_storage_update i s) = basics s" "basics (rb_batch_update j s) = basics s"
  "basics (emit e s) = basics s" "basics (stopNamespace s) = basics s" "basics (withPool q s) = basics s"
  by (simp_all add: basics_def emit_def stopNamespace_def withPool_def)

lemma basics_setView: "setView E v s = Some s' \<Longrightarrow> basics s' = basics s"
  unfolding setView_def by (auto elim!: setViewGenD simp: basics_def)

lemma basics_stable [simp]: "basics (setLastStableView v s) = basics s"
  "basics (rb_cc_update (\<lambda>c. c\<lparr>cc_dynInfo := i, cc_lastStableInfo := i\<rparr>) s) = basics s"
  by (simp_all add: basics_def setLastStableView_def)

lemma basics_restoreView: "restoreView E s = Some s' \<Longrightarrow> basics s' = basics s"
  by (auto simp: restoreView_def Let_def split: option.splits stored.splits if_splits dest!: basics_setView)

lemma basics_restoreBatchStore [simp]: "basics (restoreBatchStore E s) = basics s"
  by (auto simp: restoreBatchStore_def split: option.split)
    (rule fold_frame [where g = basics], auto split: option.split stored.split)

lemma basics_cert [simp]: "basics (snd (getCert i s)) = basics s" "basics (modCert i f s) = basics s"
  by (simp_all add: getCert_def modCert_def split: option.split)

lemma basics_restoreCert [simp]: "basics (restoreCert E s) = basics s"
proof -
  have f: "basics (fold (\<lambda>(idx, q) s. case getCert idx s of (_, s') \<Rightarrow> modCert idx (h idx q s') s') xs s) = basics s" for h xs s
    by (rule fold_frame [where g = basics]) (simp add: case_prod_unfold)
  have m: "basics (rb_store_update (sm_certStore_update (k s)) s) = basics s" for k s by simp
  show ?thesis unfolding restoreCert_def Let_def by (auto simp: f split: option.split)
qed

lemma generateSigned_state:
  "generateSignedCheckpoint E st d c a s = Some (r, s') \<Longrightarrow> s' = s \<or> s' = stopNamespace s"
  by (auto simp: generateSignedCheckpoint_def checkpointViewChange_def signViewChange_def Let_def bind_eq_Some_conv
      split: if_splits option.splits)

lemma basics_restoredCheckpoint: "restoredCheckpoint E h d bd e c s = Some (ok, s') \<Longrightarrow> basics s' = basics s"
  by (auto simp: restoredCheckpoint_def saveCheckpoint_def split: option.splits dest!: generateSigned_state)

lemma basics_setLast [simp]: "basics (setLastCheckpoint h d s) = basics s"
  by (simp add: basics_def setLastCheckpoint_def)

lemma basics_restoreCheckpoints: "restoreCheckpoints E m best s = Some (ok, s') \<Longrightarrow> basics s' = basics s"
proof (induction m arbitrary: best s)
  case (Cons e rest)
  obtain key x where e: "e = (key, x)" by (cases e)
  show ?case
    using Cons.prems Cons.IH
    by (fastforce simp: e split: option.splits list.splits if_splits bool.splits dest: basics_restoredCheckpoint)
qed simp

lemma basics_initialCheckpoint: "initialCheckpoint E s = Some (ok, s') \<Longrightarrow> basics s' = basics s"
  by (auto simp: initialCheckpoint_def Let_def split: if_splits option.splits dest!: basics_restoredCheckpoint)

lemma basics_pruneLocal: "pruneLocal E e h xs s = (b, s') \<Longrightarrow> basics s' = basics s"
proof (induction E e h xs s rule: pruneLocal.induct)
  case (2 E e h n c rest s)
  have "basics (persistDelCheckpoint n (deleteCheckpoint n s)) = basics s"
    by (simp add: persistDelCheckpoint_def deleteCheckpoint_def delState_def)
  then show ?case using 2 by (auto split: if_splits option.splits)
qed simp

lemma basics_moveWatermarks: "moveWatermarks E h e s = Some s' \<Longrightarrow> basics s' = basics s"
proof -
  assume m: "moveWatermarks E h e s = Some s'"
  have d: "basics (dropCertsUpTo h s) = basics s" "basics (dropBatches E l h t) = basics t" for l and t :: "'a replica"
    by (simp_all add: basics_def)
  have p: "basics (persistH h (rb_cc_update (cc_H_update (\<lambda>_. h)) (pruneLists h t))) = basics t" for t :: "'a replica"
    by (simp add: persistH_eq pruneLists_def basics_def)
  from m show ?thesis
    by (auto simp: moveWatermarks_def Let_def d p split: if_splits option.splits prod.splits bool.splits
        dest!: basics_pruneLocal)
qed

section \<open>A replica that has been initialised\<close>

definition timerNames :: "string list" where
  "timerNames = [requestTimer, batchTimer, vcResendTimer, newViewTimer, nullRequestTimer, syncStateRspTimer,
     syncStateRestartTimer, cleanViewChangeTimer, checkPoolTimer, fetchCheckpointTimer, highWatermarkTimer,
     fetchViewTimer, noTxBatchTimer]"

lemma initTimers_has: "n \<in> set timerNames \<Longrightarrow> ghas (initTimers c k tm) n"
proof -
  assume n: "n \<in> set timerNames"
  have new: "ghas (newTimer m d t) n \<longleftrightarrow> m = n \<or> ghas t n" for m d and t :: "'a timerManager"
    by (auto simp: ghas_def gget_newTimer)
  have "n = highWatermarkTimer \<or> ghas (configuredTimers c tm) n"
    using n by (auto simp: timerNames_def configuredTimers_def new)
  moreover have "ghas (makeSyncStateTimeoutLegal (makeCleanVcTimeoutLegal (makeRequestTimeoutLegal
     (makeNullRequestTimeoutLegal t)))) n = ghas t n" for t :: "'a timerManager"
    by (simp add: legal_defs Let_def)
  ultimately show ?thesis by (auto simp: initTimers_def Let_def new)
qed

lemma startT_created: "ghas (rb_timer s) n \<Longrightarrow> startT E n ev s \<noteq> None"
  by (auto simp: startT_def startTimer_def startTimerWithNewTT_def createTimer_def containsTimer_def ghas_def
      stopTimer_def gget_gmodify split: option.splits)

lemma updateDerivedData_sizes:
  "updateDerivedData f vs c = Inr c' \<Longrightarrow> 4 \<le> cc_N c' \<and> cc_F c' = (cc_N c' - 1) div 3"
  by (auto simp: updateDerivedData_def Let_def split: if_splits option.splits)

lemma restoreState_basics:
  assumes "restoreState E s = Some (True, s')"
  shows "rb_lastExec s' = rb_lastExec s \<and> rb_config s' = rb_config s \<and> 4 \<le> cc_N (rb_cc s') \<and>
    cc_F (rb_cc s') = (cc_N (rb_cc s') - 1) div 3"
proof -
  define s1 where "s1 = restoreEpochInfo E s"
  obtain h where h: "restoredH s = Some h" using assms by (auto simp: restoreState_def split: option.splits)
  obtain vs where vs: "en_validatorSet E = Some vs"
    using assms h by (cases "en_validatorSet E") (simp_all add: restoreState_def Let_def)
  obtain c where d: "updateDerivedData (en_nodeIDByP2P E) vs (rb_cc s1) = Inr c"
    using assms h vs by (cases "updateDerivedData (en_nodeIDByP2P E) vs (rb_cc s1)") (simp_all add: restoreState_def Let_def s1_def)
  obtain s2 where v: "restoreView E (rb_batch_update (bm_seqNo_update (\<lambda>_. rb_lastExec s1)) (s1\<lparr>rb_cc := c\<rparr>)) = Some s2"
    and rest: "do { (ok, s4) \<leftarrow> (case readStateSet E ''chkpt.'' (restoreCert E (restoreBatchStore E s2)) of
          Some m \<Rightarrow> restoreCheckpoints E m 0 (restoreCert E (restoreBatchStore E s2))
        | None \<Rightarrow> initialCheckpoint E (restoreCert E (restoreBatchStore E s2)));
       (if \<not> ok then Some (False, s4)
        else do { c' \<leftarrow> updatePrimaryID (en_sha256 E) (rb_cc s4);
                  s5 \<leftarrow> (if h \<noteq> 0 then moveWatermarks E h False (s4\<lparr>rb_cc := c'\<rparr>) else Some (s4\<lparr>rb_cc := c'\<rparr>));
                  Some (True, s5) }) } = Some (True, s')"
    using assms h vs d
    by (cases "restoreView E (rb_batch_update (bm_seqNo_update (\<lambda>_. rb_lastExec s1)) (s1\<lparr>rb_cc := c\<rparr>))")
      (simp_all add: restoreState_def Let_def s1_def)
  from rest obtain s4 c' where k: "(case readStateSet E ''chkpt.'' (restoreCert E (restoreBatchStore E s2)) of
        Some m \<Rightarrow> restoreCheckpoints E m 0 (restoreCert E (restoreBatchStore E s2))
      | None \<Rightarrow> initialCheckpoint E (restoreCert E (restoreBatchStore E s2))) = Some (True, s4)"
    and p: "updatePrimaryID (en_sha256 E) (rb_cc s4) = Some c'"
    and w: "(if h \<noteq> 0 then moveWatermarks E h False (s4\<lparr>rb_cc := c'\<rparr>) else Some (s4\<lparr>rb_cc := c'\<rparr>)) = Some s'"
    by (cases "h \<noteq> 0") (auto simp: bind_eq_Some_conv split: if_split_asm)
  have "basics (s4\<lparr>rb_cc := c'\<rparr>) = basics s4" using p by (auto simp: updatePrimaryID_def basics_def)
  moreover have "basics s' = basics (s4\<lparr>rb_cc := c'\<rparr>)" using w by (auto split: if_splits dest: basics_moveWatermarks)
  moreover have "basics s4 = basics s2"
    using k by (auto split: option.splits dest!: basics_restoreCheckpoints basics_initialCheckpoint)
  moreover have "basics s2 = basics (s1\<lparr>rb_cc := c\<rparr>)" using basics_restoreView [OF v] by simp
  moreover have "rb_lastExec s1 = rb_lastExec s" "rb_config s1 = rb_config s"
    by (simp_all add: s1_def restoreEpochInfo_def Let_def)
  ultimately show ?thesis using updateDerivedData_sizes [OF d] by (simp add: basics_def)
qed

lemma initStatus_flags: "atomicIn (initStatus st) p \<longleftrightarrow> p = Pending" "\<not> statusIn (initStatus st) p"
proof -
  have "\<not> atomicIn (resetStatus st) p" "\<not> statusIn (resetStatus st) p"
    by (simp_all add: resetStatus_def atomicIn_def statusIn_def atomicHasBit_def hasBit_def)
  then show "atomicIn (initStatus st) p \<longleftrightarrow> p = Pending" "\<not> statusIn (initStatus st) p"
    by (auto simp: initStatus_def)
qed

text \<open>C28. Whatever the storage holds, a replica that was initialised without an error is well formed: it has
  at least four validators and tolerates as many faults as they allow, it continues at the height of the
  application, every timer the handlers start has been created, so that starting none of them can fail,
  and the only status it has is that it is pending.\<close>

theorem initReplica_wellformed:
  assumes "initReplica E s = Some (True, s')"
  shows "4 \<le> cc_N (rb_cc s') \<and> cc_F (rb_cc s') = (cc_N (rb_cc s') - 1) div 3 \<and>
    rb_lastExec s' = ms_height (ss_meta (cf_lastServiceState (rb_config s))) \<and>
    (\<forall>n \<in> set timerNames. \<forall>ev. startT E n ev s' \<noteq> None) \<and>
    (\<forall>p. ratomicIn p s' = (p = Pending)) \<and> (\<forall>p. \<not> rin p s')"
proof -
  define s0 where "s0 = s\<lparr>rb_lastExec := ms_height (ss_meta (cf_lastServiceState (rb_config s)))\<rparr>"
  from assms obtain s1 c where r: "restoreState E s0 = Some (True, s1)"
    and c: "ccResetRecentBlockNum (en_getBlockMeta E) (cc_lastCkptHeight (rb_cc s1)) (rb_cc s1) = Some c"
    and u: "updateViewChangeSeqNo (rb_lastExec s1) (checkpointPeriod (s1\<lparr>rb_cc := c\<rparr>))
      (rb_status_update initStatus (rb_timer_update (initTimers (cf_timers (rb_config s1)) (checkpointPeriod s1)) (s1\<lparr>rb_cc := c\<rparr>)))
      = Some s'"
    unfolding initReplica_def s0_def by (auto simp: bind_eq_Some_conv checkpointPeriod_def split: if_splits)
  from u have s': "rb_timer s' = initTimers (cf_timers (rb_config s1)) (checkpointPeriod s1) (rb_timer s1)"
    "rb_status s' = initStatus (rb_status s1)" "rb_lastExec s' = rb_lastExec s1" "rb_cc s' = c"
    by (auto simp: updateViewChangeSeqNo_def split: if_splits)
  have N: "cc_N c = cc_N (rb_cc s1)" "cc_F c = cc_F (rb_cc s1)"
    using c by (auto simp: ccResetRecentBlockNum_def Let_def)
  have "startT E n ev s' \<noteq> None" if "n \<in> set timerNames" for n ev
    using initTimers_has [OF that] by (intro startT_created) (simp add: s'(1))
  then show ?thesis
    using restoreState_basics [OF r] s' N
    by (simp add: s0_def ratomicIn_def rin_def initStatus_flags)
qed

lemma sampleInit: "map_option fst (initReplica sampleEnv (newRBFT sampleRbftConfig ''p1'' gempty gempty ())) = Some True"
  by code_simp

theorem initReplica_wellformed_witness:
  "\<exists>s'. initReplica sampleEnv (newRBFT sampleRbftConfig ''p1'' gempty gempty ()) = Some (True, s') \<and>
     4 \<le> cc_N (rb_cc s') \<and> ratomicIn Pending s'"
proof -
  obtain s' where s': "initReplica sampleEnv (newRBFT sampleRbftConfig ''p1'' gempty gempty ()) = Some (True, s')"
    using sampleInit by auto
  from initReplica_wellformed [OF s'] s' show ?thesis by blast
qed

end
