(* ===== verification/Codec.thy ===== *)
theory Codec
  imports ChainConfig Messages
begin

text \<open>
  The wire format of transactions and batches (\<open>common/consensus/consensus.go\<close>, \<open>components.go\<close>): the lists of
  transactions are encoded one by one with the methods of the transaction type, and a batch is copied
  field by field into its message. The methods \<open>RbftMarshal\<close> and \<open>RbftUnmarshal\<close> of the transactions and the generated
  code of the messages (\<open>MarshalVTStrict\<close>, \<open>UnmarshalVT\<close>) are parameters; \<open>None\<close> is an error.
\<close>

unbundle bit_operations_syntax

section \<open>Big-endian numbers\<close>

definition fromBe64 :: "bytes \<Rightarrow> u64 option" where
  \<comment> \<open>\<open>binary.BigEndian.Uint64\<close>; fewer than eight bytes are an index out of range\<close>
  "fromBe64 bs = (if List.length bs < 8 then None else Some (fold (\<lambda>b acc. push_bit 8 acc OR ucast b) (take 8 bs) 0))"

lemma be_step: "push_bit 8 (drop_bit (k + 8) w) OR ucast (ucast (drop_bit k w) :: 8 word) = drop_bit k (w :: u64)"
proof (rule bit_word_eqI)
  fix n assume "n < LENGTH(64)"
  show "bit (push_bit 8 (drop_bit (k + 8) w) OR ucast (ucast (drop_bit k w) :: 8 word)) n = bit (drop_bit k w) n"
  proof (cases "n < 8")
    case True
    then show ?thesis by (simp add: bit_or_iff bit_push_bit_iff bit_ucast_iff bit_drop_bit_eq)
  next
    case False
    then have "k + 8 + (n - 8) = k + n" by simp
    then show ?thesis using False \<open>n < LENGTH(64)\<close> by (simp add: bit_or_iff bit_push_bit_iff bit_ucast_iff bit_drop_bit_eq)
  qed
qed

lemma fromBe64_be64: "fromBe64 (be64 w) = Some w"
proof -
  have top: "drop_bit 64 w = 0" by (rule bit_word_eqI) (simp add: bit_drop_bit_eq)
  have "fold (\<lambda>b acc. push_bit 8 acc OR ucast b) (be64 w) (drop_bit 64 w) = w"
    using be_step [of 56 w] be_step [of 48 w] be_step [of 40 w] be_step [of 32 w] be_step [of 24 w] be_step [of 16 w] be_step [of 8 w]
      be_step [of 0 w] by (simp add: be64_def del: drop_bit_drop_bit)
  then show ?thesis by (simp add: fromBe64_def top) (simp add: be64_def)
qed
lemma be64_inj: "be64 v = be64 w \<longleftrightarrow> v = w"
  using fromBe64_be64 by (metis option.inject)

lemma length_be64 [simp]: "List.length (be64 w) = 8"
  by (simp add: be64_def)

section \<open>Transactions\<close>

fun EncodeTxs :: "('a \<Rightarrow> bytes option) \<Rightarrow> 'a list \<Rightarrow> bytes list option" where
  "EncodeTxs marshal [] = Some []"
| "EncodeTxs marshal (t # ts) =
     (case marshal t of
        None \<Rightarrow> None
      | Some raw \<Rightarrow> map_option ((#) raw) (EncodeTxs marshal ts))"

definition DecodeTx :: "(bytes \<Rightarrow> 'a option) \<Rightarrow> bytes \<Rightarrow> 'a option" where
  "DecodeTx unmarshal raw = unmarshal raw"

fun DecodeTxs :: "(bytes \<Rightarrow> 'a option) \<Rightarrow> bytes list \<Rightarrow> 'a list option" where
  "DecodeTxs unmarshal [] = Some []"
| "DecodeTxs unmarshal (raw # raws) =
     (case DecodeTx unmarshal raw of
        None \<Rightarrow> None
      | Some t \<Rightarrow> map_option ((#) t) (DecodeTxs unmarshal raws))"

section \<open>Request sets and batches\<close>

record 'a txSet =
  ts_requests :: "'a list"
  ts_local :: bool

record reBroadcastRequestSet =
  rr_requests :: "bytes list"
  rr_replicaId :: u64

definition set_ToPB :: "('a \<Rightarrow> bytes option) \<Rightarrow> u64 \<Rightarrow> 'a txSet \<Rightarrow> reBroadcastRequestSet option" where
  "set_ToPB marshal localId s =
     map_option (\<lambda>raws. \<lparr>rr_requests = raws, rr_replicaId = localId\<rparr>) (EncodeTxs marshal (ts_requests s))"

definition set_FromPB :: "(bytes \<Rightarrow> 'a option) \<Rightarrow> reBroadcastRequestSet \<Rightarrow> 'a txSet \<Rightarrow> bool \<times> 'a txSet" where
  \<comment> \<open>\<open>False\<close>: an error is returned, and the receiver is as it was\<close>
  "set_FromPB unmarshal pb s =
     (case DecodeTxs unmarshal (rr_requests pb) of
        None \<Rightarrow> (False, s)
      | Some txs \<Rightarrow> (True, \<lparr>ts_requests = txs, ts_local = False\<rparr>))"

definition set_Marshal ::
  "('a \<Rightarrow> bytes option) \<Rightarrow> (reBroadcastRequestSet \<Rightarrow> bytes option) \<Rightarrow> u64 \<Rightarrow> 'a txSet \<Rightarrow> bytes option" where
  "set_Marshal marshal encode localId s = Option.bind (set_ToPB marshal localId s) encode"

definition set_Unmarshal ::
  "(bytes \<Rightarrow> 'a option) \<Rightarrow> (bytes \<Rightarrow> reBroadcastRequestSet option) \<Rightarrow> bytes \<Rightarrow> 'a txSet \<Rightarrow> bool \<times> 'a txSet" where
  "set_Unmarshal unmarshal decode raw s = (case decode raw of None \<Rightarrow> (False, s) | Some pb \<Rightarrow> set_FromPB unmarshal pb s)"

record 'a txBatch =
  \<comment> \<open>\<open>RequestBatch\<close> of the library, with decoded transactions\<close>
  tb_hashes :: "string list"
  tb_txs :: "'a list"
  tb_timestamp :: int
  tb_seqNo :: u64
  tb_local :: "bool list"
  tb_hash :: string
  tb_proposer :: u64

definition batch_ToPB :: "('a \<Rightarrow> bytes option) \<Rightarrow> 'a txBatch \<Rightarrow> requestBatch option" where
  "batch_ToPB marshal b =
     map_option (\<lambda>raws. \<lparr>rq_hashes = tb_hashes b, rq_txs = raws, rq_timestamp = tb_timestamp b, rq_seqNo = tb_seqNo b,
       rq_local = tb_local b, rq_hash = tb_hash b, rq_proposer = tb_proposer b\<rparr>) (EncodeTxs marshal (tb_txs b))"

definition batch_FromPB :: "(bytes \<Rightarrow> 'a option) \<Rightarrow> requestBatch \<Rightarrow> 'a txBatch \<Rightarrow> bool \<times> 'a txBatch" where
  "batch_FromPB unmarshal pb b =
     (case DecodeTxs unmarshal (rq_txs pb) of
        None \<Rightarrow> (False, b)
      | Some txs \<Rightarrow> (True, \<lparr>tb_hashes = rq_hashes pb, tb_txs = txs, tb_timestamp = rq_timestamp pb, tb_seqNo = rq_seqNo pb,
          tb_local = rq_local pb, tb_hash = rq_hash pb, tb_proposer = rq_proposer pb\<rparr>))"

definition batch_Marshal :: "('a \<Rightarrow> bytes option) \<Rightarrow> (requestBatch \<Rightarrow> bytes option) \<Rightarrow> 'a txBatch \<Rightarrow> bytes option" where
  "batch_Marshal marshal encode b = Option.bind (batch_ToPB marshal b) encode"

definition batch_Unmarshal ::
  "(bytes \<Rightarrow> 'a option) \<Rightarrow> (bytes \<Rightarrow> requestBatch option) \<Rightarrow> bytes \<Rightarrow> 'a txBatch \<Rightarrow> bool \<times> 'a txBatch" where
  "batch_Unmarshal unmarshal decode raw b = (case decode raw of None \<Rightarrow> (False, b) | Some pb \<Rightarrow> batch_FromPB unmarshal pb b)"

section \<open>What is encoded is decoded\<close>

definition invertible :: "('a \<Rightarrow> 'b option) \<Rightarrow> ('b \<Rightarrow> 'a option) \<Rightarrow> bool" where
  \<comment> \<open>what is encoded without an error is decoded to the same value\<close>
  "invertible encode decode = (\<forall>x r. encode x = Some r \<longrightarrow> decode r = Some x)"

lemma DecodeTxs_EncodeTxs:
  assumes "invertible marshal unmarshal" "EncodeTxs marshal ts = Some raws"
  shows "DecodeTxs unmarshal raws = Some ts"
  using assms(2)
  by (induction ts arbitrary: raws) (use assms(1) in \<open>auto simp: invertible_def DecodeTx_def split: option.splits\<close>)

lemma DecodeTxs_None: "DecodeTxs unmarshal raws = None \<longleftrightarrow> (\<exists>raw \<in> set raws. unmarshal raw = None)"
  by (induction raws) (auto simp: DecodeTx_def split: option.splits)

text \<open>C33. A batch that is encoded is decoded to the same batch, and a set of requests to the same requests, no longer marked as
  local, whatever the receiver held before; a message with a transaction that does not decode leaves the receiver
  as it was.\<close>

theorem batch_roundtrip:
  assumes "invertible marshal unmarshal" "invertible encode decode" "invertible encodeS decodeS"
    and "batch_Marshal marshal encode b = Some raw" "set_Marshal marshal encodeS i s = Some raws"
  shows "batch_Unmarshal unmarshal decode raw b0 = (True, b) \<and>
    set_Unmarshal unmarshal decodeS raws s0 = (True, s\<lparr>ts_local := False\<rparr>) \<and>
    (decode r = Some pb \<longrightarrow> (\<exists>t \<in> set (rq_txs pb). unmarshal t = None) \<longrightarrow> batch_Unmarshal unmarshal decode r b0 = (False, b0))"
proof (intro conjI impI)
  obtain m where m: "batch_ToPB marshal b = Some m" "encode m = Some raw"
    using assms(4) by (auto simp: batch_Marshal_def bind_eq_Some_conv)
  then have "DecodeTxs unmarshal (rq_txs m) = Some (tb_txs b)"
    using DecodeTxs_EncodeTxs [OF assms(1)] by (auto simp: batch_ToPB_def)
  then show "batch_Unmarshal unmarshal decode raw b0 = (True, b)"
    using m assms(2) by (auto simp: batch_Unmarshal_def batch_FromPB_def batch_ToPB_def invertible_def)
  obtain ps where ps: "set_ToPB marshal i s = Some ps" "encodeS ps = Some raws"
    using assms(5) by (auto simp: set_Marshal_def bind_eq_Some_conv)
  then have "DecodeTxs unmarshal (rr_requests ps) = Some (ts_requests s)"
    using DecodeTxs_EncodeTxs [OF assms(1)] by (auto simp: set_ToPB_def)
  then show "set_Unmarshal unmarshal decodeS raws s0 = (True, s\<lparr>ts_local := False\<rparr>)"
    using ps assms(3) by (auto simp: set_Unmarshal_def set_FromPB_def invertible_def)
  show "batch_Unmarshal unmarshal decode r b0 = (False, b0)" if "decode r = Some pb" "\<exists>t \<in> set (rq_txs pb). unmarshal t = None"
    using that DecodeTxs_None [of unmarshal "rq_txs pb"] by (auto simp: batch_Unmarshal_def batch_FromPB_def)
qed

definition sampleTxBatch :: "bytes txBatch" where
  "sampleTxBatch = \<lparr>tb_hashes = [''a''], tb_txs = [[97]], tb_timestamp = 5, tb_seqNo = 1, tb_local = [True], tb_hash = ''d1'', tb_proposer = 2\<rparr>"

definition sampleTxSet :: "bytes txSet" where
  "sampleTxSet = \<lparr>ts_requests = [[97]], ts_local = True\<rparr>"

definition onlyValue :: "'a \<Rightarrow> 'a \<Rightarrow> bytes option" where
  \<comment> \<open>an encoding of one value\<close>
  "onlyValue v x = (if x = v then Some [1] else None)"

theorem batch_roundtrip_witness:
  "\<exists>pb ps. batch_Marshal Some (onlyValue pb) sampleTxBatch = Some [1] \<and> set_Marshal Some (onlyValue ps) 3 sampleTxSet = Some [1] \<and>
     batch_Unmarshal Some (\<lambda>_. Some pb) [1] sampleTxBatch = (True, sampleTxBatch) \<and>
     set_Unmarshal Some (\<lambda>_. Some ps) [1] sampleTxSet = (True, \<lparr>ts_requests = [[97]], ts_local = False\<rparr>)"
proof -
  obtain pb where pb: "batch_ToPB Some sampleTxBatch = Some pb" by (simp add: batch_ToPB_def sampleTxBatch_def)
  obtain ps where ps: "set_ToPB Some 3 sampleTxSet = Some ps" by (simp add: set_ToPB_def sampleTxSet_def)
  have m: "batch_Marshal Some (onlyValue pb) sampleTxBatch = Some [1]" "set_Marshal Some (onlyValue ps) 3 sampleTxSet = Some [1]"
    using pb ps by (simp_all add: batch_Marshal_def set_Marshal_def onlyValue_def)
  have "invertible (onlyValue pb) (\<lambda>_. Some pb)" "invertible (onlyValue ps) (\<lambda>_. Some ps)" "invertible Some (Some :: bytes \<Rightarrow> bytes option)"
    by (simp_all add: invertible_def onlyValue_def)
  from batch_roundtrip [OF this(3,1,2) m, of sampleTxBatch sampleTxSet] m show ?thesis
    by (intro exI [of _ pb] exI [of _ ps]) (simp add: sampleTxSet_def)
qed

end
