(* ===== verification/Transactions.thy ===== *)
theory Transactions
  imports Codec Decimal
begin

text \<open>
  The transaction type that comes with the library (\<open>common/consensus/fltTransaction.go\<close>): the comparison of
  version strings and the hash under which the pool and the batches name a transaction. The JSON encoding
  and Keccak are a parameter.
\<close>

section \<open>Versions\<close>

fun versionPart :: "string \<Rightarrow> u64 \<Rightarrow> u64 \<times> string" where
  \<comment> \<open>the closure \<open>f\<close>: the value of the part at the front, and what follows its dot; \<open>int\<close> wraps at 64 bits,
     the difference of the bytes at 8\<close>
  "versionPart [] part = (part, [])"
| "versionPart (c # cs) part =
     (if c \<noteq> CHR ''.'' then versionPart cs (push_bit 4 part + ucast ((of_nat (of_char c) :: 8 word) - 48)) else (part, cs))"

lemma versionPart_shorter:
  "s \<noteq> [] \<Longrightarrow> List.length (snd (versionPart s p)) < List.length s" "List.length (snd (versionPart s p)) \<le> List.length s"
  by (induction s p rule: versionPart.induct) (auto simp: less_Suc_eq_le le_SucI)

function CompareVersion :: "string \<Rightarrow> string \<Rightarrow> int" where
  "CompareVersion a b =
     (if a = [] \<and> b = [] then 0
      else case versionPart a 0 of (parta, a') \<Rightarrow>
           case versionPart b 0 of (partb, b') \<Rightarrow>
             if partb <s parta then 1
             else if parta <s partb then - 1
             else CompareVersion a' b')"
  by pat_completeness auto
termination
proof (relation "measure (\<lambda>(a, b). List.length a + List.length b)")
  fix a b p a' q b' assume "\<not> (a = [] \<and> b = [])" "(p, a') = versionPart a 0" "(q, b') = versionPart b 0"
  then have "List.length a' + List.length b' < List.length a + List.length b"
    using versionPart_shorter [of a 0] versionPart_shorter [of b 0]
    by (metis add_less_le_mono add_le_less_mono snd_conv)
  then show "((a', b'), (a, b)) \<in> measure (\<lambda>(a, b). List.length a + List.length b)" by simp
qed simp

declare CompareVersion.simps [simp del]

definition partValue :: "string \<Rightarrow> u64" where
  "partValue s = fold (\<lambda>c p. push_bit 4 p + ucast ((of_nat (of_char c) :: 8 word) - 48)) s 0"

definition versionParts :: "string \<Rightarrow> u64 list" where
  "versionParts s = map partValue (splitOn CHR ''.'' s)"

fun compareParts :: "u64 list \<Rightarrow> u64 list \<Rightarrow> int" where
  \<comment> \<open>the signed values are compared from the left, a missing part counts as zero\<close>
  "compareParts [] [] = 0"
| "compareParts (x # xs) [] = (if 0 <s x then 1 else if x <s 0 then - 1 else compareParts xs [])"
| "compareParts [] (y # ys) = (if y <s 0 then 1 else if 0 <s y then - 1 else compareParts [] ys)"
| "compareParts (x # xs) (y # ys) = (if y <s x then 1 else if x <s y then - 1 else compareParts xs ys)"

lemma versionPart_split:
  "versionPart s p = (fold (\<lambda>c p. push_bit 4 p + ucast ((of_nat (of_char c) :: 8 word) - 48)) (hd (splitOn CHR ''.'' s)) p,
     if tl (splitOn CHR ''.'' s) = [] then [] else drop (Suc (List.length (hd (splitOn CHR ''.'' s)))) s)"
  by (induction s p rule: versionPart.induct) (auto split: list.splits)

lemma splitOn_drop:
  "tl (splitOn c s) \<noteq> [] \<Longrightarrow> splitOn c (drop (Suc (List.length (hd (splitOn c s)))) s) = tl (splitOn c s)"
  by (induction s) (auto split: list.splits)

lemma versionPart_parts:
  assumes "versionPart s 0 = (p, r)"
  shows "versionParts s = p # versionParts r \<or> versionParts s = [p] \<and> r = []"
proof (cases "s = []")
  case False
  have "versionParts s = partValue (hd (splitOn CHR ''.'' s)) # map partValue (tl (splitOn CHR ''.'' s))"
    by (cases "splitOn CHR ''.'' s") (simp_all add: versionParts_def)
  moreover have "p = partValue (hd (splitOn CHR ''.'' s))"
    using assms by (simp add: versionPart_split partValue_def)
  ultimately show ?thesis
    using assms False splitOn_drop [of "CHR ''.''" s] by (auto simp: versionPart_split versionParts_def split: if_splits)
qed (use assms in \<open>simp add: versionParts_def partValue_def\<close>)

lemma compareParts_zero [simp]: "compareParts [0] ys = compareParts [] ys" "compareParts xs [0] = compareParts xs []"
  by (cases ys; simp) (cases xs; simp)

lemma CompareVersion_parts: "CompareVersion a b = compareParts (versionParts a) (versionParts b)"
proof (induction a b rule: CompareVersion.induct)
  case (1 a b)
  have empty: "versionParts [] = [0]" by (simp add: versionParts_def partValue_def)
  show ?case
  proof (cases "a = [] \<and> b = []")
    case True
    then show ?thesis by (simp add: CompareVersion.simps empty)
  next
    case False
    obtain p r q t where v: "versionPart a 0 = (p, r)" "versionPart b 0 = (q, t)" by fastforce
    have tails: "compareParts (versionParts a) (versionParts b) =
        (if q <s p then 1 else if p <s q then - 1 else compareParts (versionParts r) (versionParts t))"
      using versionPart_parts [OF v(1)] versionPart_parts [OF v(2)] by (auto simp: empty)
    show ?thesis
    proof (cases "q <s p \<or> p <s q")
      case True
      then show ?thesis using tails v \<open>\<not> (a = [] \<and> b = [])\<close> by (subst CompareVersion.simps) auto
    next
      case undecided: False
      then show ?thesis
        using tails v False "1.IH" [OF False v(1) [symmetric] v(2) [symmetric]] by (subst CompareVersion.simps) auto
    qed
  qed
qed

lemma compareParts_swap: "compareParts ys xs = - compareParts xs ys"
  by (induction xs ys rule: compareParts.induct) (auto simp: word_sless_alt)

lemma compareParts_le:
  "compareParts (x # xs) (y # ys) \<le> 0 \<longleftrightarrow> sint x < sint y \<or> sint x = sint y \<and> compareParts xs ys \<le> 0"
  "compareParts (x # xs) [] \<le> 0 \<longleftrightarrow> sint x < 0 \<or> sint x = 0 \<and> compareParts xs [] \<le> 0"
  "compareParts [] (y # ys) \<le> 0 \<longleftrightarrow> 0 < sint y \<or> sint y = 0 \<and> compareParts [] ys \<le> 0"
  by (auto simp: word_sless_alt)

lemma compareParts_trans:
  "compareParts xs ys \<le> 0 \<Longrightarrow> compareParts ys zs \<le> 0 \<Longrightarrow> compareParts xs zs \<le> 0"
proof (induction xs ys arbitrary: zs rule: compareParts.induct)
  case 1
  then show ?case by simp
next
  case (2 x xs)
  then show ?case by (cases zs) (auto simp: compareParts_le word_sless_alt simp del: compareParts.simps)
next
  case (3 y ys)
  then show ?case by (cases zs) (auto simp: compareParts_le word_sless_alt simp del: compareParts.simps(2-))
next
  case (4 x xs y ys)
  then show ?case by (cases zs) (auto simp: compareParts_le word_sless_alt simp del: compareParts.simps)
qed

text \<open>Versions are compared part by part: the parts between the dots are read as numbers with sixteen as base, the
  first difference decides, and a missing part counts as zero. So the comparison is a total order on versions up to
  such zeros: swapping the arguments changes the sign, and at most is transitive.\<close>

lemma version_order:
  "CompareVersion a b = compareParts (versionParts a) (versionParts b) \<and> CompareVersion b a = - CompareVersion a b \<and>
    \<not> (CompareVersion a b \<le> 0 \<and> CompareVersion b c \<le> 0 \<and> 0 < CompareVersion a c)"
  using compareParts_trans [of "versionParts a" "versionParts b" "versionParts c"] compareParts_swap [of "versionParts b" "versionParts a"]
  by (auto simp: CompareVersion_parts)

section \<open>Hashes\<close>

datatype txType = NTX | CTX | CROSSCHAINTX | ANCHORTX | CROSSCHAINTXAUTO | ANCHORTXAUTO | TIMEOUTTX

record participant =
  pa_initiator :: bytes
  pa_withholding :: "bytes list"

record fltTransaction =
  \<comment> \<open>without \<open>id\<close>, \<open>transactionHash\<close>, \<open>other\<close> and \<open>cName\<close>, which the code never reads\<close>
  ft_version :: bytes
  ft_from :: bytes
  ft_to :: bytes
  ft_value :: bytes
  ft_timestamp :: "64 word"
  ft_signature :: bytes
  ft_nonce :: "64 word"
  ft_txType :: txType
  ft_expiration :: "64 word"
  ft_participant :: "participant option"

definition bytes_string :: "bytes \<Rightarrow> string" where
  "bytes_string bs = map (\<lambda>b. char_of (unat b)) bs"

definition SetBytes :: "bytes \<Rightarrow> bytes" where
  "SetBytes b = (if List.length b < 32 then replicate (32 - List.length b) 0 @ b else take 32 b)"

definition txHash :: "(bytes \<times> bytes \<times> bytes \<times> u64 \<times> u64 \<times> bytes \<times> u64 \<times> participant option \<Rightarrow> bytes) \<Rightarrow> fltTransaction \<Rightarrow> bytes option" where
  \<comment> \<open>\<open>keccak\<close> hashes the JSON form of the fields; \<open>None\<close>: a signature shorter than 24 bytes is a slice out of range\<close>
  "txHash keccak t =
     (if CompareVersion (bytes_string (ft_version t)) ''3.5'' > 0
      then if List.length (ft_signature t) < 24 then None
           else Some (be64 (ft_timestamp t) @ drop (List.length (ft_signature t) - 24) (ft_signature t))
      else Some (be64 (ft_timestamp t) @ drop 8 (SetBytes (keccak (ft_from t, ft_to t, ft_value t, ft_timestamp t,
             ft_nonce t, ft_signature t, ft_expiration t, ft_participant t)))))"

definition base64Alphabet :: string where
  "base64Alphabet = ''ABCDEFGHIJKLMNOPQRSTUVWXYZabcdefghijklmnopqrstuvwxyz0123456789+/''"

definition sextet :: "nat \<Rightarrow> char" where
  "sextet n = base64Alphabet ! (n mod 64)"

fun base64 :: "bytes \<Rightarrow> string" where
  \<comment> \<open>\<open>base64.StdEncoding\<close>\<close>
  "base64 (a # b # c # rest) =
     (let v = unat a * 65536 + unat b * 256 + unat c
      in sextet (v div 262144) # sextet (v div 4096) # sextet (v div 64) # sextet v # base64 rest)"
| "base64 [a, b] =
     (let v = unat a * 65536 + unat b * 256 in [sextet (v div 262144), sextet (v div 4096), sextet (v div 64), CHR ''=''])"
| "base64 [a] = (let v = unat a * 65536 in [sextet (v div 262144), sextet (v div 4096), CHR ''='', CHR ''=''])"
| "base64 [] = []"

definition RbftGetTxHash :: "(bytes \<times> bytes \<times> bytes \<times> u64 \<times> u64 \<times> bytes \<times> u64 \<times> participant option \<Rightarrow> bytes) \<Rightarrow> fltTransaction \<Rightarrow> string option" where
  "RbftGetTxHash keccak t = map_option (\<lambda>h. ''0x'' @ base64 h) (txHash keccak t)"

definition RbftIsConfigTx :: "fltTransaction \<Rightarrow> bool" where
  "RbftIsConfigTx t = (ft_txType t = CTX \<or> ft_txType t = ANCHORTX \<or> ft_txType t = ANCHORTXAUTO \<or> ft_txType t = TIMEOUTTX)"

lemma sextet_inj: "sextet m = sextet n \<longleftrightarrow> m mod 64 = n mod 64"
proof -
  have d: "distinct base64Alphabet" "List.length base64Alphabet = 64" by code_simp+
  show ?thesis unfolding sextet_def by (rule nth_eq_iff_index_eq [OF d(1)]) (simp_all add: d(2))
qed

lemma sextet_pad: "sextet n \<noteq> CHR ''=''"
proof -
  have "CHR ''='' \<notin> set base64Alphabet" "List.length base64Alphabet = 64" by code_simp+
  then show ?thesis unfolding sextet_def by (metis nth_mem mod_less_divisor zero_less_numeral)
qed

lemma sextets_24:
  assumes "v < 16777216" "w < (16777216 :: nat)"
    and "v div 262144 mod 64 = w div 262144 mod 64" "v div 4096 mod 64 = w div 4096 mod 64"
    and "v div 64 mod 64 = w div 64 mod 64" "v mod 64 = w mod 64"
  shows "v = w"
proof -
  have "x = x div 262144 mod 64 * 262144 + x div 4096 mod 64 * 4096 + x div 64 mod 64 * 64 + x mod 64" if "x < 16777216" for x :: nat
  proof -
    have "x = x div 64 * 64 + x mod 64" "x div 64 = x div 4096 * 64 + x div 64 mod 64"
      "x div 4096 = x div 262144 * 64 + x div 4096 mod 64" "x div 262144 mod 64 = x div 262144"
      using that div_mult_mod_eq [of "x div 64" 64] div_mult_mod_eq [of "x div 4096" 64] by (simp_all add: div_mult2_eq [symmetric])
    then show ?thesis by linarith
  qed
  note split = this
  have "v = v div 262144 mod 64 * 262144 + v div 4096 mod 64 * 4096 + v div 64 mod 64 * 64 + v mod 64" by (rule split [OF assms(1)])
  also have "\<dots> = w div 262144 mod 64 * 262144 + w div 4096 mod 64 * 4096 + w div 64 mod 64 * 64 + w mod 64" by (simp only: assms(3-6))
  also have "\<dots> = w" by (rule split [OF assms(2), symmetric])
  finally show ?thesis .
qed

lemma unat_byte: "unat (x :: 8 word) < 256"
proof -
  have "unat x < 2 ^ LENGTH(8)" by (rule unsigned_less)
  then show ?thesis by simp
qed

lemma bytes_24:
  fixes a b c a' b' c' :: "8 word"
  assumes "unat a * 65536 + unat b * 256 + unat c = unat a' * 65536 + unat b' * 256 + unat c'"
  shows "a = a' \<and> b = b' \<and> c = c'"
proof -
  note bounds = unat_byte [of a] unat_byte [of b] unat_byte [of c] unat_byte [of a'] unat_byte [of b'] unat_byte [of c'] assms
  have a: "unat a = unat a'" using bounds by linarith
  moreover have b: "unat b = unat b'" using bounds a by linarith
  moreover have "unat c = unat c'" using bounds a b by linarith
  ultimately show ?thesis by (simp add: word_unat_eq_iff)
qed

lemma small_24: "unat (a :: 8 word) * 65536 + unat (b :: 8 word) * 256 + unat (c :: 8 word) < 16777216"
proof -
  from unat_byte [of a] unat_byte [of b] unat_byte [of c] show ?thesis by linarith
qed

lemma group_inj:
  assumes "v = unat (a :: 8 word) * 65536 + unat (b :: 8 word) * 256 + unat (c :: 8 word)"
      "w = unat (a' :: 8 word) * 65536 + unat (b' :: 8 word) * 256 + unat (c' :: 8 word)"
    and "sextet (v div 262144) = sextet (w div 262144)" "sextet (v div 4096) = sextet (w div 4096)"
    and "sextet (v div 64) = sextet (w div 64)" "sextet v = sextet w"
  shows "a = a' \<and> b = b' \<and> c = c'"
proof -
  have "v = w"
    using sextets_24 [of v w] assms(3-6) small_24 [of a b c] small_24 [of a' b' c'] by (simp add: sextet_inj assms(1,2))
  then show ?thesis using bytes_24 assms(1,2) by blast
qed

lemma base64_inj: "base64 x = base64 y \<Longrightarrow> x = y"
proof (induction x arbitrary: y rule: base64.induct)
  case (1 a b c rest)
  note pad = sextet_pad sextet_pad [symmetric]
  show ?case
  proof (cases y rule: base64.cases)
    case (1 a' b' c' rest')
    then show ?thesis using "1.prems" group_inj [OF refl refl, of a b c a' b' c'] "1.IH" by (simp add: Let_def)
  qed (use "1.prems" pad in \<open>simp_all add: Let_def\<close>)
next
  case (2 a b)
  note pad = sextet_pad sextet_pad [symmetric]
  show ?case
  proof (cases y rule: base64.cases)
    case (2 a' b')
    have low: "sextet (unat (u :: 8 word) * 65536 + unat (t :: 8 word) * 256) = sextet (unat (u' :: 8 word) * 65536 + unat (t' :: 8 word) * 256)" for u t u' t'
      unfolding sextet_inj by (simp add: mod_add_eq [symmetric])
    then show ?thesis using "2.prems" 2 group_inj [of _ a b 0 _ a' b' 0] by (simp add: Let_def)
  qed (use "2.prems" pad in \<open>simp_all add: Let_def\<close>)
next
  case (3 a)
  note pad = sextet_pad sextet_pad [symmetric]
  show ?case
  proof (cases y rule: base64.cases)
    case (3 a')
    have low: "sextet (unat (u :: 8 word) * 65536) = sextet (unat (u' :: 8 word) * 65536)"
      "sextet (unat u * 65536 div 64) = sextet (unat u' * 65536 div 64)" for u u'
      unfolding sextet_inj by simp_all
    then show ?thesis using "3.prems" 3 group_inj [of _ a 0 0 _ a' 0 0] by (simp add: Let_def)
  qed (use "3.prems" pad in \<open>simp_all add: Let_def\<close>)
next
  case 4
  then show ?case by (cases y rule: base64.cases) (simp_all add: Let_def)
qed

lemma base64_eq: "base64 x = base64 y \<longleftrightarrow> x = y"
  using base64_inj by blast

text \<open>C35. A transaction of a version above 3.5 is named by its time and the last 24 bytes of its signature alone: two such
  transactions have the same hash exactly when these agree, whatever their other fields are; and the hash of
  one with a shorter signature is a panic.\<close>

theorem txHash_above_35:
  assumes "CompareVersion (bytes_string (ft_version t)) ''3.5'' > 0" "CompareVersion (bytes_string (ft_version u)) ''3.5'' > 0"
    and "24 \<le> List.length (ft_signature u)"
  shows "(24 \<le> List.length (ft_signature t) \<longrightarrow>
      (RbftGetTxHash keccak t = RbftGetTxHash keccak u \<longleftrightarrow> ft_timestamp t = ft_timestamp u \<and>
        drop (List.length (ft_signature t) - 24) (ft_signature t) = drop (List.length (ft_signature u) - 24) (ft_signature u)))
    \<and> (List.length (ft_signature t) < 24 \<longrightarrow> RbftGetTxHash keccak t = None)"
proof (intro conjI impI)
  assume len: "24 \<le> List.length (ft_signature t)"
  have "RbftGetTxHash keccak t = RbftGetTxHash keccak u \<longleftrightarrow>
      be64 (ft_timestamp t) @ drop (List.length (ft_signature t) - 24) (ft_signature t) =
      be64 (ft_timestamp u) @ drop (List.length (ft_signature u) - 24) (ft_signature u)"
    using assms len by (simp add: RbftGetTxHash_def txHash_def base64_eq del: append_eq_append_conv)
  also have "\<dots> \<longleftrightarrow> ft_timestamp t = ft_timestamp u \<and>
        drop (List.length (ft_signature t) - 24) (ft_signature t) = drop (List.length (ft_signature u) - 24) (ft_signature u)"
    by (simp add: be64_inj)
  finally show "RbftGetTxHash keccak t = RbftGetTxHash keccak u \<longleftrightarrow> ft_timestamp t = ft_timestamp u \<and>
        drop (List.length (ft_signature t) - 24) (ft_signature t) = drop (List.length (ft_signature u) - 24) (ft_signature u)" .
qed (use assms(1) in \<open>simp add: RbftGetTxHash_def txHash_def\<close>)

definition sampleTx :: "u64 \<Rightarrow> nat \<Rightarrow> fltTransaction" where
  "sampleTx nonce len = \<lparr>ft_version = [51, 46, 54], ft_from = [1], ft_to = [2], ft_value = [3], ft_timestamp = 7,
     ft_signature = replicate len 9, ft_nonce = nonce, ft_txType = NTX, ft_expiration = 0, ft_participant = None\<rparr>"

theorem txHash_above_35_witness:
  "RbftGetTxHash (\<lambda>_. []) (sampleTx 1 30) = RbftGetTxHash (\<lambda>_. []) (sampleTx 2 30) \<and> sampleTx 1 30 \<noteq> sampleTx 2 30 \<and>
   RbftGetTxHash (\<lambda>_. []) (sampleTx 1 3) = None"
proof -
  have v: "CompareVersion (bytes_string (ft_version (sampleTx n l))) ''3.5'' > 0" for n l
  proof -
    have "CompareVersion (bytes_string [51, 46, 54]) ''3.5'' > 0" by code_simp
    then show ?thesis by (simp add: sampleTx_def)
  qed
  show ?thesis
    using txHash_above_35 [OF v v, of 2 30 1 30 "\<lambda>_. []"] txHash_above_35 [OF v v, of 2 30 1 3 "\<lambda>_. []"] by (simp add: sampleTx_def)
qed

end
