(* ===== verification/EpochStore.thy ===== *)
theory EpochStore
  imports Codec Epoch
begin

text \<open>
  The functions for tools that keep the quorum checkpoints of the epochs outside a running replica (the end of \<open>helper.go\<close>):
  the store and the reader are arguments, and the reader is given the keys with the prefix \<open>epoch.\<close>.
\<close>

definition PersistEpochQuorumCheckpoint ::
  "(quorumCheckpoint \<Rightarrow> bytes option) \<Rightarrow> (string \<Rightarrow> bytes \<Rightarrow> 's \<Rightarrow> bool \<times> 's) \<Rightarrow> quorumCheckpoint \<Rightarrow> 's \<Rightarrow> (bool \<times> 's) option" where
  \<comment> \<open>\<open>False\<close> is an error; a nil checkpoint is dereferenced\<close>
  "PersistEpochQuorumCheckpoint marshal put c st =
     (case qc_checkpoint c of
        None \<Rightarrow> None
      | Some k \<Rightarrow> (case marshal c of
          None \<Rightarrow> Some (False, st)
        | Some raw \<Rightarrow> (case put (epochKey (ck_epoch k)) raw st of
            (False, st1) \<Rightarrow> Some (False, st1)
          | (True, st1) \<Rightarrow> Some (put epochIndexKey (be64 (ck_epoch k)) st1))))"

definition GetLatestEpochQuorumCheckpoint :: "(string \<Rightarrow> 's \<Rightarrow> bytes) \<Rightarrow> 's \<Rightarrow> u64 option" where
  "GetLatestEpochQuorumCheckpoint read st =
     (let v = read (''epoch.'' @ epochIndexKey) st in if v = [] then Some 0 else fromBe64 v)"

definition GetEpochQuorumCheckpoint ::
  "(bytes \<Rightarrow> quorumCheckpoint option) \<Rightarrow> (string \<Rightarrow> 's \<Rightarrow> bytes) \<Rightarrow> u64 \<Rightarrow> 's \<Rightarrow> quorumCheckpoint option" where
  "GetEpochQuorumCheckpoint unmarshal read e st =
     (let raw = read (''epoch.'' @ epochKey e) st in if raw = [] then None else unmarshal raw)"

definition readsBack :: "(string \<Rightarrow> bytes \<Rightarrow> 's \<Rightarrow> bool \<times> 's) \<Rightarrow> (string \<Rightarrow> 's \<Rightarrow> bytes) \<Rightarrow> bool" where
  \<comment> \<open>the store keeps its keys under the prefix: what was written without an error is read, and other keys are kept\<close>
  "readsBack put read = (\<forall>k v st st'. put k v st = (True, st') \<longrightarrow>
     (\<forall>k'. read (''epoch.'' @ k') st' = (if k' = k then v else read (''epoch.'' @ k') st)))"

lemma epochKey_inj: "epochKey a = epochKey b \<longleftrightarrow> a = b" "epochKey a \<noteq> epochIndexKey"
  by (auto simp: epochKey_def epochIndexKey_def)


definition sampleStore :: "string \<Rightarrow> bytes \<Rightarrow> (string \<Rightarrow> bytes) \<Rightarrow> bool \<times> (string \<Rightarrow> bytes)" where
  "sampleStore k v m = (True, m((''epoch.'' @ k) := v))"

definition epochTwo :: quorumCheckpoint where
  "epochTwo = \<lparr>qc_checkpoint = Some (Checkpoint 2 None True None), qc_signatures = gempty, qc_validatorSet = gempty\<rparr>"


end
