(* ===== verification/Guarantees.thy ===== *)
theory Guarantees
  imports Dispatch WatermarkSafety NormalSafety
begin

text \<open>
  What every handler guarantees, whatever it does otherwise: blocks are handed to the application in order, the low watermark
  does not go back, messages are sent in the replica's own name, and certificates stay well-formed. The guarantee is a transitive relation between
  the states before and after (\<open>chain\<close>). It is shown of each action by a weakest precondition: \<open>wp\<close> unfolds over the
  option monad, the actions an action calls are replaced by their guarantee (the rules \<open>vc\<close>), and updates that do not
  matter are dropped by the simplifier.
\<close>

section \<open>The relation\<close>

fun authorOf :: "payload \<Rightarrow> u64 option" where
  \<comment> \<open>the sender a message names in its own fields; \<open>None\<close> for the messages that pass on what others may have signed\<close>
  "authorOf (NullRequest i) = Some i"
| "authorOf (MPrePrepare p) = Some (pp_replicaId p)"
| "authorOf (MPrepare p) = Some (pr_replicaId p)"
| "authorOf (MCommit c) = Some (cm_replicaId c)"
| "authorOf (ReBroadcastRequestSet i ts) = Some i"
| "authorOf (FetchCheckpoint i n) = Some i"
| "authorOf (MViewChange vc) = map_option vb_replicaId (vc_basis vc)"
| "authorOf (QuorumViewChange i vcs) = Some i"
| "authorOf (FetchView i v) = Some i"
| "authorOf (FetchBatchRequest i d) = Some i"
| "authorOf (FetchBatchResponse i b d) = Some i"
| "authorOf (FetchPQCRequest i h) = Some i"
| "authorOf (MFetchPQCResponse r) = Some (fp_replicaId r)"
| "authorOf (MFetchMissingRequest f) = Some (fm_replicaId f)"
| "authorOf (MFetchMissingResponse r) = Some (fr_replicaId r)"
| "authorOf (SyncStateResponse i v c) = Some i"
| "authorOf (EpochChangeRequest i a c p) = Some i"
| "authorOf (MEpochChangeProof p) = Some (ep_author p)"
| "authorOf _ = None"

fun ownVotes :: "u64 \<Rightarrow> payload \<Rightarrow> bool" where
  \<comment> \<open>votes that a message passes on without the signature of their sender\<close>
  "ownVotes i (MFetchPQCResponse r) = ((\<forall>p \<in> set (fp_prepre r). pp_replicaId p = i) \<and>
     (\<forall>p \<in> set (fp_pre r). pr_replicaId p = i) \<and> (\<forall>c \<in> set (fp_cmt r). cm_replicaId c = i))"
| "ownVotes i _ = True"

abbreviation ownPayload :: "u64 \<Rightarrow> payload \<Rightarrow> bool" where
  "ownPayload i p \<equiv> authorOf p \<in> {None, Some i} \<and> ownVotes i p"

fun ownMessage :: "u64 \<Rightarrow> effect \<Rightarrow> bool" where
  "ownMessage i (Broadcast m) = (m_from m = i \<and> ownPayload i (m_payload m))"
| "ownMessage i (Unicast m to) = (m_from m = i \<and> ownPayload i (m_payload m))"
| "ownMessage i _ = True"

fun plainEffect :: "effect \<Rightarrow> bool" where
  \<comment> \<open>neither hands over a block nor begins or ends a state transfer, which replaces the state of the application\<close>
  "plainEffect (Execute txs ls h ts p) = False"
| "plainEffect (StateUpdate h t d cs es) = False"
| "plainEffect (SendFilterEvent FinishStateUpdate) = False"
| "plainEffect _ = True"

definition quietEffects :: "bool \<Rightarrow> u64 \<Rightarrow> effect list \<Rightarrow> bool" where
  "quietEffects b i es = (\<forall>e \<in> set es. plainEffect e \<and> (b \<longrightarrow> ownMessage i e))"

abbreviation skipping :: "'p replica \<Rightarrow> bool" where
  "skipping s \<equiv> statusIn (rb_status s) SkipInProgress"

definition certsAll :: "(msgID, msgCert) gomap \<Rightarrow> bool" where
  \<comment> \<open>every certificate holds messages for its own view, height and digest, each under its own key\<close>
  "certsAll m = (gwf m \<and> (\<forall>idx c. gget m idx = Some c \<longrightarrow> certWf idx c))"

abbreviation certsOk :: "'p replica \<Rightarrow> bool" where
  "certsOk s \<equiv> certsAll (sm_certStore (rb_store s))"

definition retains :: "bool \<Rightarrow> 'p replica \<Rightarrow> 'p replica \<Rightarrow> bool" where
  "retains b s t = (cc_H (rb_cc s) \<le> cc_H (rb_cc t) \<and> rb_config t = rb_config s \<and>
     (certsOk s \<longrightarrow> certsOk t) \<and>
     (b \<longrightarrow> cc_selfID (rb_cc t) = cc_selfID (rb_cc s) \<and> cc_selfP2P (rb_cc t) = cc_selfP2P (rb_cc s)))"

inductive chain :: "bool \<Rightarrow> 'p replica \<Rightarrow> 'p replica \<Rightarrow> bool" for b where
  calm: "rb_out t = rb_out s @ es \<Longrightarrow> quietEffects b (cc_selfID (rb_cc s)) es \<Longrightarrow> rb_lastExec t = rb_lastExec s \<Longrightarrow>
    (skipping s \<longrightarrow> skipping t) \<Longrightarrow> retains b s t \<Longrightarrow> chain b s t"
| executes: "rb_out t = rb_out s @ [e] \<Longrightarrow> exHeight e = Some (rb_lastExec s + 1) \<Longrightarrow> rb_lastExec t = rb_lastExec s + 1 \<Longrightarrow>
    \<not> skipping s \<Longrightarrow> retains b s t \<Longrightarrow> chain b s t"
| transfers: "rb_out t = rb_out s @ [StateUpdate h n d cs es] \<Longrightarrow> skipping t \<Longrightarrow> retains b s t \<Longrightarrow> chain b s t"
| finishes: "rb_out t = rb_out s @ [SendFilterEvent FinishStateUpdate] \<Longrightarrow> retains b s t \<Longrightarrow> chain b s t"
| trans: "chain b s t \<Longrightarrow> chain b t u \<Longrightarrow> chain b s u"

lemma retains_refl [simp]: "retains b s s"
  by (simp add: retains_def)

lemma chain_refl [simp]: "chain b s s"
  by (rule chain.calm [of _ _ "[]"]) (simp_all add: quietEffects_def)

lemma chain_retains: "chain b s t \<Longrightarrow> retains b s t"
  by (induction rule: chain.induct) (auto simp: retains_def)

lemma chain_self:
  "chain b s t \<Longrightarrow> b \<longrightarrow> cc_selfID (rb_cc t) = cc_selfID (rb_cc s)"
  "chain b s t \<Longrightarrow> b \<longrightarrow> cc_selfP2P (rb_cc t) = cc_selfP2P (rb_cc s)"
  by (drule chain_retains, simp add: retains_def)+

section \<open>Well-formed certificates\<close>

lemma certsAll_empty [simp]: "certsAll gempty"
  by (simp add: certsAll_def)

lemma certsAll_gput [simp]: "certsAll m \<Longrightarrow> certWf idx c \<Longrightarrow> certsAll (gput idx c m)"
  by (simp add: certsAll_def del: split_paired_All)

lemma certsAll_gmodify [simp]:
  "certsAll m \<Longrightarrow> (\<And>c. certWf idx c \<Longrightarrow> certWf idx (f c)) \<Longrightarrow> certsAll (gmodify idx f m)"
  by (auto simp: certsAll_def gget_gmodify simp del: split_paired_All split: if_splits option.splits)

lemma certsAll_gdel [simp]: "certsAll m \<Longrightarrow> certsAll (gdel idx m)"
  by (simp add: certsAll_def del: split_paired_All)

lemma certWf_setPrePrepare [simp]:
  "certWf idx c \<Longrightarrow> (pp_view pp, pp_n pp, pp_digest pp) = idx \<Longrightarrow> certWf idx (mc_prePrepare_update (\<lambda>_. Some pp) c)"
  by (auto simp: certWf_def)

section \<open>Updates that do not matter\<close>

definition sameView :: "'p replica \<Rightarrow> 'p replica \<Rightarrow> bool" where
  \<comment> \<open>states that the relation does not tell apart\<close>
  "sameView s t = (rb_out t = rb_out s \<and> rb_lastExec t = rb_lastExec s \<and> rb_config t = rb_config s \<and>
     (skipping s \<longleftrightarrow> skipping t) \<and> sm_certStore (rb_store t) = sm_certStore (rb_store s) \<and> cc_H (rb_cc t) = cc_H (rb_cc s) \<and>
     cc_selfID (rb_cc t) = cc_selfID (rb_cc s) \<and> cc_selfP2P (rb_cc t) = cc_selfP2P (rb_cc s))"

lemma chain_sameView:
  assumes "sameView t u"
  shows "chain b s u = chain b s t"
proof -
  have "chain b t u" "chain b u t"
    by (rule chain.calm [of _ _ "[]"]; use assms in \<open>simp add: sameView_def retains_def quietEffects_def\<close>)+
  then show ?thesis by (blast intro: chain.trans)
qed

lemma chain_updates [simp]:
  "chain b s (rb_timer_update g t) = chain b s t"
  "chain b s (rb_batch_update i t) = chain b s t"
  "chain b s (rb_recovery_update j t) = chain b s t" "chain b s (rb_vc_update k t) = chain b s t"
  "chain b s (rb_epoch_update l t) = chain b s t" "chain b s (rb_storage_update m t) = chain b s t"
  "chain b s (rb_epochStore_update n t) = chain b s t" "chain b s (rb_pool_update p t) = chain b s t"
  "chain b s (rb_currentState_update q t) = chain b s t"
  by (rule chain_sameView, simp add: sameView_def)+

lemma chain_status [simp]:
  assumes "chain b s t" "skipping t \<longrightarrow> statusIn (f (rb_status t)) SkipInProgress"
  shows "chain b s (rb_status_update f t)"
  by (rule chain.trans [OF assms(1)], rule chain.calm [of _ _ "[]"]) (use assms(2) in \<open>simp_all add: quietEffects_def retains_def\<close>)

lemma chain_store [simp]:
  assumes "chain b s t" "certsOk t \<longrightarrow> certsAll (sm_certStore (h (rb_store t)))"
  shows "chain b s (rb_store_update h t)"
  by (rule chain.trans [OF assms(1)], rule chain.calm [of _ _ "[]"]) (use assms(2) in \<open>simp_all add: quietEffects_def retains_def\<close>)

lemma chain_cc [simp]:
  assumes "cc_H (f (rb_cc t)) = cc_H (rb_cc t)" "cc_selfID (f (rb_cc t)) = cc_selfID (rb_cc t)"
    "cc_selfP2P (f (rb_cc t)) = cc_selfP2P (rb_cc t)"
  shows "chain b s (rb_cc_update f t) = chain b s t"
  using assms by (intro chain_sameView) (simp add: sameView_def)

lemma chain_emit [simp]:
  assumes "chain b s t" "plainEffect e" "b \<longrightarrow> ownMessage (cc_selfID (rb_cc t)) e"
  shows "chain b s (emit e t)"
proof (rule chain.trans [OF assms(1)])
  show "chain b t (emit e t)"
    using assms(2,3) by (intro chain.calm [of _ _ "[e]"]) (simp_all add: emit_def quietEffects_def retains_def)
qed

lemma chain_emitTransfer [simp]:
  assumes "chain b s t" "skipping t"
  shows "chain b s (emit (StateUpdate h n d cs es) t)"
  by (rule chain.trans [OF assms(1)], rule chain.transfers [of _ _ h n d cs es])
    (use assms(2) in \<open>simp_all add: emit_def retains_def\<close>)

lemma chain_broadcast [simp]:
  assumes "chain b s t" "b \<longrightarrow> ownPayload (cc_selfID (rb_cc t)) p"
  shows "chain b s (broadcast p t)"
  using assms by (simp add: broadcast_def mkMsg_def selfID_def)

lemma chain_unicastByP2PID [simp]:
  assumes "chain b s t" "b \<longrightarrow> ownPayload (cc_selfID (rb_cc t)) p"
  shows "chain b s (unicastByP2PID p to t)"
  using assms by (simp add: unicastByP2PID_def mkMsg_def selfID_def)

lemma getNodeInfo_frame [simp]:
  "cc_H (snd (getNodeInfo f c i)) = cc_H c" "cc_selfID (snd (getNodeInfo f c i)) = cc_selfID c"
  "cc_selfP2P (snd (getNodeInfo f c i)) = cc_selfP2P c"
  by (simp_all add: getNodeInfo_def split: option.split)

lemma chain_unicast [simp]:
  assumes "chain b s t" "b \<longrightarrow> ownPayload (cc_selfID (rb_cc t)) p"
  shows "chain b s (unicast E p to t)"
  using assms by (cases "getNodeInfo (en_getNodeInfo E) (rb_cc t) to" ; cases "fst (getNodeInfo (en_getNodeInfo E) (rb_cc t) to)")
    (use getNodeInfo_frame [of "en_getNodeInfo E" "rb_cc t" to] in \<open>auto simp: unicast_def\<close>)

lemma chain_stopNamespace [simp]: "chain b s t \<Longrightarrow> chain b s (stopNamespace t)"
  by (simp add: stopNamespace_def)

lemma chain_if [simp]: "chain b s (if c then x else y) = ((c \<longrightarrow> chain b s x) \<and> (\<not> c \<longrightarrow> chain b s y))"
  by simp

lemma chain_fold:
  assumes "\<And>x t. chain b s t \<Longrightarrow> chain b s (f x t)" "chain b s t"
  shows "chain b s (fold f xs t)"
  using assms(2) by (induction xs arbitrary: t) (simp_all add: assms(1))

section \<open>Weakest preconditions\<close>

definition wp :: "'a option \<Rightarrow> ('a \<Rightarrow> bool) \<Rightarrow> bool" where
  "wp r Q = (\<forall>x. r = Some x \<longrightarrow> Q x)"

lemma wp_simps [simp]:
  "wp None Q" "wp (Some x) Q = Q x" "wp (Option.bind m f) Q = wp m (\<lambda>x. wp (f x) Q)"
  "wp (map_option g m) Q = wp m (\<lambda>x. Q (g x))" "wp (case m of None \<Rightarrow> None | Some x \<Rightarrow> f x) Q = wp m (\<lambda>x. wp (f x) Q)"
  by (cases m; auto simp: wp_def)+

lemma wp_True [simp]: "wp r (\<lambda>x. True)"
  by (simp add: wp_def)

lemma wp_if [simp]: "wp (if c then x else y) Q = ((c \<longrightarrow> wp x Q) \<and> (\<not> c \<longrightarrow> wp y Q))"
  by simp

lemma wp_dropEvent [simp]: "wp (dropEvent h t) Q = wp (h t) (\<lambda>r. Q (snd r))"
  by (simp add: dropEvent_def)

lemma wp_all: "(\<And>x. Q x) \<Longrightarrow> wp r Q"
  by (simp add: wp_def)

lemma wp_any: "(\<And>x. r = Some x \<Longrightarrow> Q x) \<Longrightarrow> wp r Q"
  by (simp add: wp_def)

definition idStable :: "'p env \<Rightarrow> 'p replica \<Rightarrow> bool" where
  \<comment> \<open>the node service knows this replica under its identifier, or does not know it\<close>
  "idStable E s = (en_nodeIDByP2P E (cc_selfP2P (rb_cc s)) \<in> {None, Some (cc_selfID (rb_cc s))})"

definition guarded :: "bool \<Rightarrow> 'p replica \<Rightarrow> 'p act \<Rightarrow> bool" where
  \<comment> \<open>what has gone on from the state \<open>s\<close> may go on with this action\<close>
  "guarded b s f = (\<forall>t. chain b s t \<longrightarrow> wp (f t) (chain b s))"

definition guardedP :: "bool \<Rightarrow> 'p replica \<Rightarrow> ('p replica \<Rightarrow> ('a \<times> 'p replica) option) \<Rightarrow> bool" where
  \<comment> \<open>of an action with a result\<close>
  "guardedP b s f = (\<forall>t. chain b s t \<longrightarrow> wp (f t) (\<lambda>r. chain b s (snd r)))"

named_theorems vc

lemma guardedI: "(\<And>t. chain b s t \<Longrightarrow> wp (f t) (chain b s)) \<Longrightarrow> guarded b s f"
  unfolding guarded_def by blast

lemma guardedPI: "(\<And>t. chain b s t \<Longrightarrow> wp (f t) (\<lambda>r. chain b s (snd r))) \<Longrightarrow> guardedP b s f"
  unfolding guardedP_def by blast

lemma guardedD:
  "guarded b s f \<Longrightarrow> chain b s t \<Longrightarrow> f t = Some u \<Longrightarrow> chain b s u"
  "guardedP b s g \<Longrightarrow> chain b s t \<Longrightarrow> g t = Some (x, u) \<Longrightarrow> chain b s u"
  unfolding guarded_def guardedP_def wp_def by auto

lemma guarded_wp: "guarded b s f \<Longrightarrow> chain b s t \<Longrightarrow> (\<And>u. chain b s u \<Longrightarrow> Q u) \<Longrightarrow> wp (f t) Q"
  unfolding guarded_def wp_def by blast

lemma guarded_own:
  assumes "guarded b s f" "chain b s t"
    and "\<And>u. chain b s u \<Longrightarrow> b \<longrightarrow> cc_selfID (rb_cc u) = cc_selfID (rb_cc t) \<Longrightarrow> Q u"
  shows "wp (f t) Q"
proof (rule wp_any)
  fix u assume "f t = Some u"
  then have "chain b s u" using guardedD(1) [OF assms(1,2)] by blast
  then show "Q u" using assms(3) chain_self(1) [OF assms(2)] chain_self(1) by metis
qed

lemma guardedP_wp: "guardedP b s f \<Longrightarrow> chain b s t \<Longrightarrow> (\<And>x u. chain b s u \<Longrightarrow> Q (x, u)) \<Longrightarrow> wp (f t) Q"
  unfolding guardedP_def wp_def by (metis prod.collapse)

lemma guarded_mfold:
  assumes "\<And>x. guarded b s (f x)"
  shows "guarded b s (mfold f xs)"
proof -
  have "wp (mfold f xs t) (chain b s)" if "chain b s t" for t
    using that by (induction xs arbitrary: t) (auto intro: guarded_wp [OF assms])
  then show ?thesis by (simp add: guarded_def)
qed

locale onward =
  \<comment> \<open>what goes on from a fixed state; \<open>b\<close>: its messages matter\<close>
  fixes b :: bool and s :: "'p replica"

locale watched = onward +
  \<comment> \<open>in an environment whose node service knows the replica by its identifier, if its messages matter\<close>
  fixes E :: "'p env"
  assumes idStable: "b \<longrightarrow> idStable E s"

locale running = watched +
  \<comment> \<open>with a way to process an event, and every event that follows from it, that has the guarantee\<close>
  fixes run :: "event \<Rightarrow> 'p act"
  assumes runs: "guarded b s (run e)"

end
