(* ===== verification/LoopSafety.thy ===== *)
theory LoopSafety
  imports Guarantees
begin

text \<open>
  The guarantee of Guarantees for every handler, up to the event loop.
\<close>

section \<open>Timers, status and storage\<close>

lemmas small_actions = stopT_def stopHighWatermarkTimer_def stopFetchCheckpointTimer_def stopFetchViewTimer_def
  stopNewViewTimer_def stopNoTxBatchTimer_def stopBatchTimer_def stopCheckPoolTimer_def exitSyncState_def setAbNormal_def
  ron_def roff_def raOn_def raOff_def rmaybeSetNormal_def rsetNormal_def storeState_def delState_def
  modCert_def cacheHighView_def saveCheckpoint_def deleteCheckpoint_def cleanCommittedCertCache_def cleanOutstandingAndCert_def
  setConfigBatchToExecute_def withPool_def persistBatch_def persistDelBatch_def persistCheckpoint_def persistDelCheckpoint_def
  persistH_def selfID_def Let_def

declare certWf_put [simp]

lemma skipping_maybeSetNormal [simp]:
  "statusIn (maybeSetNormal st) SkipInProgress = statusIn st SkipInProgress"
  by (simp add: statusIn_maybeSetNormal)

lemma chain_getCert [simp]: "chain b s t \<Longrightarrow> chain b s (snd (getCert idx t))" "rb_cc (snd (getCert idx t)) = rb_cc t"
  by (simp_all add: getCert_def split: option.split)

context onward begin

lemma guarded_startT [THEN guarded_wp, vc]: "guarded b s (startT E n ev)"
  by (rule guardedI) (simp add: startT_def wp_any)

lemma guarded_startTNew [THEN guarded_wp, vc]: "guarded b s (startTNew E n d ev)"
  by (rule guardedI) (simp add: startTNew_def wp_any)

lemma guarded_softStartT [THEN guardedP_wp, vc]: "guardedP b s (softStartT E n d ev)"
  by (rule guardedPI) (simp add: softStartT_def split_beta wp_any)

lemma guarded_timers [THEN guarded_wp, vc]:
  "guarded b s (softStartHighWatermarkTimer E)" "guarded b s (startFetchCheckpointTimer E)" "guarded b s (startFetchViewTimer E)"
  "guarded b s (softStartNewViewTimer E t f)" "guarded b s (startBatchTimer E)" "guarded b s (startNoTxBatchTimer E)"
  "guarded b s (restartNoTxBatchTimer E)" "guarded b s (restartBatchTimer E)" "guarded b s (softRestartBatchTimer E)"
  "guarded b s (startCheckPoolTimer E)" "guarded b s (restartCheckPoolTimer E)" "guarded b s (nullReqTimerReset E)"
  "guarded b s (startTimerIfOutstandingRequests E)" "guarded b s (trySyncState E)"
  by (rule guardedI, auto simp: softStartHighWatermarkTimer_def startFetchCheckpointTimer_def startFetchViewTimer_def
      softStartNewViewTimer_def startBatchTimer_def startNoTxBatchTimer_def restartNoTxBatchTimer_def restartBatchTimer_def
      softRestartBatchTimer_def startCheckPoolTimer_def restartCheckPoolTimer_def nullReqTimerReset_def
      startTimerIfOutstandingRequests_def trySyncState_def small_actions split_beta intro!: vc)+

end

section \<open>View change\<close>

lemma chain_persistLists [simp]:
  "chain b s (persistQList q t) = chain b s t" "chain b s (persistPList p t) = chain b s t"
  "chain b s (persistDelQPList E t) = chain b s t"
  by (simp_all add: persistQList_eq persistPList_eq) (use persistDelQPList_eq [of E t] in auto)

lemma chain_persistDelQPCSet [simp]: "chain b s (persistDelQPCSet idx t) = chain b s t"
  by (simp add: persistDelQPCSet_def persistDelQSet_def persistDelPSet_def persistDelCSet_def delState_def split_beta)

lemma chain_dropOldCerts [simp]: "chain b s t \<Longrightarrow> chain b s (dropOldCerts t)"
  unfolding dropOldCerts_def by (rule chain_fold) (simp_all split: prod.split)

context onward begin

lemma guarded_setViewGen: "guarded b s (setViewGen E r v)"
  by (rule guardedI, rule wp_any, erule setViewGenD, simp)

lemma guarded_setView [THEN guarded_wp, vc]: "guarded b s (setView E v)" "guarded b s (setViewWithRecovery E v)"
  by (simp_all add: setView_def setViewWithRecovery_def guarded_setViewGen)

lemma guarded_persistNewView [THEN guarded_wp, vc]: "guarded b s (persistNewView E nv r)"
  by (rule guardedI) (auto simp: persistNewView_def setLastStableView_def small_actions updatePrimaryID_def intro!: vc)

lemma wp_getVcBasis [vc]:
  assumes "chain b s t"
    and "\<And>x u. chain b s u \<Longrightarrow> cc_selfID (rb_cc u) = cc_selfID (rb_cc t) \<Longrightarrow> vb_replicaId x = cc_selfID (rb_cc t) \<Longrightarrow> Q (x, u)"
  shows "wp (getVcBasis E t) Q"
proof (rule wp_any)
  fix r assume r: "getVcBasis E t = Some r"
  have "chain b s (snd r)"
    using r assms(1) by (auto simp: getVcBasis_def small_actions split: prod.splits Option.bind_splits)
  moreover have "cc_selfID (rb_cc (snd r)) = cc_selfID (rb_cc t)" "vb_replicaId (fst r) = cc_selfID (rb_cc t)"
    using getVcBasis_D [of E t "fst r" "snd r"] r by (simp_all add: selfID_def)
  ultimately show "Q r" using assms(2) [of "snd r" "fst r"] by simp
qed

lemma guarded_sendRecoveryResponse: "chain b s t \<Longrightarrow> chain b s (sendRecoveryResponse E i t)"
  by (simp add: sendRecoveryResponse_def)

lemma guarded_beforeSendVC [THEN guarded_wp, vc]: "guarded b s (beforeSendVC E r)"
  by (rule guardedI) (auto simp: beforeSendVC_def small_actions intro!: vc)

lemma guarded_sendViewChangeStart: "guardedP b s (sendViewChangeStart E r)"
  by (rule guardedPI) (auto simp: sendViewChangeStart_def signViewChange_def small_actions split: option.split intro!: vc)

lemma guarded_quorumReached: "guarded b s (quorumReached E v)"
  by (rule guardedI) (auto simp: quorumReached_def small_actions intro!: vc)

end

lemma chain_recvStored: "chain b s (recvStored E w x t) = chain b s t"
  by (simp add: recvStored_def dropExpired_def storeVC_def)

context onward begin

lemma guarded_recvViewChangeStep: "guardedP b s (recvViewChangeStep E w ver)"
proof (rule guardedPI, rule wp_any)
  fix t x assume t: "chain b s t" and run: "recvViewChangeStep E w ver t = Some x"
  from run have "recvViewChangeStep E w ver t = Some (fst x, snd x)" by simp
  then obtain y where "snd x \<in> {t, recvStored E w y t, sendRecoveryResponse E (vb_replicaId y) t,
      sendRecoveryResponse E (vb_replicaId y) (recvStored E w y t)} \<or>
      (\<exists>v. setView E v (recvStored E w y t) = Some (snd x)) \<or> quorumReached E (vb_view y) (recvStored E w y t) = Some (snd x)"
    by (rule recvStepE) (unfold Let_def, blast)
  moreover have u: "chain b s (recvStored E w y t)" using t by (simp add: chain_recvStored)
  ultimately show "chain b s (snd x)"
    using guardedD(1) [OF guarded_quorumReached u] guardedD(1) [OF guarded_setViewGen u]
    unfolding setView_def by (elim disjE insertE exE) (simp_all add: t sendRecoveryResponse_def)
qed

lemma guarded_sendViewChange: "guardedP b s (sendViewChange E r)"
proof (rule guardedPI, rule wp_any)
  fix t x assume t: "chain b s t" and run: "sendViewChange E r t = Some x"
  let ?R = "\<lambda>x y. chain b s x \<longrightarrow> chain b s y"
  have "?R t (snd x)"
  proof (rule sendViewChange_rel [where R = ?R and E = E and r = r and e = "fst x"])
    show "?R u v" if "sendViewChangeStart E r u = Some (ovc, v)" for r u ovc v
      using guarded_sendViewChangeStart [of E r] that by (fastforce simp: guardedP_def wp_def)
    show "?R u v" if "recvViewChangeStep E w True u = Some (n, v)" for w u n v
      using guarded_recvViewChangeStep [of E w True] that by (fastforce simp: guardedP_def wp_def)
  qed (use run in auto)
  with t show "chain b s (snd x)" by simp
qed

lemmas wp_viewChange [vc] = guarded_recvViewChangeStep [THEN guardedP_wp] guarded_sendViewChange [THEN guardedP_wp]

lemma guarded_recvViewChange [THEN guardedP_wp, vc]: "guardedP b s (recvViewChange E w ver)"
  by (rule guardedPI) (auto simp: recvViewChange_def split: vcNext.split intro!: vc)

lemma guarded_initRecovery [THEN guardedP_wp, vc]: "guardedP b s (initRecovery E)"
  unfolding initRecovery_def by (rule guarded_sendViewChange)

end

section \<open>Execution\<close>

lemma beforeExecute_config: "beforeExecute E idx s = Some s' \<Longrightarrow> rb_config s' = rb_config s"
  by (auto simp: beforeExecute_def softRestartBatchTimer_def softStartT_def persistCSet_def getCert_def small_actions
      split: prod.splits option.splits if_splits)

lemma executeBatch_config: "executeBatch E idx cert s = Some s' \<Longrightarrow> rb_config s' = rb_config s"
  by (auto simp: executeBatch_def small_actions emit_def split: prod.splits if_splits Option.bind_splits)

lemma afterCommitBlock_config: "afterCommitBlock idx c s = Some s' \<Longrightarrow> rb_config s' = rb_config s"
  by (auto simp: afterCommitBlock_def small_actions split: if_splits)

lemma commitOne_config: "commitOne E idx cert s = Some s' \<Longrightarrow> rb_config s' = rb_config s"
  by (auto simp: commitOne_def modCert_def dest!: beforeExecute_config executeBatch_config afterCommitBlock_config
      split: option.splits)

lemma chain_commitLoop: "commitLoop E t = Some t' \<Longrightarrow> chain b t t'"
proof (induction E t arbitrary: t' rule: commitLoop.induct)
  case (1 E t)
  show ?case
  proof (cases "findNextCommitBatch t")
    case None
    then show ?thesis using "1.prems" by (subst (asm) commitLoop.simps) simp
  next
    case (Some p)
    then obtain idx cert where f: "findNextCommitBatch t = Some (idx, cert)" by (cases p) auto
    obtain t1 where one: "commitOne E idx cert t = Some t1" and rest: "commitLoop E t1 = Some t'"
      using "1.prems" f by (subst (asm) commitLoop.simps) (auto split: option.splits)
    note fd = findNextCommitBatch_D [OF f] and od = commitOne_D [OF one fd(2)]
    obtain e where e: "executeEffect E idx cert t = Some e" "rb_out t1 = rb_out t @ [e]" using od(1) by blast
    have "chain b t t1"
      using e(2) executeEffect_height [OF e(1)] od(2,5) fd(4,6) commitOne_config [OF one]
      by (intro chain.executes) (simp_all add: retains_def rin_def od(4))
    then show ?thesis using "1.IH" [OF f refl one rest] by (rule chain.trans)
  qed
qed

context onward begin

lemma guarded_commitLoop [THEN guarded_wp, vc]: "guarded b s (commitLoop E)"
  by (rule guardedI, rule wp_any) (blast intro: chain.trans chain_commitLoop)

lemma guarded_commitPendingBlocks [THEN guarded_wp, vc]: "guarded b s (commitPendingBlocks E)"
  by (rule guardedI) (auto simp: commitPendingBlocks_def intro!: vc)

end

section \<open>The normal case\<close>

lemma chain_persistSets [simp]:
  "chain b s (persistQSet q t) = chain b s t" "chain b s t \<Longrightarrow> chain b s (persistPSet idx t)"
  "chain b s t \<Longrightarrow> chain b s (persistCSet idx t)" "rb_cc (persistQSet q t) = rb_cc t" "rb_cc (persistPSet idx t) = rb_cc t"
  by (simp_all add: persistQSet_def persistPSet_def persistCSet_def storeState_def getCert_def split_beta split: option.split)

context onward begin

lemma guarded_recvCommit: "guarded b s (recvCommit E c)"
  by (rule guardedI) (auto simp: recvCommit_def small_actions split_beta split del: if_split intro!: vc)

lemmas wp_recvCommit [vc] = guarded_recvCommit [THEN guarded_wp]

lemma guarded_sendCommit [THEN guarded_wp, vc]: "guarded b s (sendCommit E idx)"
  by (rule guardedI) (auto simp: sendCommit_def small_actions split_beta intro!: vc)

lemma guarded_maybeSendCommit [THEN guarded_wp, vc]: "guarded b s (maybeSendCommit E idx)"
  by (rule guardedI) (auto simp: maybeSendCommit_def small_actions split_beta intro!: vc)

lemma guarded_recvPrepare: "guarded b s (recvPrepare E p)"
  by (rule guardedI) (auto simp: recvPrepare_def small_actions split_beta intro!: vc)

lemmas wp_recvPrepare [vc] = guarded_recvPrepare [THEN guarded_wp]

lemma guarded_sendPrepare [THEN guarded_wp, vc]: "guarded b s (sendPrepare E idx)"
  by (rule guardedI) (auto simp: sendPrepare_def small_actions split_beta intro!: vc)

end

lemma chain_fetchMissingTxs [simp]: "chain b s t \<Longrightarrow> chain b s (fetchMissingTxs E pp m t)"
  by (simp add: fetchMissingTxs_def selfID_def)

lemma chain_noticeConfigBatch [simp]: "chain b s t \<Longrightarrow> chain b s (noticeConfigBatch idx x t)"
  by (simp add: noticeConfigBatch_def small_actions)

lemma chain_sendPrePrepare [simp]: "chain b s t \<Longrightarrow> chain b s (sendPrePrepare n d x t)"
  by (simp add: sendPrePrepare_def small_actions)

context onward begin

lemma guarded_storeBatch [THEN guarded_wp, vc]: "guarded b s (storeBatch d x)"
  by (rule guardedI) (simp add: storeBatch_def small_actions)

lemma guarded_assembleBatch [THEN guarded_wp, vc]: "guarded b s (assembleBatch E idx pp)"
  by (rule guardedI) (auto simp: assembleBatch_def small_actions split: poolReply.split prod.split
      intro!: vc wp_all [where r = "pp_hashBatch pp"])

lemma guarded_findNextPrepareBatch [THEN guarded_wp, vc]: "guarded b s (findNextPrepareBatch E idx)"
  by (rule guardedI) (auto simp: findNextPrepareBatch_def split_beta split: option.split split del: if_split intro!: vc)

lemma guarded_acceptPrePrepare [THEN guarded_wp, vc]: "guarded b s (acceptPrePrepare E pp)"
  by (rule guardedI) (auto simp: acceptPrePrepare_def small_actions split_beta split del: if_split intro!: vc)

lemma guarded_recvPrePrepare [THEN guarded_wp, vc]: "guarded b s (recvPrePrepare E pp)"
  by (rule guardedI) (auto simp: recvPrePrepare_def small_actions split del: if_split intro!: vc wp_all [where r = "digestOk E pp"])

lemma guarded_sendBatch [THEN guardedP_wp, vc]: "guardedP b s (sendBatch E x)"
  by (rule guardedPI) (auto simp: sendBatch_def Let_def intro!: vc)

lemma guarded_maybeSendPrePrepareStep: "guardedP b s (maybeSendPrePrepareStep E ob)"
  by (rule guardedPI) (auto simp: maybeSendPrePrepareStep_def small_actions split: option.split list.split intro!: vc)

lemma guarded_maybeSendPrePrepare [THEN guarded_wp, vc]: "guarded b s (maybeSendPrePrepare E ob)"
proof (rule guardedI)
  fix t assume "chain b s t"
  then show "wp (maybeSendPrePrepare E ob t) (chain b s)"
  proof (induction E ob t rule: maybeSendPrePrepare.induct)
    case (1 E ob t)
    have step: "chain b s u" if "maybeSendPrePrepareStep E ob t = Some (again, u)" for again u
      using guardedD(2) [OF guarded_maybeSendPrePrepareStep] "1.prems" that .
    show ?case
      by (subst maybeSendPrePrepare.simps) (cases "maybeSendPrePrepareStep E ob t"; use 1 step in auto)
  qed
qed

lemma guarded_recvRequestBatch: "guarded b s (recvRequestBatch E ob)"
  by (rule guardedI) (auto simp: recvRequestBatch_def small_actions split del: if_split intro!: vc wp_all [where r = ob])

lemma guarded_postBatches [THEN guarded_wp, vc]: "guarded b s (postBatches E bs)"
  unfolding postBatches_def by (rule guarded_mfold) (rule guarded_recvRequestBatch)

lemma guarded_resubmitLoop [THEN guarded_wp, vc]: "guarded b s (resubmitLoop E)"
proof -
  have go: "postBatches E bs v = Some t' \<Longrightarrow> chain b s v \<Longrightarrow> chain b s t'" for E bs v t'
    using guarded_postBatches [of v "chain b s" E bs] by (simp add: wp_def)
  have "chain b s t \<longrightarrow> chain b s u" if "resubmitLoop E t = Some u" for t u
    by (rule resubmitLoop.raw_induct [OF _ that, where P = "\<lambda>E t u. chain b s t \<longrightarrow> chain b s u"])
      (auto simp: small_actions split: if_splits prod.splits option.splits Option.bind_splits dest!: go)
  then show ?thesis by (auto simp: guarded_def wp_def)
qed

lemma guarded_primaryResubmit [THEN guarded_wp, vc]: "guarded b s (primaryResubmitTransactions E)"
  by (rule guardedI) (auto simp: primaryResubmitTransactions_def small_actions split del: if_split intro!: vc)

lemma guarded_nullRequests [THEN guarded_wp, vc]: "guarded b s (sendNullRequest E)"
  by (rule guardedI) (auto simp: sendNullRequest_def small_actions intro!: vc)

lemma guarded_nullRequestTimer [THEN guarded_wp, vc]: "guarded b s (handleNullRequestTimerEvent E)"
  by (rule guardedI) (auto simp: handleNullRequestTimerEvent_def intro!: vc)

lemma guarded_recvNullRequest [THEN guardedP_wp, vc]: "guardedP b s (recvNullRequest E i)"
  by (rule guardedPI) (auto simp: recvNullRequest_def small_actions split del: if_split intro!: vc)

lemma guarded_processOutOfDateReqs [THEN guarded_wp, vc]: "guarded b s (processOutOfDateReqs E timeout)"
  by (rule guardedI) (auto simp: processOutOfDateReqs_def small_actions split: prod.split
      intro!: wp_any chain_fold)

lemma guarded_fetchMissingRequest [THEN guarded_wp, vc]: "guarded b s (recvFetchMissingRequest E f)"
  by (rule guardedI) (auto simp: recvFetchMissingRequest_def missingResponse_def small_actions intro!: wp_any)

lemma guarded_fetchMissingResponse [THEN guardedP_wp, vc]: "guardedP b s (recvFetchMissingResponse E r)"
  by (rule guardedPI) (auto simp: recvFetchMissingResponse_def small_actions split_beta split: bool.split
      split del: if_split intro!: vc)

lemma guarded_recvLists:
  "guarded b s (mfold (recvPrePrepare E) ps)" "guarded b s (mfold (recvPrepare E) qs)" "guarded b s (mfold (recvCommit E) cs)"
  by (rule guarded_mfold, rule guardedI, auto intro!: vc)+

lemmas wp_recvLists [vc] = guarded_recvLists [THEN guarded_wp]

lemma guarded_fetchPQCResponse [THEN guarded_wp, vc]: "guarded b s (recvFetchPQCResponse E r)"
  by (rule guardedI) (auto simp: recvFetchPQCResponse_def intro!: vc)

lemma guarded_processWRFHighViewMsgs [THEN guarded_wp, vc]: "guarded b s (processWRFHighViewMsgs E)"
proof -
  have "guarded b s (processWRFHighView E v)" for v
    by (rule guardedI) (auto simp: processWRFHighView_def split: option.split intro!: vc)
  then have "guarded b s (mfold (processWRFHighView E) vs)" for vs by (rule guarded_mfold)
  then show ?thesis by (simp add: guarded_def processWRFHighViewMsgs_def)
qed

end

lemma ownPQC_votes:
  assumes "ownPQC h t m = (qs, ps, cs)"
  shows "\<forall>q \<in> set qs. pp_replicaId q = selfID t" "\<forall>p \<in> set ps. pr_replicaId p = selfID t" "\<forall>c \<in> set cs. cm_replicaId c = selfID t"
  using assms by (auto simp: ownPQC_def Let_def split: option.splits if_splits)

lemma chain_normal [simp]:
  assumes "chain b s t"
  shows "chain b s (fetchRecoveryPQC t)" "chain b s (recvReBroadcastRequestSet E txs t)"
  using assms by (simp_all add: fetchRecoveryPQC_def recvReBroadcastRequestSet_def small_actions)

lemma chain_fetchPQCRequest [simp]:
  assumes "chain b s t"
  shows "chain b s (recvFetchPQCRequest E i h t)"
proof -
  obtain q1 p1 c1 where o1: "ownPQC h t (sm_certStore (rb_store t)) = (q1, p1, c1)" by (metis prod_cases3)
  obtain q2 p2 c2 where o2: "ownPQC h t (sm_committedCertCache (rb_store t)) = (q2, p2, c2)" by (metis prod_cases3)
  show ?thesis
    using assms ownPQC_votes [OF o1] ownPQC_votes [OF o2]
    by (simp add: recvFetchPQCRequest_def o1 o2 selfID_def ball_Un)
qed

section \<open>Watermarks and state transfer\<close>

lemma certsOk_dropCertsUpTo: "certsOk t \<Longrightarrow> certsOk (dropCertsUpTo h t)"
proof -
  have "certsOk (fold (\<lambda>(idx, c) t. if fst (snd idx) \<le> h then dropCert idx c t else t) cs t)" if "certsOk t" for cs
    using that by (induction cs arbitrary: t) (auto split: prod.splits)
  then show "certsOk t \<Longrightarrow> ?thesis" by (simp add: dropCertsUpTo_def)
qed

lemma chain_dropCertsUpTo [simp]: "chain b s t \<Longrightarrow> chain b s (dropCertsUpTo h t)"
  by (erule chain.trans, rule chain.calm [of _ _ "[]"]) (simp_all add: quietEffects_def retains_def certsOk_dropCertsUpTo)

lemma chain_dropBatches [simp]: "chain b s (dropBatches E l n t) = chain b s t"
  by (rule chain_sameView) (simp add: sameView_def)

lemma pruneLocal_rel:
  "chain b s t \<Longrightarrow> chain b s (snd (pruneLocal E e h cs t)) \<and> rb_cc (snd (pruneLocal E e h cs t)) = rb_cc t"
  by (induction E e h cs t rule: pruneLocal.induct) (auto simp: small_actions stopNamespace_def split: option.split)

lemma chain_raiseH: "chain b s t \<Longrightarrow> cc_H (rb_cc t) \<le> n \<Longrightarrow> chain b s (rb_cc_update (cc_H_update (\<lambda>_. n)) t)"
  by (erule chain.trans, rule chain.calm [of _ _ "[]"]) (simp_all add: quietEffects_def retains_def)

lemma chain_transfer [simp]:
  "chain b s t \<Longrightarrow> chain b s (updateHighStateTarget m cs es t)"
  "chain b s t \<Longrightarrow> chain b s (tryStateTransfer t)"
  by (auto simp: updateHighStateTarget_def tryStateTransfer_def rin_def small_actions split: option.split)

context onward begin

lemma guarded_checkpointViewChange [THEN guardedP_wp, vc]: "guardedP b s (checkpointViewChange E after)"
  by (rule guardedPI, rule wp_any) (auto simp: checkpointViewChange_def signViewChange_def small_actions
      split: Option.bind_splits option.splits)

lemma guarded_generateSignedCheckpoint [THEN guardedP_wp, vc]:
  "guardedP b s (generateSignedCheckpoint E st d cfg after)"
  by (rule guardedPI) (auto simp: generateSignedCheckpoint_def small_actions split_beta split: option.split intro!: vc)

lemma guarded_moveWatermarks [THEN guarded_wp, vc]: "guarded b s (moveWatermarks E n newEpoch)"
proof (rule guardedI, rule wp_any)
  fix t u assume t: "chain b s t" and run: "moveWatermarks E n newEpoch t = Some u"
  show "chain b s u"
  proof (cases "n < cc_H (rb_cc t)")
    case True
    then show ?thesis using run t by (simp add: moveWatermarks_def)
  next
    case False
    obtain low where low: "batchFloor n (dropCertsUpTo n t) = Some low"
      using run False by (auto simp: moveWatermarks_def Let_def split: option.splits)
    define s3 where "s3 = rb_store_update (sm_checkpointStore_update (gkeep (\<lambda>(a, k) _. \<not> k \<le> n)))
      (dropBatches E low n (dropCertsUpTo n t))"
    obtain ok s4 where p: "pruneLocal E newEpoch n (sm_localCheckpoints (rb_store s3)) s3 = (ok, s4)" by fastforce
    have "chain b s s3" "rb_cc s3 = rb_cc t" using t by (simp_all add: s3_def)
    then have s4: "chain b s s4" "rb_cc s4 = rb_cc t"
      using pruneLocal_rel [of b s s3 E newEpoch n "sm_localCheckpoints (rb_store s3)"] p by simp_all
    have "u = (if ok then persistH n (rb_cc_update (cc_H_update (\<lambda>_. n)) (pruneLists n s4)) else s4)"
      using run False p by (cases ok) (simp_all add: moveWatermarks_def Let_def low s3_def)
    with s4 False show ?thesis by (simp add: pruneLists_def small_actions chain_raiseH)
  qed
qed

end

section \<open>Epochs\<close>

lemma chain_newConfig:
  assumes "chain b s t" "cc_H c = cc_H (rb_cc t)" "b \<longrightarrow> cc_selfID c = cc_selfID (rb_cc t) \<and> cc_selfP2P c = cc_selfP2P (rb_cc t)"
  shows "chain b s (t\<lparr>rb_cc := c\<rparr>)"
  by (rule chain.trans [OF assms(1)], rule chain.calm [of _ _ "[]"]) (use assms in \<open>simp_all add: quietEffects_def retains_def\<close>)

lemma updateDerivedData_keeps:
  assumes "updateDerivedData f vs c = Inr c'"
  shows "cc_H c' = cc_H c" "cc_selfP2P c' = cc_selfP2P c"
    "f (cc_selfP2P c) \<in> {None, Some (cc_selfID c)} \<Longrightarrow> cc_selfID c' = cc_selfID c"
  using assms by (auto simp: updateDerivedData_def Let_def split: if_splits option.splits)

lemma ccReset_keeps:
  assumes "ccResetRecentBlockNum f h c = Some c'"
  shows "cc_H c' = cc_H c" "cc_selfP2P c' = cc_selfP2P c" "cc_selfID c' = cc_selfID c"
  using assms by (auto simp: ccResetRecentBlockNum_def Let_def)

lemma chain_validatorEntries [simp]: "chain b s t \<Longrightarrow> chain b s (snd (validatorEntries E t))"
proof -
  let ?f = "\<lambda>(i, _) (m, s). case getNodeInfo (en_getNodeInfo E) (rb_cc s) i of
     (None, c) \<Rightarrow> (gput i None m, s\<lparr>rb_cc := c\<rparr>)
   | (Some n, c) \<Rightarrow> (gput i (Some \<lparr>vp_id = i, vp_p2p = ni_p2p n\<rparr>) m, s\<lparr>rb_cc := c\<rparr>)"
  have step: "chain b s (snd (?f (x :: u64 \<times> int) r))" if "chain b s (snd r)" for x r
    using that getNodeInfo_frame [of "en_getNodeInfo E" "rb_cc (snd r)" "fst x"]
    by (auto simp: case_prod_unfold split: option.split)
  have "chain b s (snd (fold ?f xs r))" if "chain b s (snd r)" for xs :: "(u64 \<times> int) list" and r
    using that by (induction xs arbitrary: r) (simp_all only: fold_simps o_apply step)
  then show "chain b s t \<Longrightarrow> ?thesis" unfolding validatorEntries_def by simp
qed

lemma chain_epoch [simp]:
  assumes "chain b s t"
  shows "chain b s (recvFetchCheckpoint E i n t)" "chain b s (retrieveEpochChange E i j k t)"
    "chain b s (processEpochChangeRequest E i j p t)"
  using assms by (auto simp: recvFetchCheckpoint_def retrieveEpochChange_def processEpochChangeRequest_def
      pagingGetEpochChangeProof_def small_actions split: option.split)

context onward begin

lemma guarded_persistEpochQuorumCheckpoint [THEN guarded_wp, vc]: "guarded b s (persistEpochQuorumCheckpoint q)"
  by (rule guardedI, rule wp_any) (auto simp: persistEpochQuorumCheckpoint_def split: Option.bind_splits)

lemma guarded_syncConfigCheckpoint [THEN guarded_wp, vc]: "guarded b s (syncConfigCheckpoint E h qcs)"
  by (rule guardedI) (auto simp: syncConfigCheckpoint_def small_actions split_beta split: list.split intro!: vc)

lemma guarded_fetchCheckpoint [THEN guarded_wp, vc]: "guarded b s (fetchCheckpoint E)"
  by (rule guardedI, rule wp_any) (auto simp: fetchCheckpoint_def startFetchCheckpointTimer_def startT_def selfID_def
      split: option.splits)

lemma guarded_checkEpoch [THEN guardedP_wp, vc]: "guardedP b s (checkEpoch E m)"
  by (rule guardedPI, rule wp_any) (auto simp: checkEpoch_def Let_def split: payload.splits if_splits)

lemma guarded_epochSync [THEN guarded_wp, vc]: "guarded b s (handleEpochSyncEvent E p)"
  by (rule guardedI, rule wp_any) (auto simp: handleEpochSyncEvent_def cacheProofs_def small_actions
      split: if_splits option.splits Option.bind_splits)

lemma guarded_fetchCheckpointEvent [THEN guarded_wp, vc]: "guarded b s (handleFetchCheckpointEvent E)"
  by (rule guardedI) (auto simp: handleFetchCheckpointEvent_def small_actions intro!: vc)

end

context watched begin

lemma idStable_chain: "chain b s t \<Longrightarrow> b \<longrightarrow> idStable E t"
  using idStable chain_self [of b s t] by (auto simp: idStable_def)

lemma guarded_updateEpochInfo [THEN guarded_wp, vc]: "guarded b s (updateEpochInfo E ei vs)"
proof (rule guardedI, rule wp_any)
  fix t u assume t: "chain b s t" and run: "updateEpochInfo E ei vs t = Some u"
  let ?t = "rb_epoch_update (em_epoch_update (\<lambda>_. ei_epoch ei)) (rb_cc_update (cc_epochInfo_update (\<lambda>_. ei)) t)"
  have t': "chain b s ?t" using t by simp
  show "chain b s u"
  proof (cases "updateDerivedData (en_nodeIDByP2P E) vs (rb_cc ?t)")
    case (Inl e)
    then show ?thesis using run t' by (simp add: updateEpochInfo_def Let_def)
  next
    case (Inr c)
    then obtain c' where c': "ccResetRecentBlockNum (en_getBlockMeta E) (cc_lastCkptHeight c) c = Some c'" and u: "u = ?t\<lparr>rb_cc := c'\<rparr>"
      using run by (auto simp: updateEpochInfo_def Let_def)
    have "b \<longrightarrow> en_nodeIDByP2P E (cc_selfP2P (rb_cc ?t)) \<in> {None, Some (cc_selfID (rb_cc ?t))}"
      using idStable_chain [OF t'] by (simp add: idStable_def)
    then show ?thesis
      unfolding u using updateDerivedData_keeps [OF Inr] ccReset_keeps [OF c'] by (intro chain_newConfig t') auto
  qed
qed

lemma guarded_turnIntoEpoch [THEN guarded_wp, vc]: "guarded b s (turnIntoEpoch E)"
  by (rule guardedI) (auto simp: turnIntoEpoch_def small_actions split: option.split split del: if_split intro!: vc)

lemma guarded_syncEpoch [THEN guardedP_wp, vc]: "guardedP b s (syncEpoch E)"
  by (rule guardedPI) (auto simp: syncEpoch_def split: option.split intro!: vc)

end

section \<open>Checkpoints\<close>

lemma chain_checkView [simp]: "chain b s (checkView m t) = chain b s t"
  by (auto simp: checkView_def)

lemma chain_becomeInconsistent [simp]: "chain b s t \<Longrightarrow> chain b s (becomeInconsistent t)"
  by (simp add: becomeInconsistent_def small_actions)

lemma chain_compareCheckpoint [simp]: "chain b s t \<Longrightarrow> chain b s (snd (compareCheckpointWithWeakSet E c t))"
  by (auto simp: compareCheckpointWithWeakSet_def Let_def split: option.split prod.split list.split)

lemma chain_stopBatching [simp]: "chain b s (stopBatching t) = chain b s t"
  by (auto simp: stopBatching_def small_actions)

lemma chain_reopenCerts [simp]: "chain b s t \<Longrightarrow> chain b s (reopenCerts n t)"
  unfolding reopenCerts_def
  by (auto intro!: chain_fold simp: reopenCert_def small_actions split: option.split)

lemma chain_finishStateUpdate [simp]:
  assumes "chain b s t"
  shows "chain b s (finishStateUpdate n t)"
proof -
  have "chain b t (finishStateUpdate n t)"
    by (rule chain.finishes) (simp_all add: finishStateUpdate_def small_actions retains_def emit_def)
  with assms show ?thesis by (rule chain.trans)
qed

lemma config_frame [simp]:
  "rb_config (ron p t) = rb_config t" "rb_config (roff p t) = rb_config t" "rb_config (raOn p t) = rb_config t"
  "rb_config (raOff p t) = rb_config t" "rb_config (stopT n t) = rb_config t" "rb_config (emit e t) = rb_config t"
  by (simp_all add: ron_def roff_def raOn_def raOff_def stopT_def emit_def)

lemma setAbNormal_config [simp]: "rb_config (setAbNormal t) = rb_config t"
  by (simp add: setAbNormal_def exitSyncState_def stopBatchTimer_def Let_def)

lemma tryStateTransfer_keeps [simp]: "rb_cc (tryStateTransfer t) = rb_cc t" "rb_config (tryStateTransfer t) = rb_config t"
  by (simp_all add: tryStateTransfer_def stopFetchCheckpointTimer_def stopHighWatermarkTimer_def Let_def split: option.split)

lemma certsOk_tryStateTransfer: "certsOk t \<Longrightarrow> certsOk (tryStateTransfer t)"
  by (simp add: tryStateTransfer_def stopFetchCheckpointTimer_def stopHighWatermarkTimer_def certsOk_dropCertsUpTo Let_def
      split: option.split)

lemma chain_retryTransfer:
  assumes "chain b s t" "sm_highStateTarget (rb_store t) = Some g"
  shows "chain b s (tryStateTransfer ((raOff StateTransferring t)\<lparr>rb_lastExec := n\<rparr>))"
proof (rule chain.trans [OF assms(1)])
  let ?u = "(raOff StateTransferring t)\<lparr>rb_lastExec := n\<rparr>"
  have "rb_out (tryStateTransfer ?u) = rb_out t @ [transferOf g ?u]"
    using tryStateTransfer_start(1) [of ?u g] assms(2) by (simp add: ratomicIn_def raOff_def)
  then show "chain b t (tryStateTransfer ?u)"
    unfolding transferOf_def
    by (rule chain.transfers) (use tryStateTransfer_start(5) [of ?u g] assms(2) in
      \<open>simp_all add: retains_def raOff_def ratomicIn_def rin_def certsOk_tryStateTransfer\<close>)
qed

context onward begin

lemma guarded_weakCheckpointSetOutOfRange [THEN guardedP_wp, vc]: "guardedP b s (weakCheckpointSetOutOfRange E c)"
  by (rule guardedPI) (auto simp: weakCheckpointSetOutOfRange_def Let_def split: prod.split option.split intro!: vc)

lemma guarded_autoTermUpdate [THEN guardedP_wp, vc]: "guardedP b s (autoTermUpdate E h cs)"
  by (rule guardedPI) (auto simp: autoTermUpdate_def signNewView_def Let_def split: prod.split option.split
      intro!: vc wp_all [where r = "selectValidatorDynamicInfo _ _ _"] wp_all [where r = "gget _ _"])

lemma guarded_finishNormalCheckpoint [THEN guarded_wp, vc]: "guarded b s (finishNormalCheckpoint E h cs)"
  by (rule guardedI) (auto simp: finishNormalCheckpoint_def small_actions split del: if_split intro!: vc)

lemma guarded_recordStable [THEN guardedP_wp, vc]: "guardedP b s (recordStable E h d)"
  by (rule guardedPI, rule wp_any) (auto simp: recordStable_def small_actions split: option.splits)

lemma guarded_lagging [THEN guarded_wp, vc]: "guarded b s (lagging E)"
  by (rule guardedI) (auto simp: lagging_def small_actions intro!: vc)

lemma guarded_adoptCheckpoint [THEN guardedP_wp, vc]: "guardedP b s (adoptCheckpoint E n d changed)"
  by (rule guardedPI) (auto simp: adoptCheckpoint_def small_actions split: list.split option.split
      intro!: vc wp_all [where r = "sm_highStateTarget _"] wp_all [where r = "sc_checkpoint _"] wp_all [where r = "ck_state _"])

lemma guarded_persistCachedProof [THEN guarded_wp, vc]: "guarded b s (persistCachedProof e)"
  by (rule guardedI) (auto simp: persistCachedProof_def split: option.split intro!: vc)

lemma guarded_resumeViewChange [THEN guardedP_wp, vc]: "guardedP b s (resumeViewChange E)"
  by (rule guardedPI) (auto simp: resumeViewChange_def split: option.split split del: if_split
      intro!: vc wp_all [where r = "calPrimaryIDByView _ _ _ _"] wp_all [where r = "firstTargetCheckpoint _"])

lemma guarded_checkIfNeedStateUpdate [THEN guardedP_wp, vc]: "guardedP b s (checkIfNeedStateUpdate E cs cset)"
  by (rule guardedPI) (auto simp: checkIfNeedStateUpdate_def small_actions split: option.split split del: if_split intro!: vc)

end

lemma chain_putBack [simp]: "chain b s t \<Longrightarrow> chain b s (putBackRequestBatches E xs t)"
  unfolding putBackRequestBatches_def Let_def fold_persistDelBatch by (simp add: withPool_def)

context watched begin

lemma guarded_finishConfigCheckpoint [THEN guardedP_wp, vc]: "guardedP b s (finishConfigCheckpoint E h cs)"
  by (rule guardedPI) (auto simp: finishConfigCheckpoint_def small_actions split_beta intro!: vc)

lemma guarded_stabilise [THEN guardedP_wp, vc]: "guardedP b s (stabilise E k cs)"
  by (rule guardedPI) (auto simp: stabilise_def Let_def split_beta intro!: vc)

lemma guarded_recvCheckpoint [THEN guardedP_wp, vc]: "guardedP b s (recvCheckpoint E c local)"
  by (rule guardedPI) (auto simp: recvCheckpoint_def Let_def split_beta split: option.split split del: if_split
      intro!: vc wp_all [where r = "sc_checkpoint _"])

lemma guarded_checkpointAct [THEN guarded_wp, vc]: "guarded b s (checkpointAct E st isConfig)"
  by (rule guardedI) (auto simp: checkpointAct_def small_actions split_beta split: option.split split del: if_split intro!: vc)

lemma guarded_stateReached [THEN guardedP_wp, vc]: "guardedP b s (stateReached E ss)"
proof (rule guardedPI)
  fix t assume t: "chain b s t"
  have reset: "wp (ccResetRecentBlockNum (en_getBlockMeta E) h (rb_cc t)) Q"
    if "\<And>c. chain b s (t\<lparr>rb_cc := c\<rparr>) \<Longrightarrow> Q c" for h Q
    by (rule wp_any, rule that, rule chain_newConfig [OF t]) (simp_all add: ccReset_keeps)
  show "wp (stateReached E ss t) (\<lambda>r. chain b s (snd r))"
    by (auto simp: stateReached_def small_actions split del: if_split intro!: vc reset)
qed

lemma guarded_recvStateUpdated [THEN guardedP_wp, vc]: "guardedP b s (recvStateUpdatedEvent E ss)"
  by (rule guardedPI) (auto simp: recvStateUpdatedEvent_def Let_def chain_retryTransfer split: option.split
      split del: if_split intro!: vc)

end

section \<open>New view\<close>

lemma chain_checkMissingBatches [simp]: "chain b s t \<Longrightarrow> chain b s (snd (checkIfNeedFetchMissingReqBatch xs t))"
  by (simp add: checkIfNeedFetchMissingReqBatch_def)

lemma chain_newView [simp]:
  assumes "chain b s t"
  shows "chain b s (fetchRequestBatches t)" "chain b s (recvFetchRequestBatch E i d t)" "chain b s (recvFetchView E i v t)"
  using assms by (auto simp: fetchRequestBatches_def recvFetchRequestBatch_def recvFetchView_def selfID_def
      split: option.split intro!: chain_fold)

lemma newViewPrePrepare_fields [simp]:
  "pp_view (newViewPrePrepare n d ob dups t) = cc_view (rb_cc t)"
  "pp_n (newViewPrePrepare n d ob dups t) = n" "pp_digest (newViewPrePrepare n d ob dups t) = d"
  by (simp_all add: newViewPrePrepare_def)

lemma outstanding_frame [simp]:
  "rb_cc (if p then rb_store_update (sm_outstanding_update f) t else t) = rb_cc t"
  "sm_certStore (rb_store (if p then rb_store_update (sm_outstanding_update f) t else t)) = sm_certStore (rb_store t)"
  by simp_all

context onward begin

lemma guarded_adoptConfigBatch [THEN guarded_wp, vc]: "guarded b s (adoptConfigBatch E idx)"
  by (rule guardedI) (auto simp: adoptConfigBatch_def small_actions split: option.split split del: if_split
      intro!: vc wp_all [where r = "rb_currentState _"])

lemma guarded_adoptLoop [THEN guardedP_wp, vc]: "guardedP b s (adoptLoop E ms n)"
proof (rule guardedPI)
  fix t assume "chain b s t"
  then show "wp (adoptLoop E ms n t) (\<lambda>r. chain b s (snd r))"
  proof (induction ms arbitrary: t n)
    case (Cons m ms)
    then show ?case
      by (auto simp: small_actions split_beta split: option.split split del: if_split intro!: vc Cons.IH)
  qed simp
qed

lemma guarded_voteAgain: "guarded b s (voteAgain E primary m)"
  by (rule guardedI) (auto simp: voteAgain_def small_actions split del: if_split
      intro!: guarded_own [OF guarded_recvPrepare] guarded_own [OF guarded_recvCommit])

lemma guarded_voteAll [THEN guarded_wp, vc]: "guarded b s (mfold (voteAgain E primary) ms)"
  by (rule guarded_mfold) (rule guarded_voteAgain)

lemma guarded_processNewView [THEN guarded_wp, vc]: "guarded b s (processNewView E ms)"
  by (rule guardedI) (auto simp: processNewView_def Let_def split_beta split: option.split intro!: vc)

lemma guarded_resetStateForNewView [THEN guardedP_wp, vc]: "guardedP b s (resetStateForNewView E)"
  by (rule guardedPI) (auto simp: resetStateForNewView_def small_actions split: option.split intro!: vc)

lemma guarded_recvFetchBatchResponse [THEN guardedP_wp, vc]: "guardedP b s (recvFetchBatchResponse E ob d)"
  by (rule guardedPI) (auto simp: recvFetchBatchResponse_def small_actions split del: if_split
      intro!: vc wp_all [where r = ob])

lemma guarded_primaryCheckNewView [THEN guardedP_wp, vc]: "guardedP b s (primaryCheckNewView E xs)"
  by (rule guardedPI) (auto simp: primaryCheckNewView_def split_beta intro!: vc)

lemma guarded_replicaCheckNewView [THEN guardedP_wp, vc]: "guardedP b s (replicaCheckNewView E)"
  by (rule guardedPI) (auto simp: replicaCheckNewView_def split_beta split: option.split split del: if_split
      intro!: vc wp_all [where r = "newViewBases _"])

lemma guarded_sendNewView [THEN guardedP_wp, vc]: "guardedP b s (sendNewView E)"
  by (rule guardedPI) (auto simp: sendNewView_def signNewView_def split_beta Let_def split: option.split split del: if_split
      intro!: vc wp_all [where r = "selectValidatorDynamicInfo _ _ _"] wp_all [where r = "those _"])

lemma guarded_tryFetchLoop: "guarded b s (tryFetchLoop E rs)"
proof (rule guardedI)
  fix t assume "chain b s t"
  then show "wp (tryFetchLoop E rs t) (chain b s)"
    by (induction E rs t rule: tryFetchLoop.induct) (auto simp: small_actions intro!: vc)
qed

lemmas wp_tryFetchLoop [vc] = guarded_tryFetchLoop [THEN guarded_wp]

lemma guarded_tryFetchView [THEN guarded_wp, vc]: "guarded b s (tryFetchView E)"
  by (rule guardedI) (auto simp: tryFetchView_def intro!: vc)

lemma guarded_resetStateForRecovery [THEN guardedP_wp, vc]: "guardedP b s (resetStateForRecovery E v h nv c)"
  by (rule guardedPI) (auto simp: resetStateForRecovery_def countRecovery_def small_actions split_beta split del: if_split
      intro!: vc wp_all [where r = "sc_checkpoint _"])

lemma guarded_recvRecoveryResponse [THEN guardedP_wp, vc]: "guardedP b s (recvRecoveryResponse E r)"
  by (rule guardedPI) (auto simp: recvRecoveryResponse_def split: option.split intro!: vc wp_all [where r = "checkNewView _ _ _"])

lemma guarded_updateViewChangeSeqNo [THEN guarded_wp, vc]: "guarded b s (updateViewChangeSeqNo n k)"
  by (rule guardedI) (simp add: updateViewChangeSeqNo_def)

end

section \<open>Synchronising states\<close>

context onward begin

lemma guarded_compareWholeStates [THEN guardedP_wp, vc]: "guardedP b s (compareWholeStates E rs)"
  by (rule guardedPI) (auto simp: compareWholeStates_def small_actions split_beta split: option.split split del: if_split
      intro!: vc)

lemma guarded_recvSyncStateResponse [THEN guardedP_wp, vc]: "guardedP b s (recvSyncStateResponse E r local)"
  by (rule guardedPI) (auto simp: recvSyncStateResponse_def Let_def split: option.split split del: if_split intro!: vc)

lemma guarded_initSyncState [THEN guarded_wp, vc]: "guarded b s (initSyncState E)"
  by (rule guardedI) (auto simp: initSyncState_def small_actions split_beta split: option.split split del: if_split intro!: vc)

lemma guarded_restartSyncState [THEN guarded_wp, vc]: "guarded b s (restartSyncState E)"
  by (rule guardedI) (auto simp: restartSyncState_def intro!: vc)

lemma guarded_recvSyncState [THEN guarded_wp, vc]: "guarded b s (recvSyncState E p)"
  by (rule guardedI) (auto simp: recvSyncState_def small_actions split_beta split: option.split split del: if_split
      intro!: vc wp_all [where r = "syncBatchDigest _ _"])

lemma guarded_generateAndPost [THEN guarded_wp, vc]: "guarded b s (generateAndPost E g)"
  by (rule guardedI) (auto simp: generateAndPost_def small_actions split: prod.split option.split intro!: vc)

lemma guarded_batchTimers [THEN guarded_wp, vc]:
  "guarded b s (handleBatchTimer E)" "guarded b s (handleNoTxBatchTimer E)" "guarded b s (handleCheckPool E timeout)"
  "guarded b s (handleNotifyGenBatchEvent E)"
  by (rule guardedI, auto simp: handleBatchTimer_def handleNoTxBatchTimer_def handleCheckPool_def
      handleNotifyGenBatchEvent_def small_actions split del: if_split intro!: vc)+

lemma guarded_notifyFindNextBatch [THEN guarded_wp, vc]: "guarded b s (handleNotifyFindNextBatchEvent E hs)"
proof -
  have "guarded b s (continueFetched E h)" for h
    by (rule guardedI) (auto simp: continueFetched_def split: option.split intro!: vc)
  then have "guarded b s (mfold (continueFetched E) hs)" by (rule guarded_mfold)
  then show ?thesis
    by (auto simp: guarded_def handleNotifyFindNextBatchEvent_def deferFetched_def cacheEvent_def Let_def split_beta)
qed

lemma guarded_findNextPrepareBatches [THEN guarded_wp, vc]: "guarded b s (mfold (findNextPrepareBatch E) idxs)"
  by (rule guarded_mfold, rule guardedI) (auto intro!: vc)

lemma guarded_handleRecoveryEvent [THEN guardedP_wp, vc]: "guardedP b s (handleRecoveryEvent E e)"
  by (rule guardedPI) (auto simp: handleRecoveryEvent_def quietly_def small_actions split: localEvent.split intro!: vc)

lemma guarded_leaveViewChange [THEN guarded_wp, vc]: "guarded b s leaveViewChange"
  by (rule guardedI) (auto simp: leaveViewChange_def reportCheckpoint_def small_actions split del: if_split intro!: vc)

lemma guarded_resumePrimary [THEN guarded_wp, vc]: "guarded b s (resumePrimary E)"
  by (rule guardedI) (auto simp: resumePrimary_def intro!: vc)

lemma guarded_miscEvent [THEN guardedP_wp, vc]: "guardedP b s (dispatchMiscEvent E e)"
  by (rule guardedPI) (auto simp: dispatchMiscEvent_def quietly_def handleReqGetWatermarkEvent_def split: event.split intro!: vc)

end

lemma chain_filters [simp]:
  "chain b s t \<Longrightarrow> chain b s (snd (checkEventCanProcessWhenWaitCheckpoint allowed e t))"
  "chain b s t \<Longrightarrow> chain b s (snd (checkMsgCanProcessWhenWaitCheckpoint p e t))"
  by (auto simp: checkEventCanProcessWhenWaitCheckpoint_def checkMsgCanProcessWhenWaitCheckpoint_def cacheEvent_def)

section \<open>Handlers that run events\<close>

context running begin

lemma guarded_reProcessCacheEvents [THEN guarded_wp, vc]: "guarded b s (reProcessCacheEvents run)"
proof -
  let ?f = "\<lambda>e s. map_option (\<lambda>s1. case e of ConsensusEvent m \<Rightarrow> checkView m s1 | _ \<Rightarrow> s1) (run e s)"
  have "guarded b s (?f e)" for e
    by (rule guardedI) (auto split: event.split intro!: guarded_wp [OF runs])
  then have "guarded b s (mfold ?f es)" for es by (rule guarded_mfold)
  then show ?thesis by (simp add: guarded_def reProcessCacheEvents_def)
qed

lemma guarded_afterOwnCheckpoint [THEN guarded_wp, vc]: "guarded b s (afterOwnCheckpoint run E st isConfig)"
  by (rule guardedI) (auto simp: afterOwnCheckpoint_def small_actions split del: if_split intro!: vc)

lemma guarded_checkpointBlockExecuted [THEN guarded_wp, vc]: "guarded b s (recvCheckpointBlockExecutedEvent run E st)"
  by (rule guardedI) (auto simp: recvCheckpointBlockExecutedEvent_def small_actions split del: if_split intro!: vc)

lemma guarded_processQuorumViewChange [THEN guarded_wp, vc]: "guarded b s (processQuorumViewChange run E vcs verified)"
  unfolding processQuorumViewChange_def
  by (rule guarded_mfold, rule guardedI) (auto simp: split_beta split: option.split intro!: vc guarded_wp [OF runs])

lemma guarded_recvQuorumViewChange [THEN guarded_wp, vc]: "guarded b s (recvQuorumViewChange run E vcs)"
  by (rule guardedI) (auto simp: recvQuorumViewChange_def Let_def split: list.split split del: if_split intro!: vc)

lemma guarded_recvNewView [THEN guardedP_wp, vc]: "guardedP b s (recvNewView run E nv)"
  by (rule guardedPI) (auto simp: recvNewView_def split: option.split split del: if_split
      intro!: vc wp_all [where r = "checkNewView _ _ _"] wp_all [where r = "nv_viewChangeSet _"])

section \<open>The event loop\<close>

lemma guarded_consensusMsg [THEN guardedP_wp, vc]: "guardedP b s (dispatchConsensusMsg run E p)"
  by (rule guardedPI) (auto simp: dispatchConsensusMsg_def dispatchCoreRbftMsg_def dispatchViewChangeMsg_def
      dispatchRecoveryMsg_def dispatchEpochMsg_def quietly_def split: service.split payload.split intro!: vc)

lemma guarded_consensusFilter [THEN guardedP_wp, vc]: "guardedP b s (consensusMessageFilter run E m)"
  by (rule guardedPI) (auto simp: consensusMessageFilter_def split_beta if_distrib [of snd]
      split: bool.split split del: if_split intro!: vc)

lemma guarded_coreEvent [THEN guardedP_wp, vc]: "guardedP b s (handleCoreRbftEvent run E e)"
  by (rule guardedPI) (auto simp: handleCoreRbftEvent_def quietly_def split: localEvent.split intro!: vc)

lemma guarded_viewChangeDone [THEN guardedP_wp, vc]: "guardedP b s (handleViewChangeDone E)"
  by (rule guardedPI) (auto simp: handleViewChangeDone_def forgetOldViews_def quietly_def small_actions split_beta
      split del: if_split intro!: vc wp_all [where r = "isActiveCheckPoolTimer _"])

lemma guarded_viewChangeEvent [THEN guardedP_wp, vc]: "guardedP b s (handleViewChangeEvent E e)"
  by (rule guardedPI) (auto simp: handleViewChangeEvent_def quietly_def split: localEvent.split split del: if_split intro!: vc)

lemma guarded_epochEvent [THEN guardedP_wp, vc]: "guardedP b s (handleEpochMgrEvent E e)"
  by (rule guardedPI) (auto simp: handleEpochMgrEvent_def quietly_def split: localEvent.split intro!: vc)

lemma guarded_localEvent [THEN guardedP_wp, vc]: "guardedP b s (dispatchLocalEvent run E e)"
  by (rule guardedPI) (auto simp: dispatchLocalEvent_def split: service.split intro!: vc)

lemma guarded_processEvent: "guardedP b s (processEvent run E e)"
  by (rule guardedPI) (auto simp: processEvent_def split_beta split: event.split bool.split intro!: vc)

end

context watched begin

lemma guarded_runEvents: "guarded b s (runEvents k E e)"
proof (induction k arbitrary: e)
  case 0
  show ?case by (rule guardedI) simp
next
  case (Suc k)
  have "running b s E (runEvents k E)" by unfold_locales (rule Suc)
  note step = running.guarded_processEvent [OF this, THEN guardedP_wp]
  show ?case
    by (rule guardedI) (auto simp: split_beta split: option.split intro!: step guarded_wp [OF Suc])
qed

lemma guarded_listenEvent: "guarded b s (listenEvent k E e)"
  by (rule guardedI) (auto simp: listenEvent_def split: event.split intro!: guarded_wp [OF guarded_runEvents])

end

interpretation anonymous: running False s E "runEvents k E" for s :: "'p replica" and E :: "'p env" and k
  \<comment> \<open>without regard to who sends the messages: any replica in any environment\<close>
proof -
  have "watched False s E" by unfold_locales simp
  then show "running False s E (runEvents k E)"
    by (intro running.intro running_axioms.intro watched.guarded_runEvents)
qed

end
