(* ===== verification/InputSafety.thy ===== *)
theory InputSafety
  imports LoopSafety Lifecycle NormalLiveness
begin

text \<open>
  A replica at work: the inputs it takes between its start and its stop (messages of the network, reports of the
  application, requests, and the rounds of the event loop), in any order, each in its own environment. The
  guarantees of LoopSafety hold over every sequence of inputs.
\<close>

section \<open>Inputs\<close>

datatype input =
    Round nat event \<comment> \<open>a round of the event loop, with enough fuel\<close>
  | Arrives consensusMessage
  | Started
  | Executed serviceState
  | Transferred serviceSyncState
  | AskedWatermark
  | PoolReady
  | PoolFetched "string list"

fun takeInput :: "'p env \<Rightarrow> input \<Rightarrow> 'p act" where
  "takeInput E (Round k e) s = listenEvent k E e s"
| "takeInput E (Arrives m) s = Some (nodeStep E m s)"
| "takeInput E Started s = Some (nodeStart s)"
| "takeInput E (Executed st) s = ReportExecuted st s"
| "takeInput E (Transferred ss) s = ReportStateUpdated ss s"
| "takeInput E AskedWatermark s = Some (GetLowWatermark s)"
| "takeInput E PoolReady s = Some (nodeNotifyGenBatch s)"
| "takeInput E (PoolFetched hs) s = Some (nodeNotifyFindNextBatch hs s)"

definition takeInputs :: "('p env \<times> input) list \<Rightarrow> 'p act" where
  "takeInputs = mfold (\<lambda>(E, i). takeInput E i)"

lemma chain_step [simp]:
  assumes "chain b s t"
  shows "chain b s (nodeStep E m t)"
proof -
  obtain i c where i: "getNodeInfo (en_getNodeInfo E) (rb_cc t) (m_from m) = (i, c)" by fastforce
  then have "chain b s (t\<lparr>rb_cc := c\<rparr>)"
    using getNodeInfo_frame [of "en_getNodeInfo E" "rb_cc t" "m_from m"] by (intro chain_newConfig [OF assms]) simp_all
  with assms i show ?thesis
    by (simp add: nodeStep_def stepReplica_def storePending_def split: payload.split option.split)
qed

lemma chain_start [simp]: "chain b s t \<Longrightarrow> chain b s (nodeStart t)"
  by (simp add: nodeStart_def startReplica_def small_actions split: option.split)

context onward begin

lemma guarded_ReportExecuted [THEN guarded_wp, vc]: "guarded b s (ReportExecuted st)"
  by (rule guardedI) (auto simp: ReportExecuted_def reportCheckpoint_def Let_def split: option.split)

lemma guarded_ReportStateUpdated [THEN guarded_wp, vc]: "guarded b s (ReportStateUpdated ss)"
  by (rule guardedI, rule wp_any) (auto simp: ReportStateUpdated_def reportStateUpdated_def Let_def
      split: Option.bind_splits if_splits)

end

context watched begin

lemma guarded_takeInput: "guarded b s (takeInput E i)"
  by (rule guardedI) (cases i; auto simp: GetLowWatermark_def nodeNotifyGenBatch_def nodeNotifyFindNextBatch_def
      intro!: vc guarded_wp [OF guarded_listenEvent])

end

lemma takeInputs_chain:
  assumes "takeInputs xs s = Some t" "\<And>E i. (E, i) \<in> set xs \<Longrightarrow> b \<longrightarrow> idStable E s"
  shows "chain b s t"
proof (rule mfold_inv [where P = "chain b s"])
  show "chain b s s" by simp
  show "mfold (\<lambda>(E, i). takeInput E i) xs s = Some t" using assms(1) by (simp add: takeInputs_def)
  fix x u u' assume x: "x \<in> set xs" and u: "chain b s u" and step: "(case x of (E, i) \<Rightarrow> takeInput E i) u = Some u'"
  obtain E i where [simp]: "x = (E, i)" by (cases x)
  have "watched b s E" by unfold_locales (use assms(2) x in auto)
  from guardedD(1) [OF watched.guarded_takeInput [OF this] u] step show "chain b s u'" by simp
qed

section \<open>Blocks are handed over in order\<close>

datatype progress =
    Next u64 \<comment> \<open>the height executed last\<close>
  | Transferring \<comment> \<open>the application replaces its state\<close>
  | Anywhere \<comment> \<open>a state transfer has ended\<close>

fun admits :: "progress \<Rightarrow> effect \<Rightarrow> bool" where
  "admits (Next l) (Execute txs ls h ts p) = (h = l + 1)"
| "admits Transferring (Execute txs ls h ts p) = False"
| "admits _ _ = True"

fun progressed :: "progress \<Rightarrow> effect \<Rightarrow> progress" where
  "progressed m (Execute txs ls h ts p) = Next h"
| "progressed m (StateUpdate h t d cs es) = Transferring"
| "progressed m (SendFilterEvent FinishStateUpdate) = Anywhere"
| "progressed m _ = m"

fun inOrder :: "progress \<Rightarrow> effect list \<Rightarrow> bool" where
  "inOrder m [] = True"
| "inOrder m (e # es) = (admits m e \<and> inOrder (progressed m e) es)"

abbreviation progressAfter :: "progress \<Rightarrow> effect list \<Rightarrow> progress" where
  "progressAfter m es \<equiv> fold (\<lambda>e m. progressed m e) es m"

fun standsAt :: "progress \<Rightarrow> 'p replica \<Rightarrow> bool" where
  "standsAt (Next l) s = (rb_lastExec s = l)"
| "standsAt Transferring s = skipping s"
| "standsAt Anywhere s = True"

lemma inOrder_append: "inOrder m (xs @ ys) = (inOrder m xs \<and> inOrder (progressAfter m xs) ys)"
  by (induction xs arbitrary: m) simp_all

lemma plain_progress: "plainEffect e \<Longrightarrow> admits m e \<and> progressed m e = m"
  by (cases "(m, e)" rule: admits.cases; cases e rule: plainEffect.cases; auto)

lemma plain_inOrder: "(\<And>e. e \<in> set es \<Longrightarrow> plainEffect e) \<Longrightarrow> inOrder m es \<and> progressAfter m es = m"
  by (induction es) (simp_all add: plain_progress)

lemma chain_inOrder:
  assumes "chain b s t" "standsAt m s"
  shows "\<exists>es. rb_out t = rb_out s @ es \<and> inOrder m es \<and> standsAt (progressAfter m es) t"
  using assms
proof (induction arbitrary: m rule: chain.induct)
  case (calm t s es)
  then show ?case
    using plain_inOrder [of es m] by (cases m) (auto simp: quietEffects_def)
next
  case (executes t s e)
  then obtain txs ls h ts p where "e = Execute txs ls h ts p" "h = rb_lastExec s + 1"
    by (auto simp: exHeight_def split: effect.splits)
  then show ?case using executes by (cases m) auto
next
  case (transfers t s h n d cs es)
  then show ?case by (cases m) auto
next
  case (finishes t s)
  then show ?case by (cases m) auto
next
  case (trans s t u)
  obtain xs where xs: "rb_out t = rb_out s @ xs" "inOrder m xs" "standsAt (progressAfter m xs) t"
    using trans.IH(1) [OF trans.prems] by blast
  from trans.IH(2) [OF xs(3)] obtain ys where "rb_out u = rb_out t @ ys" "inOrder (progressAfter m xs) ys"
    "standsAt (progressAfter (progressAfter m xs) ys) u"
    by blast
  with xs show ?case by (intro exI [of _ "xs @ ys"]) (simp add: inOrder_append)
qed

definition progressOf :: "'p replica \<Rightarrow> progress" where
  "progressOf s = (if skipping s then Transferring else Next (rb_lastExec s))"

text \<open>C4. Whatever inputs a replica takes, in whatever order and environments, the blocks it hands to the
  application are in order: the first one is the successor of the last one executed before, each further one
  the successor of the one before it, none is handed over from the request of a state transfer on until its
  end, and only the first block after the end of a transfer may have another height. As long as no transfer
  is under way \<open>lastExec\<close> is the height handed over last.\<close>

theorem inputs_execute_in_order:
  assumes "takeInputs xs s = Some t"
  shows "\<exists>es. rb_out t = rb_out s @ es \<and> inOrder (progressOf s) es \<and>
    (\<forall>l. progressAfter (progressOf s) es = Next l \<longrightarrow> rb_lastExec t = l)"
proof -
  have "chain False s t" using takeInputs_chain [OF assms] by simp
  moreover have "standsAt (progressOf s) s" by (simp add: progressOf_def)
  ultimately obtain es where "rb_out t = rb_out s @ es" "inOrder (progressOf s) es" "standsAt (progressAfter (progressOf s) es) t"
    using chain_inOrder by blast
  then show ?thesis by (intro exI [of _ es]) auto
qed

definition sampleCommitMsg :: consensusMessage where
  "sampleCommitMsg = \<lparr>m_from = 3, m_epoch = 1, m_view = 1, m_payload = MCommit (sampleCommitOf 3)\<rparr>"

definition sampleWork :: "(unit env \<times> input) list" where
  \<comment> \<open>a commit arrives and is processed, and the application reports the block it was handed\<close>
  "sampleWork = [(sampleEnv, Arrives sampleCommitMsg), (sampleEnv, Round 2 (ConsensusEvent sampleCommitMsg)),
     (sampleEnv, Executed (sampleState\<lparr>ss_meta := \<lparr>ms_height = 1, ms_digest = ''s1'', ms_batchDigest = []\<rparr>\<rparr>))]"

lemma sampleWork_runs:
  "map_option (map exHeight \<circ> rb_out) (takeInputs sampleWork sampleCommitting) = Some [None, Some 1, None]"
  by code_simp

theorem inputs_execute_in_order_witness:
  "\<exists>t. takeInputs sampleWork sampleCommitting = Some t \<and> map exHeight (rb_out t) = [None, Some 1, None] \<and>
     inOrder (Next 0) (rb_out t)"
proof -
  obtain t where t: "takeInputs sampleWork sampleCommitting = Some t" "map exHeight (rb_out t) = [None, Some 1, None]"
    using sampleWork_runs by auto
  have "progressOf sampleCommitting = Next 0" "rb_out sampleCommitting = []"
    using sampleCommitting_facts by (simp_all add: progressOf_def rin_def)
  with inputs_execute_in_order [OF t(1)] t show ?thesis by auto
qed

section \<open>Messages in the own name\<close>

lemma chain_ownMessages:
  "chain b s t \<Longrightarrow> b \<Longrightarrow> \<exists>es. rb_out t = rb_out s @ es \<and> (\<forall>e \<in> set es. ownMessage (cc_selfID (rb_cc s)) e)"
proof (induction rule: chain.induct)
  case (executes t s e)
  then show ?case by (cases e) (auto simp: exHeight_def)
next
  case (trans s t u)
  then obtain xs ys where "rb_out t = rb_out s @ xs" "rb_out u = rb_out t @ ys"
    "\<forall>e \<in> set xs. ownMessage (cc_selfID (rb_cc s)) e" "\<forall>e \<in> set ys. ownMessage (cc_selfID (rb_cc t)) e"
    by blast
  then show ?case using chain_self(1) [OF trans.hyps(1)] trans.prems by (intro exI [of _ "xs @ ys"]) auto
qed (auto simp: quietEffects_def)


lemma sampleTimeout_runs:
  "map_option (\<lambda>t. map (\<lambda>e. case e of Broadcast m \<Rightarrow> authorOf (m_payload m) | _ \<Rightarrow> None) (rb_out t))
     (takeInputs [(sampleEnv, Round 2 (LocalEvent (ViewChangeTimer None)))] sampleReplica) = Some [Some 1]"
  by code_simp


section \<open>The low watermark\<close>

text \<open>C6. Over any inputs the low watermark of a replica never goes back and its configuration stays what it was,
  at every point in between as well.\<close>

theorem inputs_keep_watermark:
  assumes "takeInputs (xs @ ys) s = Some u"
  shows "\<exists>t. takeInputs xs s = Some t \<and> takeInputs ys t = Some u \<and> cc_H (rb_cc s) \<le> cc_H (rb_cc t) \<and>
    cc_H (rb_cc t) \<le> cc_H (rb_cc u) \<and> rb_config u = rb_config s"
proof -
  obtain t where t: "takeInputs xs s = Some t" "takeInputs ys t = Some u"
    using assms by (auto simp: takeInputs_def mfold_append split: Option.bind_splits)
  have "retains False s t" "retains False t u"
    using t by (auto intro!: chain_retains takeInputs_chain)
  with t show ?thesis by (auto simp: retains_def)
qed

theorem inputs_keep_watermark_witness:
  "\<exists>t u. takeInputs [hd sampleWork] sampleCommitting = Some t \<and> takeInputs (tl sampleWork) t = Some u \<and>
     cc_H (rb_cc t) \<le> cc_H (rb_cc u)"
proof -
  obtain u where "takeInputs sampleWork sampleCommitting = Some u" using sampleWork_runs by auto
  then have "takeInputs ([hd sampleWork] @ tl sampleWork) sampleCommitting = Some u" by (simp add: sampleWork_def)
  from inputs_keep_watermark [OF this] show ?thesis by blast
qed

section \<open>Certificates\<close>

lemma takeInputs_certsWf:
  assumes "takeInputs xs s0 = Some s" "sm_certStore (rb_store s0) = gempty"
  shows "certsWf s"
proof -
  have "retains False s0 s" by (rule chain_retains) (use takeInputs_chain [OF assms(1)] in simp)
  then show ?thesis using assms(2) by (auto simp: retains_def certsAll_def certsWf_def rcert_def)
qed

text \<open>C8. Counting the entries of a certificate counts replicas, whatever a replica that started without
  certificates has taken since: a committed certificate holds the pre-prepare of its view, height and digest, prepares
  for exactly these under at least quorum minus one different replica identifiers, and commits under at
  least a quorum of them. No view change, state transfer, epoch change or recovery breaks this.\<close>

theorem inputs_committed_quorum:
  assumes "takeInputs xs s0 = Some s" "sm_certStore (rb_store s0) = gempty" "committed (v, n, d) s"
  shows "\<exists>c p. rcert (v, n, d) s = Some c \<and> mc_prePrepare c = Some p \<and> (pp_view p, pp_n p, pp_digest p) = (v, n, d) \<and>
     int (card (prepareSenders c)) \<ge> int (commonCaseQuorum (rb_cc s)) - 1 \<and>
     card (commitSenders c) \<ge> commonCaseQuorum (rb_cc s) \<and>
     (\<forall>q \<in> ran (gget (mc_prepare c)). (pr_view q, pr_n q, pr_digest q) = (v, n, d)) \<and>
     (\<forall>q \<in> ran (gget (mc_commit c)). (cm_view q, cm_n q, cm_digest q) = (v, n, d))"
  using takeInputs_certsWf [OF assms(1,2)] assms(3) by (rule certsWf_committed)

definition sampleVotes :: "(unit env \<times> input) list" where
  \<comment> \<open>the null block of height 1 is pre-prepared, prepared and committed\<close>
  "sampleVotes = map (\<lambda>(i, p). (sampleEnv, Round 2 (ConsensusEvent \<lparr>m_from = i, m_epoch = 1, m_view = 1, m_payload = p\<rparr>)))
     [(2, MPrePrepare sampleNull), (3, MPrepare (samplePrepare 3)), (2, MCommit (sampleCommit 2)), (3, MCommit (sampleCommit 3))]"

lemma sampleVotes_runs:
  "map_option (committed (1, 1, [])) (takeInputs sampleVotes sampleReplica) = Some True"
  by code_simp

theorem inputs_committed_quorum_witness:
  "\<exists>s c. takeInputs sampleVotes sampleReplica = Some s \<and> rcert (1, 1, []) s = Some c \<and>
     card (commitSenders c) \<ge> commonCaseQuorum (rb_cc s)"
proof -
  obtain s where s: "takeInputs sampleVotes sampleReplica = Some s" "committed (1, 1, []) s"
    using sampleVotes_runs by auto
  have "sm_certStore (rb_store sampleReplica) = gempty" by (simp add: newStoreMgr_def)
  from inputs_committed_quorum [OF s(1) this s(2)] s(1) show ?thesis by blast
qed

end
